(* ===== verification/Uat_Prelude.thy ===== *)
theory Uat_Prelude
  imports "HOL-Library.Word"
begin

text \<open>
  Shared vocabulary of the development: Rust's machine integers as words of their width,
  \<open>Result\<close> as a sum, the operations of the Rust standard library the code uses
  (big-endian byte conversion, saturating and checked arithmetic, ASCII classes, UTF-8
  strings as lists of bytes), and the lemmas on lists and sums the components share.
\<close>

unbundle bit_operations_syntax

section \<open>Types\<close>

type_synonym u8 = "8 word"
type_synonym u16 = "16 word"
type_synonym u32 = "32 word"
type_synonym u64 = "64 word"
type_synonym u128 = "128 word"
type_synonym bytes = "8 word list"

text \<open>Rust's \<open>Result<T, E>\<close>: the error on the left, the value on the right.\<close>

type_synonym ('a, 'e) result = "'e + 'a"

abbreviation Ok :: "'a \<Rightarrow> ('a, 'e) result" where "Ok \<equiv> Inr"
abbreviation Err :: "'e \<Rightarrow> ('a, 'e) result" where "Err \<equiv> Inl"

definition is_ok :: "('a, 'e) result \<Rightarrow> bool" where
  "is_ok r = (case r of Ok _ \<Rightarrow> True | Err _ \<Rightarrow> False)"

lemma is_ok_simps [simp]: "is_ok (Ok x)" "\<not> is_ok (Err e)"
  by (simp_all add: is_ok_def)

lemma is_ok_iff: "is_ok r \<longleftrightarrow> (\<exists>x. r = Ok x)"
  by (cases r) simp_all

text \<open>The \<open>?\<close> operator and \<open>map_err\<close>.\<close>

definition and_then :: "('a, 'e) result \<Rightarrow> ('a \<Rightarrow> ('b, 'e) result) \<Rightarrow> ('b, 'e) result" where
  "and_then r f = (case r of Err e \<Rightarrow> Err e | Ok x \<Rightarrow> f x)"

definition map_err :: "('e \<Rightarrow> 'f) \<Rightarrow> ('a, 'e) result \<Rightarrow> ('a, 'f) result" where
  "map_err g r = (case r of Err e \<Rightarrow> Err (g e) | Ok x \<Rightarrow> Ok x)"

definition ok_or :: "'e \<Rightarrow> 'a option \<Rightarrow> ('a, 'e) result" where
  "ok_or e x = (case x of None \<Rightarrow> Err e | Some v \<Rightarrow> Ok v)"

lemma and_then_simps [simp]:
  "and_then (Err e) f = Err e" "and_then (Ok x) f = f x"
  by (simp_all add: and_then_def)

lemma and_then_Ok_iff: "and_then r f = Ok y \<longleftrightarrow> (\<exists>x. r = Ok x \<and> f x = Ok y)"
  by (cases r) simp_all

lemma and_then_Err_iff:
  "and_then r f = Err e \<longleftrightarrow> r = Err e \<or> (\<exists>x. r = Ok x \<and> f x = Err e)"
  by (cases r) simp_all

lemma map_err_simps [simp]:
  "map_err g (Err e) = Err (g e)" "map_err g (Ok x) = Ok x"
  by (simp_all add: map_err_def)

lemma map_err_Ok_iff [simp]: "map_err g r = Ok x \<longleftrightarrow> r = Ok x"
  by (cases r) simp_all

lemma ok_or_simps [simp]: "ok_or e None = Err e" "ok_or e (Some x) = Ok x"
  by (simp_all add: ok_or_def)

lemma ok_or_Ok_iff [simp]: "ok_or e x = Ok v \<longleftrightarrow> x = Some v"
  by (cases x) simp_all

text \<open>Collections: step tables of the call state machines, frame layout, policy checks.\<close>

named_theorems step_simps \<open>equations of the protocol step functions\<close>
named_theorems wire_simps \<open>length and layout facts of the frame codecs\<close>
named_theorems policy_simps \<open>equations of the admission policy\<close>

section \<open>Integers\<close>

definition saturating_add :: "'a::len word \<Rightarrow> 'a word \<Rightarrow> 'a word" where
  "saturating_add a b = (if unat a + unat b < 2 ^ LENGTH('a) then a + b else - 1)"

definition saturating_sub :: "'a::len word \<Rightarrow> 'a word \<Rightarrow> 'a word" where
  "saturating_sub a b = (if b \<le> a then a - b else 0)"

lemma unat_saturating_add:
  fixes a b :: "'a::len word"
  shows "unat (saturating_add a b) = min (unat a + unat b) (2 ^ LENGTH('a) - 1)"
proof (cases "unat a + unat b < 2 ^ LENGTH('a)")
  case True
  then show ?thesis by (simp add: saturating_add_def unat_word_ariths)
next
  case False
  then show ?thesis
    by (simp add: saturating_add_def unsigned_minus_1_eq_mask mask_eq_exp_minus_1)
qed

lemma unat_saturating_sub: "unat (saturating_sub a b) = unat a - unat b"
  by (simp add: saturating_sub_def unat_sub word_le_nat_alt)

text \<open>
  \<open>usize\<close> is 64 bits wide; lengths are kept as \<open>nat\<close>, and \<open>checked_add\<close> on them fails
  at the width.
\<close>

definition usize_checked_add :: "nat \<Rightarrow> nat \<Rightarrow> nat option" where
  "usize_checked_add a b = (if a + b < 2 ^ 64 then Some (a + b) else None)"

text \<open>\<open>u32::try_from\<close> and \<open>u16::try_from\<close> on a \<open>usize\<close>.\<close>

definition u32_try_from :: "nat \<Rightarrow> u32 option" where
  "u32_try_from n = (if n < 2 ^ 32 then Some (word_of_nat n) else None)"

definition u16_try_from :: "nat \<Rightarrow> u16 option" where
  "u16_try_from n = (if n < 2 ^ 16 then Some (word_of_nat n) else None)"

lemma unat_word_of_nat_less: "n < 2 ^ LENGTH('a) \<Longrightarrow> unat (word_of_nat n :: 'a::len word) = n"
  by (simp add: unsigned_of_nat take_bit_nat_eq_self)

section \<open>Bytes\<close>

text \<open>\<open>to_be_bytes\<close> of an integer of \<open>n\<close> bytes, and \<open>from_be_bytes\<close>.\<close>

definition to_be_bytes :: "nat \<Rightarrow> 'a::len word \<Rightarrow> bytes" where
  "to_be_bytes n w = rev (map (\<lambda>i. ucast (drop_bit (8 * i) w)) [0..<n])"

definition from_be_bytes :: "bytes \<Rightarrow> 'a::len word" where
  "from_be_bytes bs = foldl (\<lambda>acc b. acc * 256 + ucast b) 0 bs"

lemma length_to_be_bytes [simp, wire_simps]: "length (to_be_bytes n w) = n"
  by (simp add: to_be_bytes_def)

lemma to_be_bytes_0 [simp]: "to_be_bytes 0 w = []"
  by (simp add: to_be_bytes_def)

lemma to_be_bytes_Suc:
  "to_be_bytes (Suc n) w = ucast (drop_bit (8 * n) w) # to_be_bytes n w"
  by (simp add: to_be_bytes_def)

text \<open>
  Both conversions are the base-256 digits of the number: the lemmas work on \<open>nat\<close> and
  carry over to words through \<open>unat\<close>.
\<close>

fun be_value :: "bytes \<Rightarrow> nat" where
  "be_value [] = 0"
| "be_value (b # bs) = unat b * 256 ^ length bs + be_value bs"

definition be_digits :: "nat \<Rightarrow> nat \<Rightarrow> bytes" where
  "be_digits n v = rev (map (\<lambda>i. word_of_nat (v div 256 ^ i)) [0..<n])"

lemma be_value_foldl:
  "foldl (\<lambda>acc b. acc * 256 + unat b) acc bs = acc * 256 ^ length bs + be_value bs"
  for bs :: bytes
  by (induction bs arbitrary: acc) (simp_all add: algebra_simps)

lemma be_value_less: "be_value bs < 256 ^ length bs"
proof (induction bs)
  case Nil
  then show ?case by simp
next
  case (Cons b bs)
  have "unat b < 256" using unsigned_less [of b] by simp
  from Cons have "be_value (b # bs) < (unat b + 1) * 256 ^ length bs"
    by simp
  also have "\<dots> \<le> 256 * 256 ^ length bs"
    using \<open>unat b < 256\<close> by (intro mult_right_mono) simp_all
  finally show ?case by simp
qed

lemma be_digits_simps:
  "be_digits 0 v = []" "be_digits (Suc n) v = word_of_nat (v div 256 ^ n) # be_digits n v"
  by (simp_all add: be_digits_def)

lemma word8_of_nat_add_multiple:
  "(word_of_nat (x * 256 + y) :: u8) = word_of_nat y"
proof -
  have "(word_of_nat 256 :: u8) = 0" by simp
  then show ?thesis by (simp only: of_nat_add of_nat_mult) simp
qed

lemma be_digits_add_multiple: "be_digits n (x * 256 ^ n + y) = be_digits n y"
proof -
  have "(word_of_nat ((x * 256 ^ n + y) div 256 ^ i) :: u8) = word_of_nat (y div 256 ^ i)"
    if i: "i < n" for i
  proof -
    from i have "n = (n - i - 1) + 1 + i" by simp
    then have "(256::nat) ^ n = 256 ^ (n - i - 1) * 256 * 256 ^ i"
      by (metis power_add power_one_right)
    then have "(x * 256 ^ n + y) div 256 ^ i = x * 256 ^ (n - i - 1) * 256 + y div 256 ^ i"
      by (simp add: mult.assoc [symmetric] div_mult_self3)
    then show ?thesis by (simp only: word8_of_nat_add_multiple)
  qed
  then show ?thesis by (simp add: be_digits_def)
qed

lemma be_digits_value: "be_digits (length bs) (be_value bs) = bs"
proof (induction bs)
  case Nil
  then show ?case by (simp add: be_digits_simps)
next
  case (Cons b bs)
  have "(unat b * 256 ^ length bs + be_value bs) div 256 ^ length bs = unat b"
    using be_value_less [of bs] by simp
  with Cons show ?case by (simp add: be_digits_simps be_digits_add_multiple)
qed

lemma be_value_digits: "be_value (be_digits n v) = v mod 256 ^ n"
proof (induction n)
  case 0
  then show ?case by (simp add: be_digits_simps)
next
  case (Suc n)
  have len: "length (be_digits n v) = n" by (simp add: be_digits_def)
  have "v mod (256 ^ n * 256) = 256 ^ n * (v div 256 ^ n mod 256) + v mod 256 ^ n"
    by (rule mod_mult2_eq)
  with Suc len show ?case
    by (simp add: be_digits_simps unsigned_of_nat take_bit_eq_mod mult.commute)
qed

lemma to_be_bytes_digits: "to_be_bytes n w = be_digits n (unat w)"
proof -
  have "(ucast (drop_bit (8 * i) w) :: u8) = word_of_nat (unat w div 256 ^ i)" for i
  proof -
    have "(ucast (drop_bit (8 * i) w) :: u8) = word_of_nat (unat (drop_bit (8 * i) w))"
      by simp
    also have "unat (drop_bit (8 * i) w) = drop_bit (8 * i) (unat w)"
      by (rule unat_drop_bit_eq)
    also have "\<dots> = unat w div 2 ^ (8 * i)"
      by (rule drop_bit_eq_div)
    also have "\<dots> = unat w div 256 ^ i"
      by (simp add: power_mult)
    finally show ?thesis .
  qed
  then show ?thesis by (simp add: to_be_bytes_def be_digits_def)
qed

lemma from_be_bytes_value: "from_be_bytes bs = word_of_nat (be_value bs)"
proof -
  have "foldl (\<lambda>acc b. acc * 256 + ucast b) (word_of_nat a) bs =
      (word_of_nat (foldl (\<lambda>acc b. acc * 256 + unat b) a bs) :: 'a::len word)" for a
  proof (induction bs arbitrary: a)
    case Nil
    then show ?case by simp
  next
    case (Cons b bs)
    from Cons [of "a * 256 + unat b"] show ?case by simp
  qed
  from this [of 0] show ?thesis by (simp add: from_be_bytes_def be_value_foldl)
qed

lemma from_to_be_bytes:
  fixes w :: "'a::len word"
  assumes "2 ^ LENGTH('a) \<le> (256::nat) ^ n"
  shows "from_be_bytes (to_be_bytes n w) = w"
proof -
  have "unat w < 256 ^ n"
    using unsigned_less [of w] assms by (rule less_le_trans)
  then show ?thesis
    by (simp add: from_be_bytes_value to_be_bytes_digits be_value_digits)
qed

lemma to_from_be_bytes:
  assumes "(256::nat) ^ length bs \<le> 2 ^ LENGTH('a::len)"
  shows "to_be_bytes (length bs) (from_be_bytes bs :: 'a word) = bs"
proof -
  have "be_value bs < 2 ^ LENGTH('a)"
    using be_value_less assms by (rule less_le_trans)
  then show ?thesis
    by (simp add: to_be_bytes_digits from_be_bytes_value unat_word_of_nat_less be_digits_value)
qed

lemma from_to_be_u32 [simp, wire_simps]: "from_be_bytes (to_be_bytes 4 w) = (w :: u32)"
  by (rule from_to_be_bytes) simp

lemma from_to_be_u16 [simp, wire_simps]: "from_be_bytes (to_be_bytes 2 w) = (w :: u16)"
  by (rule from_to_be_bytes) simp

lemma to_from_be_u32: "length bs = 4 \<Longrightarrow> to_be_bytes 4 (from_be_bytes bs :: u32) = bs"
  using to_from_be_bytes [of bs, where 'a = 32] by simp

lemma to_from_be_u16: "length bs = 2 \<Longrightarrow> to_be_bytes 2 (from_be_bytes bs :: u16) = bs"
  using to_from_be_bytes [of bs, where 'a = 16] by simp

section \<open>Paths and I/O errors (standard library)\<close>

text \<open>
  A path is its bytes. \<open>PathBuf::push\<close>, and so \<open>join\<close>: an absolute right side replaces the left
  one, and no separator is added behind an empty path or behind a separator.
\<close>

definition path_join :: "string \<Rightarrow> string \<Rightarrow> string" where
  "path_join dir name =
     (if take 1 name = ''/'' then name
      else if dir = [] \<or> last dir = CHR ''/'' then dir @ name
      else dir @ ''/'' @ name)"

text \<open>
  \<open>Path::parent\<close> of a path without \<open>.\<close> components: \<open>None\<close> for the root and the empty path,
  otherwise what is before the last component, trailing separators apart.
\<close>

definition strip_slashes :: "string \<Rightarrow> string" where
  "strip_slashes p = rev (dropWhile (\<lambda>c. c = CHR ''/'') (rev p))"

definition path_parent :: "string \<Rightarrow> string option" where
  "path_parent p =
     (let body = strip_slashes p in
      if body = [] then None
      else let before = rev (dropWhile (\<lambda>c. c \<noteq> CHR ''/'') (rev body)) in
           Some (if before \<noteq> [] \<and> strip_slashes before = [] then ''/'' else strip_slashes before))"

datatype io_error_kind = Kind_NotFound | Kind_PermissionDenied | Kind_AlreadyExists | Kind_Other

datatype io_error = IoError (io_kind: io_error_kind) (io_message: string)

end
