(* ===== verification/Core_Types.thy ===== *)
theory Core_Types
  imports Uat_Prelude
begin

text \<open>
  The pure data model of src/crates/uat-core/src: error.rs, node_id.rs, codes.rs, outcome.rs,
  types.rs and message.rs, with the constants of lib.rs and codec.rs. A Rust \<open>String\<close> is the
  list of its UTF-8 bytes (\<open>string\<close>), so \<open>length\<close> is Rust's \<open>len()\<close>. The base64 engine is a
  third-party crate and stays a parameter (\<open>b64\<close>) of the credential constructors.
\<close>

section \<open>Constants\<close>

definition MAX_DEADLINE_MS :: u32 where "MAX_DEADLINE_MS = 600000"
definition MAX_CONTENT_TYPE_LEN :: nat where "MAX_CONTENT_TYPE_LEN = 64"
definition MAX_CREDENTIAL_DECODED_LEN :: nat where "MAX_CREDENTIAL_DECODED_LEN = 2048"
definition GRACE_MS :: u64 where "GRACE_MS = 5000"
definition QUIC_IDLE_TIMEOUT_MS :: u64 where "QUIC_IDLE_TIMEOUT_MS = 10000"
definition QUIC_KEEP_ALIVE_MS :: u64 where "QUIC_KEEP_ALIVE_MS = 3000"

section \<open>Errors of the wire newtypes\<close>

datatype type_error =
    TaskIdBadHex
  | DeadlineTooLarge u32 u32
  | ContentTypeTooLong nat nat
  | CredentialBadEncoding
  | CredentialTooLong nat nat

section \<open>Node identity\<close>

text \<open>\<open>[u8; 32]\<close> is a byte list; \<open>node_id_wf\<close> is the length the Rust type enforces.\<close>

datatype node_id = NodeId bytes

definition NodeId_from_bytes :: "bytes \<Rightarrow> node_id" where
  "NodeId_from_bytes b = NodeId b"

fun NodeId_as_bytes :: "node_id \<Rightarrow> bytes" where
  "NodeId_as_bytes (NodeId b) = b"

definition node_id_wf :: "node_id \<Rightarrow> bool" where
  "node_id_wf n \<longleftrightarrow> length (NodeId_as_bytes n) = 32"

section \<open>Failure codes, close codes, outcomes\<close>

datatype failure_code =
    FailureCode_Unauthorized
  | FailureCode_Rejected
  | FailureCode_DeadlineExceeded
  | FailureCode_HandlerError

datatype close_code =
    CloseCode_Normal
  | CloseCode_RateLimited
  | CloseCode_FrameTooLarge
  | CloseCode_MalformedFrame
  | CloseCode_ProtocolViolation
  | CloseCode_Timeout

definition CloseCode_from_u32 :: "u32 \<Rightarrow> close_code option" where
  "CloseCode_from_u32 code =
     (if code = 0 then Some CloseCode_Normal
      else if code = 1 then Some CloseCode_RateLimited
      else if code = 2 then Some CloseCode_FrameTooLarge
      else if code = 3 then Some CloseCode_MalformedFrame
      else if code = 4 then Some CloseCode_ProtocolViolation
      else if code = 5 then Some CloseCode_Timeout
      else None)"

fun CloseCode_as_u32 :: "close_code \<Rightarrow> u32" where
  "CloseCode_as_u32 CloseCode_Normal = 0"
| "CloseCode_as_u32 CloseCode_RateLimited = 1"
| "CloseCode_as_u32 CloseCode_FrameTooLarge = 2"
| "CloseCode_as_u32 CloseCode_MalformedFrame = 3"
| "CloseCode_as_u32 CloseCode_ProtocolViolation = 4"
| "CloseCode_as_u32 CloseCode_Timeout = 5"

datatype outcome =
    Outcome_Completed
  | Outcome_Failed failure_code
  | Outcome_Canceled
  | Outcome_Closed close_code
  | Outcome_PeerLost

text \<open>Both code enums are finite, so quantifiers over them evaluate.\<close>

instantiation failure_code :: enum
begin

definition enum_failure_code :: "failure_code list" where
  "enum_failure_code = [FailureCode_Unauthorized, FailureCode_Rejected,
     FailureCode_DeadlineExceeded, FailureCode_HandlerError]"

definition enum_all_failure_code :: "(failure_code \<Rightarrow> bool) \<Rightarrow> bool" where
  "enum_all_failure_code P \<longleftrightarrow> P FailureCode_Unauthorized \<and> P FailureCode_Rejected \<and>
     P FailureCode_DeadlineExceeded \<and> P FailureCode_HandlerError"

definition enum_ex_failure_code :: "(failure_code \<Rightarrow> bool) \<Rightarrow> bool" where
  "enum_ex_failure_code P \<longleftrightarrow> P FailureCode_Unauthorized \<or> P FailureCode_Rejected \<or>
     P FailureCode_DeadlineExceeded \<or> P FailureCode_HandlerError"

instance
proof
  show univ: "(UNIV :: failure_code set) = set enum_class.enum"
    unfolding enum_failure_code_def by (auto intro: failure_code.exhaust)
  show "distinct (enum_class.enum :: failure_code list)"
    by (simp add: enum_failure_code_def)
  show "enum_class.enum_all P \<longleftrightarrow> Ball UNIV P" for P :: "failure_code \<Rightarrow> bool"
    unfolding enum_all_failure_code_def univ enum_failure_code_def by simp
  show "enum_class.enum_ex P \<longleftrightarrow> Bex UNIV P" for P :: "failure_code \<Rightarrow> bool"
    unfolding enum_ex_failure_code_def univ enum_failure_code_def by simp
qed

end

instantiation close_code :: enum
begin

definition enum_close_code :: "close_code list" where
  "enum_close_code = [CloseCode_Normal, CloseCode_RateLimited, CloseCode_FrameTooLarge,
     CloseCode_MalformedFrame, CloseCode_ProtocolViolation, CloseCode_Timeout]"

definition enum_all_close_code :: "(close_code \<Rightarrow> bool) \<Rightarrow> bool" where
  "enum_all_close_code P \<longleftrightarrow> P CloseCode_Normal \<and> P CloseCode_RateLimited \<and>
     P CloseCode_FrameTooLarge \<and> P CloseCode_MalformedFrame \<and>
     P CloseCode_ProtocolViolation \<and> P CloseCode_Timeout"

definition enum_ex_close_code :: "(close_code \<Rightarrow> bool) \<Rightarrow> bool" where
  "enum_ex_close_code P \<longleftrightarrow> P CloseCode_Normal \<or> P CloseCode_RateLimited \<or>
     P CloseCode_FrameTooLarge \<or> P CloseCode_MalformedFrame \<or>
     P CloseCode_ProtocolViolation \<or> P CloseCode_Timeout"

instance
proof
  show univ: "(UNIV :: close_code set) = set enum_class.enum"
    unfolding enum_close_code_def by (auto intro: close_code.exhaust)
  show "distinct (enum_class.enum :: close_code list)"
    by (simp add: enum_close_code_def)
  show "enum_class.enum_all P \<longleftrightarrow> Ball UNIV P" for P :: "close_code \<Rightarrow> bool"
    unfolding enum_all_close_code_def univ enum_close_code_def by simp
  show "enum_class.enum_ex P \<longleftrightarrow> Bex UNIV P" for P :: "close_code \<Rightarrow> bool"
    unfolding enum_ex_close_code_def univ enum_close_code_def by simp
qed

end

section \<open>Wire newtypes\<close>

datatype task_id = TaskId u128
datatype deadline = Deadline u32
datatype content_type = ContentType string
datatype credential = Credential string

fun TaskId_as_u128 :: "task_id \<Rightarrow> u128" where "TaskId_as_u128 (TaskId v) = v"
fun Deadline_as_u32 :: "deadline \<Rightarrow> u32" where "Deadline_as_u32 (Deadline ms) = ms"
fun ContentType_as_str :: "content_type \<Rightarrow> string" where "ContentType_as_str (ContentType s) = s"
fun Credential_as_str :: "credential \<Rightarrow> string" where "Credential_as_str (Credential s) = s"

definition TaskId_from_u128 :: "u128 \<Rightarrow> task_id" where
  "TaskId_from_u128 v = TaskId v"

subsection \<open>Hexadecimal (standard library)\<close>

text \<open>The value of an ASCII hex digit, as \<open>char::to_digit(16)\<close> and \<open>is_ascii_hexdigit\<close> read it.\<close>

definition hex_val :: "char \<Rightarrow> nat option" where
  "hex_val c = (let n = of_char c :: nat in
     if 48 \<le> n \<and> n \<le> 57 then Some (n - 48)
     else if 97 \<le> n \<and> n \<le> 102 then Some (n - 87)
     else if 65 \<le> n \<and> n \<le> 70 then Some (n - 55)
     else None)"

definition is_ascii_hexdigit :: "char \<Rightarrow> bool" where
  "is_ascii_hexdigit c \<longleftrightarrow> (let n = of_char c :: nat in
     48 \<le> n \<and> n \<le> 57 \<or> 97 \<le> n \<and> n \<le> 102 \<or> 65 \<le> n \<and> n \<le> 70)"

text \<open>\<open>u128::from_str_radix(_, 16)\<close>: an optional plus sign, then digits with checked arithmetic.\<close>

fun radix16_digits :: "nat \<Rightarrow> string \<Rightarrow> u128 option" where
  "radix16_digits acc [] = Some (word_of_nat acc)"
| "radix16_digits acc (c # cs) =
     (case hex_val c of
        None \<Rightarrow> None
      | Some d \<Rightarrow> if acc * 16 + d < 2 ^ 128 then radix16_digits (acc * 16 + d) cs else None)"

definition u128_from_str_radix16 :: "string \<Rightarrow> u128 option" where
  "u128_from_str_radix16 s =
     (case s of
        [] \<Rightarrow> None
      | c # cs \<Rightarrow>
          if c = CHR ''+'' then (if cs = [] then None else radix16_digits 0 cs)
          else radix16_digits 0 s)"

text \<open>\<open>format!("{:032x}", n)\<close>: lower-case digits, padded with zeros to width 32.\<close>

definition hex_digit :: "nat \<Rightarrow> char" where
  "hex_digit d = (if d < 10 then char_of (48 + d) else char_of (87 + d))"

fun hex_digits :: "nat \<Rightarrow> string" where
  "hex_digits n = (if n < 16 then [hex_digit n] else hex_digits (n div 16) @ [hex_digit (n mod 16)])"

declare hex_digits.simps [simp del]

definition format_032x :: "nat \<Rightarrow> string" where
  "format_032x n = replicate (32 - length (hex_digits n)) (CHR ''0'') @ hex_digits n"

subsection \<open>Constructors\<close>

definition TaskId_from_hex :: "string \<Rightarrow> (task_id, type_error) result" where
  "TaskId_from_hex s =
     (if length s \<noteq> 32 then Err TaskIdBadHex
      else if \<not> list_all is_ascii_hexdigit s then Err TaskIdBadHex
      else case u128_from_str_radix16 s of
             Some v \<Rightarrow> Ok (TaskId v)
           | None \<Rightarrow> Err TaskIdBadHex)"

fun TaskId_to_hex :: "task_id \<Rightarrow> string" where
  "TaskId_to_hex (TaskId v) = format_032x (unat v)"

definition Deadline_new :: "u32 \<Rightarrow> (deadline, type_error) result" where
  "Deadline_new ms =
     (if ms > MAX_DEADLINE_MS then Err (DeadlineTooLarge ms MAX_DEADLINE_MS) else Ok (Deadline ms))"

definition ContentType_new :: "string \<Rightarrow> (content_type, type_error) result" where
  "ContentType_new value =
     (let got = length value in
      if got > MAX_CONTENT_TYPE_LEN then Err (ContentTypeTooLong got MAX_CONTENT_TYPE_LEN)
      else Ok (ContentType value))"

text \<open>\<open>b64\<close> is \<open>URL_SAFE_NO_PAD.decode\<close>; \<open>as_bytes\<close> reads a string as its bytes.\<close>

definition as_bytes :: "string \<Rightarrow> bytes" where
  "as_bytes s = map of_char s"

definition Credential_new ::
  "(bytes \<Rightarrow> bytes option) \<Rightarrow> string \<Rightarrow> (credential, type_error) result" where
  "Credential_new b64 encoded =
     (case b64 (as_bytes encoded) of
        None \<Rightarrow> Err CredentialBadEncoding
      | Some decoded \<Rightarrow>
          (let got = length decoded in
           if got > MAX_CREDENTIAL_DECODED_LEN
           then Err (CredentialTooLong got MAX_CREDENTIAL_DECODED_LEN)
           else Ok (Credential encoded)))"

definition Credential_decode ::
  "(bytes \<Rightarrow> bytes option) \<Rightarrow> credential \<Rightarrow> (bytes, type_error) result" where
  "Credential_decode b64 c =
     (case b64 (as_bytes (Credential_as_str c)) of
        None \<Rightarrow> Err CredentialBadEncoding
      | Some decoded \<Rightarrow> Ok decoded)"

subsection \<open>The decode boundary\<close>

text \<open>
  Every \<open>Deserialize\<close> impl of types.rs reads the raw value with the deserializer (\<open>raw\<close>,
  a third-party result) and passes it through the constructor, with the constructor's error
  turned into the deserializer's by \<open>custom\<close>.
\<close>

definition TaskId_deserialize ::
  "(type_error \<Rightarrow> 'de) \<Rightarrow> (string, 'de) result \<Rightarrow> (task_id, 'de) result" where
  "TaskId_deserialize custom raw = and_then raw (\<lambda>s. map_err custom (TaskId_from_hex s))"

definition Deadline_deserialize ::
  "(type_error \<Rightarrow> 'de) \<Rightarrow> (u32, 'de) result \<Rightarrow> (deadline, 'de) result" where
  "Deadline_deserialize custom raw = and_then raw (\<lambda>ms. map_err custom (Deadline_new ms))"

definition ContentType_deserialize ::
  "(type_error \<Rightarrow> 'de) \<Rightarrow> (string, 'de) result \<Rightarrow> (content_type, 'de) result" where
  "ContentType_deserialize custom raw = and_then raw (\<lambda>s. map_err custom (ContentType_new s))"

definition Credential_deserialize ::
  "(bytes \<Rightarrow> bytes option) \<Rightarrow> (type_error \<Rightarrow> 'de) \<Rightarrow> (string, 'de) result
     \<Rightarrow> (credential, 'de) result" where
  "Credential_deserialize b64 custom raw =
     and_then raw (\<lambda>s. map_err custom (Credential_new b64 s))"

section \<open>Messages\<close>

text \<open>\<open>Message_Submit task deadline content_type credential body\<close> has the fields in source order.\<close>

datatype message =
    Message_Submit task_id deadline content_type "credential option" bytes
  | Message_Accepted
  | Message_Progress
  | Message_NeedInput
  | Message_Input bytes
  | Message_Completed bytes
  | Message_Failed failure_code
  | Message_Cancel
  | Message_Canceled

fun is_Submit :: "message \<Rightarrow> bool" where
  "is_Submit (Message_Submit t d c cr b) = True"
| "is_Submit _ = False"

fun carries_body :: "message \<Rightarrow> bool" where
  "carries_body (Message_Submit t d c cr b) = True"
| "carries_body (Message_Input b) = True"
| "carries_body (Message_Completed b) = True"
| "carries_body _ = False"

text \<open>
  The fields of \<open>Deadline\<close>, \<open>ContentType\<close> and \<open>Credential\<close> are private in the source, so a
  value of those types came out of its constructor. A theorem that relies on it says so with
  \<open>message_wf\<close>.
\<close>

fun deadline_wf :: "deadline \<Rightarrow> bool" where
  "deadline_wf (Deadline ms) = (ms \<le> MAX_DEADLINE_MS)"

fun content_type_wf :: "content_type \<Rightarrow> bool" where
  "content_type_wf (ContentType s) = (length s \<le> MAX_CONTENT_TYPE_LEN)"

fun credential_wf :: "(bytes \<Rightarrow> bytes option) \<Rightarrow> credential \<Rightarrow> bool" where
  "credential_wf b64 (Credential s) = is_ok (Credential_new b64 s)"

fun message_wf :: "(bytes \<Rightarrow> bytes option) \<Rightarrow> message \<Rightarrow> bool" where
  "message_wf b64 (Message_Submit t d c cr b) =
     (deadline_wf d \<and> content_type_wf c \<and> (case cr of None \<Rightarrow> True | Some k \<Rightarrow> credential_wf b64 k))"
| "message_wf b64 _ = True"

text \<open>The submit of the source's own tests, for the witnesses.\<close>

definition sample_submit :: message where
  "sample_submit = Message_Submit (TaskId 1) (Deadline 1000) (ContentType ''text/plain'') None []"

section \<open>Codes\<close>

lemma from_u32_as_u32 [simp]: "CloseCode_from_u32 (CloseCode_as_u32 c) = Some c"
  by (cases c) (simp_all add: CloseCode_from_u32_def)

lemma from_u32_Some: "CloseCode_from_u32 n = Some c \<Longrightarrow> CloseCode_as_u32 c = n"
  by (auto simp: CloseCode_from_u32_def split: if_splits)

text \<open>
  Parsing a QUIC application error code and producing one are mutually inverse:
  \<open>from_u32\<close> accepts a number exactly when it is the code some \<open>CloseCode\<close> puts on the wire,
  it returns that code, and it refuses every number above 5.
\<close>

theorem close_code_wire_bijection:
  "(CloseCode_from_u32 n = Some c \<longleftrightarrow> CloseCode_as_u32 c = n) \<and>
   (CloseCode_from_u32 n = None \<longleftrightarrow> 5 < n)"
proof
  show "CloseCode_from_u32 n = Some c \<longleftrightarrow> CloseCode_as_u32 c = n"
    using from_u32_Some from_u32_as_u32 by blast
  have small: "n = 0 \<or> n = 1 \<or> n = 2 \<or> n = 3 \<or> n = 4 \<or> n = 5" if "\<not> 5 < n"
  proof -
    from that have "unat n \<le> 5" by (simp add: word_less_nat_alt)
    then show ?thesis by (simp add: word_unat_eq_iff) arith
  qed
  show "CloseCode_from_u32 n = None \<longleftrightarrow> 5 < n"
  proof
    assume "CloseCode_from_u32 n = None"
    then show "5 < n" by (rule contrapos_pp) (use small in \<open>auto simp: CloseCode_from_u32_def\<close>)
  next
    assume "5 < n"
    then show "CloseCode_from_u32 n = None"
      by (auto simp: CloseCode_from_u32_def word_less_nat_alt)
  qed
qed

section \<open>Task identifiers\<close>

lemma hex_val_digit: "d < 16 \<Longrightarrow> hex_val (hex_digit d) = Some d"
  by (simp add: hex_val_def hex_digit_def Let_def)

lemma hex_val_less: "hex_val c = Some d \<Longrightarrow> d < 16"
  by (auto simp: hex_val_def Let_def split: if_splits)

lemma is_ascii_hexdigit_iff: "is_ascii_hexdigit c \<longleftrightarrow> (\<exists>d. hex_val c = Some d)"
  by (auto simp: hex_val_def is_ascii_hexdigit_def Let_def)

text \<open>The number a string of hex digits denotes, and its fixed-width lower-case rendering.\<close>

definition hex_number :: "nat \<Rightarrow> string \<Rightarrow> nat" where
  "hex_number acc s = foldl (\<lambda>a c. a * 16 + the (hex_val c)) acc s"

fun hex_fixed :: "nat \<Rightarrow> nat \<Rightarrow> string" where
  "hex_fixed 0 n = []"
| "hex_fixed (Suc k) n = hex_fixed k (n div 16) @ [hex_digit (n mod 16)]"

definition to_ascii_lowercase :: "char \<Rightarrow> char" where
  "to_ascii_lowercase c = (let n = of_char c :: nat in
     if 65 \<le> n \<and> n \<le> 90 then char_of (n + 32) else c)"

lemma hex_digit_of_val: "hex_val c = Some d \<Longrightarrow> hex_digit d = to_ascii_lowercase c"
  by (auto simp: hex_val_def hex_digit_def to_ascii_lowercase_def Let_def split: if_splits)

lemma hex_number_simps [simp]:
  "hex_number acc [] = acc"
  "hex_number acc (c # s) = hex_number (acc * 16 + the (hex_val c)) s"
  "hex_number acc (s @ [c]) = hex_number acc s * 16 + the (hex_val c)"
  by (simp_all add: hex_number_def)

lemma length_hex_fixed [simp]: "length (hex_fixed k n) = k"
  by (induction k arbitrary: n) simp_all

lemma hex_fixed_hexdigits: "list_all is_ascii_hexdigit (hex_fixed k n)"
  by (induction k arbitrary: n) (simp_all add: is_ascii_hexdigit_iff hex_val_digit)

lemma hex_number_fixed: "hex_number 0 (hex_fixed k n) = n mod 16 ^ k"
proof (induction k arbitrary: n)
  case 0
  then show ?case by simp
next
  case (Suc k)
  have "n mod (16 * 16 ^ k) = 16 * (n div 16 mod 16 ^ k) + n mod 16"
    by (rule mod_mult2_eq)
  with Suc show ?case by (simp add: hex_val_digit mult.commute)
qed

lemma hex_fixed_number:
  "list_all is_ascii_hexdigit s \<Longrightarrow>
     hex_fixed (length s) (hex_number 0 s) = map to_ascii_lowercase s"
proof (induction s rule: rev_induct)
  case Nil
  then show ?case by simp
next
  case (snoc c s)
  then obtain d where d: "hex_val c = Some d" by (auto simp: is_ascii_hexdigit_iff)
  with snoc hex_val_less [OF d] show ?case by (simp add: hex_digit_of_val)
qed

lemma hex_number_bound:
  "list_all is_ascii_hexdigit s \<Longrightarrow> hex_number acc s < (acc + 1) * 16 ^ length s"
proof (induction s arbitrary: acc)
  case Nil
  then show ?case by simp
next
  case (Cons c s)
  then obtain d where d: "hex_val c = Some d" by (auto simp: is_ascii_hexdigit_iff)
  have "hex_number acc (c # s) < (acc * 16 + d + 1) * 16 ^ length s"
    using Cons d by simp
  also have "\<dots> \<le> ((acc + 1) * 16) * 16 ^ length s"
    using hex_val_less [OF d] by (intro mult_right_mono) simp_all
  finally show ?case by (simp add: algebra_simps)
qed

lemma radix16_digits_number:
  "list_all is_ascii_hexdigit s \<Longrightarrow> (acc + 1) * 16 ^ length s \<le> 2 ^ 128 \<Longrightarrow>
     radix16_digits acc s = Some (word_of_nat (hex_number acc s))"
proof (induction s arbitrary: acc)
  case Nil
  then show ?case by simp
next
  case (Cons c s)
  then obtain d where d: "hex_val c = Some d" by (auto simp: is_ascii_hexdigit_iff)
  have step: "acc * 16 + d + 1 \<le> (acc + 1) * 16"
    using hex_val_less [OF d] by simp
  then have "(acc * 16 + d + 1) * 16 ^ length s \<le> ((acc + 1) * 16) * 16 ^ length s"
    by (rule mult_right_mono) simp
  also have "\<dots> \<le> 2 ^ 128"
    using Cons.prems by (simp add: algebra_simps)
  finally have bound: "(acc * 16 + d + 1) * 16 ^ length s \<le> 2 ^ 128" .
  moreover have "(acc * 16 + d + 1) * 1 \<le> (acc * 16 + d + 1) * 16 ^ length s"
    by (rule mult_left_mono) simp_all
  ultimately have "acc * 16 + d < 2 ^ 128" by simp
  with Cons d bound show ?case by simp
qed

lemma hex_fixed_0: "hex_fixed k 0 = replicate k (CHR ''0'')"
  by (induction k) (simp_all add: replicate_append_same hex_digit_def char_of_def bit_iff_odd)

lemma pad_hex_digits:
  "n < 16 ^ k \<Longrightarrow> 0 < k \<Longrightarrow>
     replicate (k - length (hex_digits n)) (CHR ''0'') @ hex_digits n = hex_fixed k n"
proof (induction k arbitrary: n)
  case 0
  then show ?case by simp
next
  case (Suc k)
  show ?case
  proof (cases "n < 16")
    case True
    then show ?thesis by (simp add: hex_digits.simps [of n] hex_fixed_0)
  next
    case False
    then have "0 < k" using Suc.prems by (cases k) simp_all
    moreover have "n div 16 < 16 ^ k" using Suc.prems by (simp add: less_mult_imp_div_less mult.commute)
    ultimately have
      "replicate (k - length (hex_digits (n div 16))) (CHR ''0'') @ hex_digits (n div 16)
         = hex_fixed k (n div 16)"
      by (intro Suc.IH)
    with False show ?thesis by (simp add: hex_digits.simps [of n] flip: append_assoc)
  qed
qed

lemma to_hex_fixed: "TaskId_to_hex (TaskId v) = hex_fixed 32 (unat v)"
proof -
  have "unat v < 16 ^ 32" using unsigned_less [of v] by simp
  then show ?thesis by (simp add: format_032x_def pad_hex_digits)
qed

lemma from_hex_number:
  assumes "length s = 32" and "list_all is_ascii_hexdigit s"
  shows "TaskId_from_hex s = Ok (TaskId (word_of_nat (hex_number 0 s)))"
proof -
  from assms obtain c cs where s: "s = c # cs" by (cases s) auto
  with assms(2) have "c \<noteq> CHR ''+''" by (auto simp: is_ascii_hexdigit_def)
  moreover have "radix16_digits 0 s = Some (word_of_nat (hex_number 0 s))"
    using assms by (intro radix16_digits_number) simp_all
  ultimately have "u128_from_str_radix16 s = Some (word_of_nat (hex_number 0 s))"
    using s by (simp add: u128_from_str_radix16_def)
  with assms show ?thesis by (simp add: TaskId_from_hex_def)
qed

lemma from_hex_Ok_iff:
  "(\<exists>t. TaskId_from_hex s = Ok t) \<longleftrightarrow> length s = 32 \<and> list_all is_ascii_hexdigit s"
  using from_hex_number [of s] by (auto simp: TaskId_from_hex_def)

text \<open>
  A task id survives its wire form: \<open>to_hex\<close> produces exactly 32 characters, all of them
  hex digits, and \<open>from_hex\<close> reads back the same 128-bit value, for every value.
\<close>

theorem task_id_hex_roundtrip:
  "TaskId_from_hex (TaskId_to_hex t) = Ok t \<and> length (TaskId_to_hex t) = 32 \<and>
   list_all is_ascii_hexdigit (TaskId_to_hex t)"
proof (cases t)
  case (TaskId v)
  have "unat v < 16 ^ 32" using unsigned_less [of v] by simp
  then show ?thesis
    unfolding TaskId to_hex_fixed
    by (simp add: from_hex_number hex_fixed_hexdigits hex_number_fixed)
qed

text \<open>
  \<open>from_hex\<close> accepts exactly the strings of 32 hex digits (the 128-bit parse never
  overflows on them) and rejects every other string with \<open>TaskIdBadHex\<close>; what it accepts it
  renders back as the same string in lower case, so two accepted strings name the same task
  exactly when they differ in case only.
\<close>

theorem task_id_from_hex_canonical:
  "TaskId_from_hex s =
     (if length s = 32 \<and> list_all is_ascii_hexdigit s
      then Ok (TaskId (word_of_nat (hex_number 0 s))) else Err TaskIdBadHex) \<and>
   (TaskId_from_hex s = Ok t \<longrightarrow> TaskId_to_hex t = map to_ascii_lowercase s)"
proof
  show eq: "TaskId_from_hex s =
     (if length s = 32 \<and> list_all is_ascii_hexdigit s
      then Ok (TaskId (word_of_nat (hex_number 0 s))) else Err TaskIdBadHex)"
    using from_hex_number [of s] by (auto simp: TaskId_from_hex_def)
  show "TaskId_from_hex s = Ok t \<longrightarrow> TaskId_to_hex t = map to_ascii_lowercase s"
  proof
    assume "TaskId_from_hex s = Ok t"
    with eq have s: "length s = 32" "list_all is_ascii_hexdigit s"
      and t: "t = TaskId (word_of_nat (hex_number 0 s))"
      by (auto split: if_splits)
    have "hex_number 0 s < 2 ^ 128" using hex_number_bound [of s 0] s by simp
    then have "TaskId_to_hex t = hex_fixed 32 (hex_number 0 s)"
      unfolding t to_hex_fixed by (simp add: unat_word_of_nat_less)
    then show "TaskId_to_hex t = map to_ascii_lowercase s"
      using hex_fixed_number [OF s(2)] s(1) by simp
  qed
qed

theorem task_id_from_hex_canonical_witness:
  "TaskId_to_hex (TaskId 0xAB) = ''000000000000000000000000000000ab''"
  using task_id_from_hex_canonical [of "''000000000000000000000000000000AB''" "TaskId 0xAB"]
  by (simp add: is_ascii_hexdigit_def hex_val_def to_ascii_lowercase_def char_of_def bit_iff_odd)

section \<open>The newtypes reject at the boundary\<close>

lemma Deadline_new_Ok_iff:
  "Deadline_new ms = Ok d \<longleftrightarrow> d = Deadline ms \<and> ms \<le> MAX_DEADLINE_MS"
  by (auto simp: Deadline_new_def)

lemma ContentType_new_Ok_iff:
  "ContentType_new s = Ok c \<longleftrightarrow> c = ContentType s \<and> length s \<le> MAX_CONTENT_TYPE_LEN"
  by (auto simp: ContentType_new_def Let_def)

lemma Credential_new_Ok_iff:
  "Credential_new b64 s = Ok c \<longleftrightarrow> c = Credential s \<and>
     (\<exists>raw. b64 (as_bytes s) = Some raw \<and> length raw \<le> MAX_CREDENTIAL_DECODED_LEN)"
  by (auto simp: Credential_new_def Let_def split: option.splits)

text \<open>
  C40: Deserialisation of the bounded newtypes accepts a value exactly when the deserializer
  produced that raw value and it respects the protocol bound: a deadline of at most 600000 ms,
  a content type of at most 64 bytes, a credential whose base64url text decodes to at most
  2048 bytes (so \<open>Credential::decode\<close> never fails on a credential that exists).
\<close>

theorem newtype_boundary:
  "(Deadline_deserialize custom rd = Ok d \<longleftrightarrow>
      rd = Ok (Deadline_as_u32 d) \<and> Deadline_as_u32 d \<le> 600000) \<and>
   (ContentType_deserialize custom rc = Ok c \<longleftrightarrow>
      rc = Ok (ContentType_as_str c) \<and> length (ContentType_as_str c) \<le> 64) \<and>
   (Credential_deserialize b64 custom rk = Ok k \<longleftrightarrow>
      rk = Ok (Credential_as_str k) \<and>
      (\<exists>raw. Credential_decode b64 k = Ok raw \<and> length raw \<le> 2048))"
proof (intro conjI)
  show "Deadline_deserialize custom rd = Ok d \<longleftrightarrow>
      rd = Ok (Deadline_as_u32 d) \<and> Deadline_as_u32 d \<le> 600000"
    by (cases d) (auto simp: Deadline_deserialize_def and_then_Ok_iff Deadline_new_Ok_iff
        MAX_DEADLINE_MS_def)
  show "ContentType_deserialize custom rc = Ok c \<longleftrightarrow>
      rc = Ok (ContentType_as_str c) \<and> length (ContentType_as_str c) \<le> 64"
    by (cases c) (auto simp: ContentType_deserialize_def and_then_Ok_iff ContentType_new_Ok_iff
        MAX_CONTENT_TYPE_LEN_def)
  show "Credential_deserialize b64 custom rk = Ok k \<longleftrightarrow>
      rk = Ok (Credential_as_str k) \<and>
      (\<exists>raw. Credential_decode b64 k = Ok raw \<and> length raw \<le> 2048)"
    by (cases k) (auto simp: Credential_deserialize_def and_then_Ok_iff Credential_new_Ok_iff
        Credential_decode_def MAX_CREDENTIAL_DECODED_LEN_def split: option.splits)
qed

end
