(* ===== verification/Call_State.thy ===== *)
theory Call_State
  imports Core_Types
begin

text \<open>
  The caller and callee state machines of src/crates/uat-core/src/state.rs. The two \<open>match\<close>
  expressions are translated arm by arm, in source order.
\<close>

section \<open>States, events, steps\<close>

datatype illegal = Illegal

record 's step =
  step_state :: 's
  step_emit :: "message option"

definition Step_go :: "'s \<Rightarrow> 's step" where
  "Step_go s = \<lparr>step_state = s, step_emit = None\<rparr>"

definition Step_emit :: "'s \<Rightarrow> message \<Rightarrow> 's step" where
  "Step_emit s m = \<lparr>step_state = s, step_emit = Some m\<rparr>"

lemma Step_simps [simp]:
  "step_state (Step_go s) = s" "step_emit (Step_go s) = None"
  "step_state (Step_emit s m) = s" "step_emit (Step_emit s m) = Some m"
  by (simp_all add: Step_go_def Step_emit_def)

datatype caller_state =
    Caller_Dialing
  | Caller_Submitted
  | Caller_Working
  | Caller_AwaitingInput
  | Caller_Canceling
  | Caller_Terminal outcome

fun caller_is_terminal :: "caller_state \<Rightarrow> bool" where
  "caller_is_terminal (Caller_Terminal out) = True"
| "caller_is_terminal _ = False"

datatype caller_event =
    Caller_Send message
  | Caller_Recv message
  | Caller_Timeout
  | Caller_ConnLost close_code

datatype callee_state =
    Callee_Offered
  | Callee_Working
  | Callee_NeedInputSent
  | Callee_Terminal outcome

fun callee_is_terminal :: "callee_state \<Rightarrow> bool" where
  "callee_is_terminal (Callee_Terminal out) = True"
| "callee_is_terminal _ = False"

datatype callee_event =
    Callee_Send message
  | Callee_Recv message
  | Callee_Timeout
  | Callee_ConnLost close_code

section \<open>The caller table\<close>

definition conn_lost_outcome_caller :: "close_code \<Rightarrow> caller_state" where
  "conn_lost_outcome_caller code =
     (if code = CloseCode_Normal then Caller_Terminal Outcome_PeerLost
      else Caller_Terminal (Outcome_Closed code))"

definition caller_step :: "caller_state \<Rightarrow> caller_event \<Rightarrow> (caller_state step, illegal) result" where
  "caller_step state event =
     (if caller_is_terminal state then Err Illegal
      else case (state, event) of
        (Caller_Dialing, Caller_Send (Message_Submit _ _ _ _ _)) \<Rightarrow> Ok (Step_go Caller_Submitted)
      | (Caller_Submitted, Caller_Recv Message_Accepted) \<Rightarrow> Ok (Step_go Caller_Working)
      | (Caller_Submitted, Caller_Recv (Message_Failed code)) \<Rightarrow>
          Ok (Step_go (Caller_Terminal (Outcome_Failed code)))
      | (Caller_Submitted, Caller_Send Message_Cancel) \<Rightarrow> Ok (Step_go Caller_Canceling)
      | (Caller_Working, Caller_Recv Message_Progress) \<Rightarrow> Ok (Step_go Caller_Working)
      | (Caller_Working, Caller_Recv Message_NeedInput) \<Rightarrow> Ok (Step_go Caller_AwaitingInput)
      | (Caller_Working, Caller_Recv (Message_Completed _)) \<Rightarrow>
          Ok (Step_go (Caller_Terminal Outcome_Completed))
      | (Caller_Working, Caller_Recv (Message_Failed code)) \<Rightarrow>
          Ok (Step_go (Caller_Terminal (Outcome_Failed code)))
      | (Caller_Working, Caller_Send Message_Cancel) \<Rightarrow> Ok (Step_go Caller_Canceling)
      | (Caller_AwaitingInput, Caller_Send (Message_Input _)) \<Rightarrow> Ok (Step_go Caller_Working)
      | (Caller_AwaitingInput, Caller_Send Message_Cancel) \<Rightarrow> Ok (Step_go Caller_Canceling)
      | (Caller_AwaitingInput, Caller_Recv (Message_Failed code)) \<Rightarrow>
          Ok (Step_go (Caller_Terminal (Outcome_Failed code)))
      | (Caller_Canceling, Caller_Recv Message_Accepted) \<Rightarrow> Ok (Step_go Caller_Canceling)
      | (Caller_Canceling, Caller_Recv Message_Canceled) \<Rightarrow>
          Ok (Step_go (Caller_Terminal Outcome_Canceled))
      | (Caller_Canceling, Caller_Recv (Message_Completed _)) \<Rightarrow>
          Ok (Step_go (Caller_Terminal Outcome_Completed))
      | (Caller_Canceling, Caller_Recv (Message_Failed code)) \<Rightarrow>
          Ok (Step_go (Caller_Terminal (Outcome_Failed code)))
      | (Caller_Canceling, Caller_Recv Message_Progress) \<Rightarrow> Ok (Step_go Caller_Canceling)
      | (Caller_Canceling, Caller_Recv Message_NeedInput) \<Rightarrow> Ok (Step_go Caller_Canceling)
      | (_, Caller_Timeout) \<Rightarrow> Ok (Step_go (Caller_Terminal (Outcome_Closed CloseCode_Timeout)))
      | (_, Caller_ConnLost code) \<Rightarrow> Ok (Step_go (conn_lost_outcome_caller code))
      | _ \<Rightarrow> Err Illegal)"

section \<open>The callee table\<close>

definition conn_lost_outcome_callee :: "close_code \<Rightarrow> callee_state" where
  "conn_lost_outcome_callee code =
     (if code = CloseCode_Normal then Callee_Terminal Outcome_PeerLost
      else Callee_Terminal (Outcome_Closed code))"

definition callee_step :: "callee_state \<Rightarrow> callee_event \<Rightarrow> (callee_state step, illegal) result" where
  "callee_step state event =
     (if callee_is_terminal state then Err Illegal
      else case (state, event) of
        (Callee_Offered, Callee_Send Message_Accepted) \<Rightarrow> Ok (Step_go Callee_Working)
      | (Callee_Offered, Callee_Send (Message_Failed code)) \<Rightarrow>
          Ok (Step_go (Callee_Terminal (Outcome_Failed code)))
      | (Callee_Offered, Callee_Recv Message_Cancel) \<Rightarrow>
          Ok (Step_emit (Callee_Terminal Outcome_Canceled) Message_Canceled)
      | (Callee_Working, Callee_Send Message_Progress) \<Rightarrow> Ok (Step_go Callee_Working)
      | (Callee_Working, Callee_Send Message_NeedInput) \<Rightarrow> Ok (Step_go Callee_NeedInputSent)
      | (Callee_Working, Callee_Send (Message_Completed _)) \<Rightarrow>
          Ok (Step_go (Callee_Terminal Outcome_Completed))
      | (Callee_Working, Callee_Send (Message_Failed code)) \<Rightarrow>
          (if code = FailureCode_Rejected then Err Illegal
           else Ok (Step_go (Callee_Terminal (Outcome_Failed code))))
      | (Callee_Working, Callee_Recv Message_Cancel) \<Rightarrow>
          Ok (Step_emit (Callee_Terminal Outcome_Canceled) Message_Canceled)
      | (Callee_NeedInputSent, Callee_Recv (Message_Input _)) \<Rightarrow> Ok (Step_go Callee_Working)
      | (Callee_NeedInputSent, Callee_Recv Message_Cancel) \<Rightarrow>
          Ok (Step_emit (Callee_Terminal Outcome_Canceled) Message_Canceled)
      | (Callee_NeedInputSent, Callee_Send (Message_Failed code)) \<Rightarrow>
          (if code = FailureCode_Rejected then Err Illegal
           else Ok (Step_go (Callee_Terminal (Outcome_Failed code))))
      | (_, Callee_Timeout) \<Rightarrow>
          Ok (Step_emit (Callee_Terminal (Outcome_Failed FailureCode_DeadlineExceeded))
                (Message_Failed FailureCode_DeadlineExceeded))
      | (_, Callee_ConnLost code) \<Rightarrow> Ok (Step_go (conn_lost_outcome_callee code))
      | _ \<Rightarrow> Err Illegal)"

section \<open>Runs\<close>

text \<open>Feeding a list of events, as the drivers of call.rs do; an illegal event stops the run.\<close>

fun caller_run :: "caller_state \<Rightarrow> caller_event list \<Rightarrow> (caller_state, illegal) result" where
  "caller_run s [] = Ok s"
| "caller_run s (e # es) = and_then (caller_step s e) (\<lambda>st. caller_run (step_state st) es)"

fun callee_run :: "callee_state \<Rightarrow> callee_event list \<Rightarrow> (callee_state, illegal) result" where
  "callee_run s [] = Ok s"
| "callee_run s (e # es) = and_then (callee_step s e) (\<lambda>st. callee_run (step_state st) es)"

section \<open>Facts about single steps\<close>

lemma caller_terminal_iff: "caller_is_terminal s \<longleftrightarrow> (\<exists>out. s = Caller_Terminal out)"
  by (cases s) simp_all

lemma callee_terminal_iff: "callee_is_terminal s \<longleftrightarrow> (\<exists>out. s = Callee_Terminal out)"
  by (cases s) simp_all

lemma caller_step_terminal [simp, step_simps]: "caller_step (Caller_Terminal out) e = Err Illegal"
  by (simp add: caller_step_def)

lemma callee_step_terminal [simp, step_simps]: "callee_step (Callee_Terminal out) e = Err Illegal"
  by (simp add: callee_step_def)

lemma caller_step_timeout [step_simps]:
  "caller_step s Caller_Timeout =
     (if caller_is_terminal s then Err Illegal
      else Ok (Step_go (Caller_Terminal (Outcome_Closed CloseCode_Timeout))))"
  by (cases s) (simp_all add: caller_step_def)

lemma caller_step_conn_lost [step_simps]:
  "caller_step s (Caller_ConnLost c) =
     (if caller_is_terminal s then Err Illegal else Ok (Step_go (conn_lost_outcome_caller c)))"
  by (cases s) (simp_all add: caller_step_def)

lemma callee_step_timeout [step_simps]:
  "callee_step s Callee_Timeout =
     (if callee_is_terminal s then Err Illegal
      else Ok (Step_emit (Callee_Terminal (Outcome_Failed FailureCode_DeadlineExceeded))
                 (Message_Failed FailureCode_DeadlineExceeded)))"
  by (cases s) (simp_all add: callee_step_def)

lemma callee_step_conn_lost [step_simps]:
  "callee_step s (Callee_ConnLost c) =
     (if callee_is_terminal s then Err Illegal else Ok (Step_go (conn_lost_outcome_callee c)))"
  by (cases s) (simp_all add: callee_step_def)

lemma caller_step_send [step_simps]:
  "caller_step Caller_Dialing (Caller_Send m) =
     (if is_Submit m then Ok (Step_go Caller_Submitted) else Err Illegal)"
  "caller_step Caller_Submitted (Caller_Send m) =
     (if m = Message_Cancel then Ok (Step_go Caller_Canceling) else Err Illegal)"
  "caller_step Caller_Working (Caller_Send m) =
     (if m = Message_Cancel then Ok (Step_go Caller_Canceling) else Err Illegal)"
  "caller_step Caller_Canceling (Caller_Send m) = Err Illegal"
  "caller_step Caller_AwaitingInput (Caller_Send m) =
     (case m of Message_Cancel \<Rightarrow> Ok (Step_go Caller_Canceling)
      | Message_Input _ \<Rightarrow> Ok (Step_go Caller_Working) | _ \<Rightarrow> Err Illegal)"
  by (simp_all add: caller_step_def split: message.split)

lemma caller_step_recv [step_simps]:
  "caller_step Caller_Dialing (Caller_Recv m) = Err Illegal"
  "caller_step Caller_Submitted (Caller_Recv m) =
     (case m of Message_Accepted \<Rightarrow> Ok (Step_go Caller_Working)
      | Message_Failed c \<Rightarrow> Ok (Step_go (Caller_Terminal (Outcome_Failed c))) | _ \<Rightarrow> Err Illegal)"
  "caller_step Caller_Working (Caller_Recv m) =
     (case m of Message_Progress \<Rightarrow> Ok (Step_go Caller_Working)
      | Message_NeedInput \<Rightarrow> Ok (Step_go Caller_AwaitingInput)
      | Message_Completed _ \<Rightarrow> Ok (Step_go (Caller_Terminal Outcome_Completed))
      | Message_Failed c \<Rightarrow> Ok (Step_go (Caller_Terminal (Outcome_Failed c))) | _ \<Rightarrow> Err Illegal)"
  "caller_step Caller_AwaitingInput (Caller_Recv m) =
     (case m of Message_Failed c \<Rightarrow> Ok (Step_go (Caller_Terminal (Outcome_Failed c)))
      | _ \<Rightarrow> Err Illegal)"
  "caller_step Caller_Canceling (Caller_Recv m) =
     (case m of Message_Accepted \<Rightarrow> Ok (Step_go Caller_Canceling)
      | Message_Progress \<Rightarrow> Ok (Step_go Caller_Canceling)
      | Message_NeedInput \<Rightarrow> Ok (Step_go Caller_Canceling)
      | Message_Canceled \<Rightarrow> Ok (Step_go (Caller_Terminal Outcome_Canceled))
      | Message_Completed _ \<Rightarrow> Ok (Step_go (Caller_Terminal Outcome_Completed))
      | Message_Failed c \<Rightarrow> Ok (Step_go (Caller_Terminal (Outcome_Failed c))) | _ \<Rightarrow> Err Illegal)"
  by (simp_all add: caller_step_def split: message.split)

lemma callee_step_send [step_simps]:
  "callee_step Callee_Offered (Callee_Send m) =
     (case m of Message_Accepted \<Rightarrow> Ok (Step_go Callee_Working)
      | Message_Failed c \<Rightarrow> Ok (Step_go (Callee_Terminal (Outcome_Failed c))) | _ \<Rightarrow> Err Illegal)"
  "callee_step Callee_Working (Callee_Send m) =
     (case m of Message_Progress \<Rightarrow> Ok (Step_go Callee_Working)
      | Message_NeedInput \<Rightarrow> Ok (Step_go Callee_NeedInputSent)
      | Message_Completed _ \<Rightarrow> Ok (Step_go (Callee_Terminal Outcome_Completed))
      | Message_Failed c \<Rightarrow> (if c = FailureCode_Rejected then Err Illegal
           else Ok (Step_go (Callee_Terminal (Outcome_Failed c)))) | _ \<Rightarrow> Err Illegal)"
  "callee_step Callee_NeedInputSent (Callee_Send m) =
     (case m of Message_Failed c \<Rightarrow> (if c = FailureCode_Rejected then Err Illegal
           else Ok (Step_go (Callee_Terminal (Outcome_Failed c)))) | _ \<Rightarrow> Err Illegal)"
  by (simp_all add: callee_step_def split: message.split)

lemma callee_step_recv [step_simps]:
  "callee_step Callee_Offered (Callee_Recv m) =
     (if m = Message_Cancel then Ok (Step_emit (Callee_Terminal Outcome_Canceled) Message_Canceled)
      else Err Illegal)"
  "callee_step Callee_Working (Callee_Recv m) =
     (if m = Message_Cancel then Ok (Step_emit (Callee_Terminal Outcome_Canceled) Message_Canceled)
      else Err Illegal)"
  "callee_step Callee_NeedInputSent (Callee_Recv m) =
     (case m of Message_Cancel \<Rightarrow> Ok (Step_emit (Callee_Terminal Outcome_Canceled) Message_Canceled)
      | Message_Input _ \<Rightarrow> Ok (Step_go Callee_Working) | _ \<Rightarrow> Err Illegal)"
  by (simp_all add: callee_step_def split: message.split)

lemma caller_never_emits: "caller_step s e = Ok st \<Longrightarrow> step_emit st = None"
  by (cases s; cases e)
    (auto simp: step_simps split: message.splits if_splits)

lemma callee_send_never_emits: "callee_step s (Callee_Send m) = Ok st \<Longrightarrow> step_emit st = None"
  by (cases s) (auto simp: step_simps split: message.splits if_splits)

section \<open>Termination of a call\<close>

text \<open>
  From every state that is not terminal, the call timer and the loss of the connection are
  legal events of both machines and end the call: the caller closes with \<open>Timeout\<close>, the callee
  fails with \<open>DeadlineExceeded\<close> and sends that failure, a lost connection is \<open>PeerLost\<close> after a
  normal close and \<open>Closed(code)\<close> otherwise, with nothing sent. A terminal state refuses every
  event.
\<close>

theorem timers_and_loss_terminate:
  "(\<not> caller_is_terminal s \<longrightarrow>
      caller_step s Caller_Timeout = Ok (Step_go (Caller_Terminal (Outcome_Closed CloseCode_Timeout))) \<and>
      caller_step s (Caller_ConnLost c) =
        Ok (Step_go (Caller_Terminal
              (if c = CloseCode_Normal then Outcome_PeerLost else Outcome_Closed c)))) \<and>
   (\<not> callee_is_terminal t \<longrightarrow>
      callee_step t Callee_Timeout =
        Ok (Step_emit (Callee_Terminal (Outcome_Failed FailureCode_DeadlineExceeded))
              (Message_Failed FailureCode_DeadlineExceeded)) \<and>
      callee_step t (Callee_ConnLost c) =
        Ok (Step_go (Callee_Terminal
              (if c = CloseCode_Normal then Outcome_PeerLost else Outcome_Closed c)))) \<and>
   (caller_is_terminal s \<longrightarrow> caller_step s e = Err Illegal) \<and>
   (callee_is_terminal t \<longrightarrow> callee_step t f = Err Illegal)"
  by (auto simp: step_simps caller_terminal_iff callee_terminal_iff
      conn_lost_outcome_caller_def conn_lost_outcome_callee_def)

theorem timers_and_loss_terminate_witness:
  "caller_step Caller_AwaitingInput Caller_Timeout =
     Ok (Step_go (Caller_Terminal (Outcome_Closed CloseCode_Timeout))) \<and>
   callee_step Callee_NeedInputSent (Callee_ConnLost CloseCode_Normal) =
     Ok (Step_go (Callee_Terminal Outcome_PeerLost)) \<and>
   caller_step (Caller_Terminal Outcome_Completed) Caller_Timeout = Err Illegal"
  using timers_and_loss_terminate [of Caller_AwaitingInput CloseCode_Normal Callee_NeedInputSent]
    timers_and_loss_terminate
      [of "Caller_Terminal Outcome_Completed" CloseCode_Normal Callee_Offered Caller_Timeout]
  by simp

section \<open>Rejection\<close>

lemma callee_run_not_rejected:
  "s \<noteq> Callee_Offered \<Longrightarrow> s \<noteq> Callee_Terminal (Outcome_Failed FailureCode_Rejected) \<Longrightarrow>
     callee_run s evs \<noteq> Ok (Callee_Terminal (Outcome_Failed FailureCode_Rejected))"
proof (induction evs arbitrary: s)
  case Nil
  then show ?case by simp
next
  case (Cons e evs)
  have "step_state st \<noteq> Callee_Offered \<and>
      step_state st \<noteq> Callee_Terminal (Outcome_Failed FailureCode_Rejected)"
    if "callee_step s e = Ok st" for st
    using that Cons.prems
    by (cases s; cases e)
      (auto simp: step_simps conn_lost_outcome_callee_def split: message.splits if_splits)
  with Cons.IH show ?case by (auto simp: and_then_Ok_iff)
qed

text \<open>
  A callee ends with \<open>Failed(Rejected)\<close> in exactly one way: the harness rejects the offer as
  its very first act. Once \<open>Accepted\<close> has been sent, or anything else has happened, no sequence
  of events leads to that outcome (amendment A1.2.4).
\<close>

theorem rejected_only_from_offered:
  "callee_run Callee_Offered evs = Ok (Callee_Terminal (Outcome_Failed FailureCode_Rejected)) \<longleftrightarrow>
   evs = [Callee_Send (Message_Failed FailureCode_Rejected)]"
proof
  assume run: "callee_run Callee_Offered evs = Ok (Callee_Terminal (Outcome_Failed FailureCode_Rejected))"
  then obtain e es where evs: "evs = e # es" by (cases evs) auto
  with run obtain st where st: "callee_step Callee_Offered e = Ok st"
    and rest: "callee_run (step_state st) es = Ok (Callee_Terminal (Outcome_Failed FailureCode_Rejected))"
    by (auto simp: and_then_Ok_iff)
  from st have "step_state st \<noteq> Callee_Offered"
    by (cases e) (auto simp: step_simps conn_lost_outcome_callee_def split: message.splits if_splits)
  with rest callee_run_not_rejected
  have last: "step_state st = Callee_Terminal (Outcome_Failed FailureCode_Rejected)" by blast
  with rest have "es = []" by (cases es) auto
  moreover from st last have "e = Callee_Send (Message_Failed FailureCode_Rejected)"
    by (cases e) (auto simp: step_simps conn_lost_outcome_callee_def split: message.splits if_splits)
  ultimately show "evs = [Callee_Send (Message_Failed FailureCode_Rejected)]" using evs by simp
qed (simp add: step_simps)

end
