(* ===== verification/Call_Protocol.thy ===== *)
theory Call_Protocol
  imports Call_State
begin

text \<open>
  One call as the code composes it (drive_chan_call of src/crates/uat-node/src/call.rs, and the
  two drivers over a QUIC stream): the caller machine, the callee machine, and one first-in
  first-out queue of messages in each direction. Either side may time out or lose the
  connection at any moment. The callee has no state until it has read the \<open>Submit\<close>.
\<close>

section \<open>The composed system\<close>

record call_config =
  caller_st :: caller_state
  callee_st :: "callee_state option"
  to_callee :: "message list"
  to_caller :: "message list"

definition call_init :: call_config where
  "call_init = \<lparr>caller_st = Caller_Dialing, callee_st = None, to_callee = [], to_caller = []\<rparr>"

definition emitted :: "'s step \<Rightarrow> message list" where
  "emitted st = (case step_emit st of None \<Rightarrow> [] | Some m \<Rightarrow> [m])"

lemma emitted_simps [simp]: "emitted (Step_go s) = []" "emitted (Step_emit s m) = [m]"
  by (simp_all add: emitted_def)

inductive call_step :: "call_config \<Rightarrow> call_config \<Rightarrow> bool" where
  caller_sends:
    "caller_step (caller_st c) (Caller_Send m) = Ok st \<Longrightarrow>
     call_step c (c\<lparr>caller_st := step_state st, to_callee := to_callee c @ [m]\<rparr>)"
| caller_receives:
    "to_caller c = m # q \<Longrightarrow> caller_step (caller_st c) (Caller_Recv m) = Ok st \<Longrightarrow>
     call_step c (c\<lparr>caller_st := step_state st, to_caller := q\<rparr>)"
| caller_times_out:
    "caller_step (caller_st c) Caller_Timeout = Ok st \<Longrightarrow>
     call_step c (c\<lparr>caller_st := step_state st\<rparr>)"
| caller_loses:
    "caller_step (caller_st c) (Caller_ConnLost code) = Ok st \<Longrightarrow>
     call_step c (c\<lparr>caller_st := step_state st\<rparr>)"
| callee_gets_submit:
    "callee_st c = None \<Longrightarrow> to_callee c = m # q \<Longrightarrow> is_Submit m \<Longrightarrow>
     call_step c (c\<lparr>callee_st := Some Callee_Offered, to_callee := q\<rparr>)"
| callee_sends:
    "callee_st c = Some s \<Longrightarrow> callee_step s (Callee_Send m) = Ok st \<Longrightarrow>
     call_step c (c\<lparr>callee_st := Some (step_state st), to_caller := to_caller c @ [m]\<rparr>)"
| callee_receives:
    "callee_st c = Some s \<Longrightarrow> to_callee c = m # q \<Longrightarrow> callee_step s (Callee_Recv m) = Ok st \<Longrightarrow>
     call_step c (c\<lparr>callee_st := Some (step_state st), to_callee := q,
                    to_caller := to_caller c @ emitted st\<rparr>)"
| callee_times_out:
    "callee_st c = Some s \<Longrightarrow> callee_step s Callee_Timeout = Ok st \<Longrightarrow>
     call_step c (c\<lparr>callee_st := Some (step_state st), to_caller := to_caller c @ emitted st\<rparr>)"
| callee_loses:
    "callee_st c = Some s \<Longrightarrow> callee_step s (Callee_ConnLost code) = Ok st \<Longrightarrow>
     call_step c (c\<lparr>callee_st := Some (step_state st)\<rparr>)"

inductive call_reachable :: "call_config \<Rightarrow> bool" where
  start: "call_reachable call_init"
| step: "call_reachable c \<Longrightarrow> call_step c d \<Longrightarrow> call_reachable d"

section \<open>The invariant\<close>

text \<open>
  The caller's view: its state once it has read everything in flight to it. The link ties the
  callee's state, that view and the queue to the callee: which cancel or input is still under
  way.
\<close>

definition caller_view :: "caller_state \<Rightarrow> message list \<Rightarrow> (caller_state, illegal) result" where
  "caller_view s q = caller_run s (map Caller_Recv q)"

fun wire_outcome :: "outcome \<Rightarrow> bool" where
  "wire_outcome Outcome_Completed = True"
| "wire_outcome (Outcome_Failed f) = True"
| "wire_outcome Outcome_Canceled = True"
| "wire_outcome (Outcome_Closed c) = False"
| "wire_outcome Outcome_PeerLost = False"

fun link :: "callee_state option \<Rightarrow> caller_state \<Rightarrow> message list \<Rightarrow> bool" where
  "link None v q \<longleftrightarrow>
     v = Caller_Dialing \<and> q = [] \<or>
     (\<exists>m. is_Submit m \<and> (v = Caller_Submitted \<and> q = [m] \<or>
                          v = Caller_Canceling \<and> q = [m, Message_Cancel]))"
| "link (Some Callee_Offered) v q \<longleftrightarrow>
     v = Caller_Submitted \<and> q = [] \<or> v = Caller_Canceling \<and> q = [Message_Cancel]"
| "link (Some Callee_Working) v q \<longleftrightarrow>
     v = Caller_Working \<and> q = [] \<or> v = Caller_Canceling \<and> q = [Message_Cancel]"
| "link (Some Callee_NeedInputSent) v q \<longleftrightarrow>
     v = Caller_AwaitingInput \<and> q = [] \<or>
     (\<exists>b. v = Caller_Working \<and> q = [Message_Input b]) \<or>
     v = Caller_Canceling \<and> (q = [Message_Cancel] \<or> (\<exists>b. q = [Message_Input b, Message_Cancel]))"
| "link (Some (Callee_Terminal out)) v q \<longleftrightarrow>
     (if wire_outcome out then v = Caller_Terminal out else \<not> caller_is_terminal v)"

definition call_inv :: "call_config \<Rightarrow> bool" where
  "call_inv c \<longleftrightarrow>
     (case caller_st c of
        Caller_Terminal out \<Rightarrow>
          (wire_outcome out \<longrightarrow> callee_st c = Some (Callee_Terminal out)) \<and>
          (\<exists>v. link (callee_st c) v (to_callee c))
      | s \<Rightarrow> (\<exists>v. caller_view s (to_caller c) = Ok v \<and> link (callee_st c) v (to_callee c)))"

lemma call_inv_nonterminal:
  "\<not> caller_is_terminal (caller_st c) \<Longrightarrow>
     call_inv c \<longleftrightarrow>
       (\<exists>v. caller_view (caller_st c) (to_caller c) = Ok v \<and> link (callee_st c) v (to_callee c))"
  by (cases "caller_st c") (simp_all add: call_inv_def)

lemma call_inv_terminal:
  "caller_st c = Caller_Terminal out \<Longrightarrow>
     call_inv c \<longleftrightarrow> (wire_outcome out \<longrightarrow> callee_st c = Some (Callee_Terminal out)) \<and>
       (\<exists>v. link (callee_st c) v (to_callee c))"
  by (simp add: call_inv_def)

lemma caller_view_simps [simp]:
  "caller_view s [] = Ok s"
  "caller_view s (m # q) =
     and_then (caller_step s (Caller_Recv m)) (\<lambda>st. caller_view (step_state st) q)"
  by (simp_all add: caller_view_def)

lemma caller_view_snoc:
  "caller_view s q = Ok v \<Longrightarrow> caller_step v (Caller_Recv m) = Ok st \<Longrightarrow>
     caller_view s (q @ [m]) = Ok (step_state st)"
  by (induction q arbitrary: s) (auto simp: and_then_Ok_iff)

text \<open>A terminal caller reads nothing.\<close>

lemma caller_view_terminal [simp]:
  "caller_view (Caller_Terminal out) q = Ok v \<longleftrightarrow> q = [] \<and> v = Caller_Terminal out"
  by (cases q) auto

text \<open>Requesting a cancel changes nothing in what the caller may still receive.\<close>

lemma caller_view_cancel:
  "caller_view s q = Ok v \<Longrightarrow> s \<in> {Caller_Submitted, Caller_Working, Caller_AwaitingInput} \<Longrightarrow>
     caller_view Caller_Canceling q = Ok (if caller_is_terminal v then v else Caller_Canceling)"
proof (induction q arbitrary: s)
  case Nil
  then show ?case by auto
next
  case (Cons m q)
  then obtain st where st: "caller_step s (Caller_Recv m) = Ok st"
    and rest: "caller_view (step_state st) q = Ok v"
    by (auto simp: and_then_Ok_iff)
  show ?case
    using Cons.prems(2) st rest Cons.IH [OF rest]
    by (cases m) (auto simp: step_simps)
qed

lemma caller_view_forward:
  "caller_view s q = Ok v \<Longrightarrow> s \<in> {Caller_Submitted, Caller_Working, Caller_AwaitingInput} \<Longrightarrow>
     v \<noteq> Caller_Canceling \<and> v \<noteq> Caller_Dialing"
proof (induction q arbitrary: s)
  case Nil
  then show ?case by auto
next
  case (Cons m q)
  then obtain st where st: "caller_step s (Caller_Recv m) = Ok st"
    and rest: "caller_view (step_state st) q = Ok v"
    by (auto simp: and_then_Ok_iff)
  show ?case
    using Cons.prems(2) st rest Cons.IH [OF rest]
    by (cases m) (auto simp: step_simps)
qed

lemma caller_view_awaiting:
  "caller_view Caller_AwaitingInput q = Ok v \<Longrightarrow>
     q = [] \<and> v = Caller_AwaitingInput \<or>
     (\<exists>f. q = [Message_Failed f] \<and> v = Caller_Terminal (Outcome_Failed f))"
  by (cases q) (auto simp: and_then_Ok_iff step_simps split: message.splits)

lemma caller_view_dialing:
  "caller_view Caller_Dialing q = Ok v \<longleftrightarrow> q = [] \<and> v = Caller_Dialing"
  by (cases q) (auto simp: step_simps)

lemma link_terminal_view:
  "link e (Caller_Terminal out) q \<Longrightarrow> wire_outcome out \<Longrightarrow> e = Some (Callee_Terminal out)"
  by (cases "(e, Caller_Terminal out, q)" rule: link.cases) (auto split: if_splits)

section \<open>Every step keeps the invariant\<close>

text \<open>One lemma per kind of step, on the link alone.\<close>

lemma caller_send_link:
  assumes "caller_view s q2 = Ok v" and "link e v q1" and "caller_step s (Caller_Send m) = Ok st"
  shows "\<exists>v'. caller_view (step_state st) q2 = Ok v' \<and> link e v' (q1 @ [m])"
proof -
  have cancel: ?thesis
    if "s \<in> {Caller_Submitted, Caller_Working, Caller_AwaitingInput}"
      and st: "st = Step_go Caller_Canceling" and m: "m = Message_Cancel"
  proof -
    from assms(1) that(1)
    have view: "caller_view Caller_Canceling q2 = Ok (if caller_is_terminal v then v else Caller_Canceling)"
      by (rule caller_view_cancel)
    from assms(1) that(1) have "v \<noteq> Caller_Canceling \<and> v \<noteq> Caller_Dialing"
      by (rule caller_view_forward)
    with assms(2) view st m show ?thesis
      by (cases "(e, v, q1)" rule: link.cases) (auto split: if_splits)
  qed
  show ?thesis
  proof (cases s)
    case Caller_Dialing
    with assms show ?thesis
      by (cases "(e, v, q1)" rule: link.cases)
        (auto simp: step_simps caller_view_dialing split: if_splits)
  next
    case Caller_AwaitingInput
    show ?thesis
    proof (cases "m = Message_Cancel")
      case True
      with Caller_AwaitingInput assms(3) show ?thesis
        by (intro cancel) (auto simp: step_simps)
    next
      case False
      with Caller_AwaitingInput assms(3) obtain b where "m = Message_Input b" "st = Step_go Caller_Working"
        by (auto simp: step_simps split: message.splits)
      with Caller_AwaitingInput assms(1,2) show ?thesis
        by (cases "(e, v, q1)" rule: link.cases)
          (auto dest!: caller_view_awaiting simp: step_simps split: if_splits)
    qed
  next
    case Caller_Submitted
    with assms(3) show ?thesis by (intro cancel) (auto simp: step_simps split: if_splits)
  next
    case Caller_Working
    with assms(3) show ?thesis by (intro cancel) (auto simp: step_simps split: if_splits)
  qed (use assms(3) in \<open>auto simp: step_simps\<close>)
qed

lemma callee_send_link:
  assumes "link (Some s) v q" and "callee_step s (Callee_Send m) = Ok st"
  shows "\<exists>st'. caller_step v (Caller_Recv m) = Ok st' \<and> link (Some (step_state st)) (step_state st') q"
  using assms
  by (cases s) (auto simp: step_simps split: message.splits if_splits)

lemma callee_recv_link:
  assumes "link (Some s) v (m # q)" and "\<not> callee_is_terminal s"
  shows "\<exists>st. callee_step s (Callee_Recv m) = Ok st \<and>
     (step_emit st = None \<and> link (Some (step_state st)) v q \<or>
      (\<exists>n st'. step_emit st = Some n \<and> caller_step v (Caller_Recv n) = Ok st' \<and>
          link (Some (step_state st)) (step_state st') q))"
  using assms by (cases s) (auto simp: step_simps)

lemma callee_timeout_link:
  assumes "link (Some s) v q" and "callee_step s Callee_Timeout = Ok st"
  shows "\<exists>n st'. step_emit st = Some n \<and> caller_step v (Caller_Recv n) = Ok st' \<and>
      link (Some (step_state st)) (step_state st') q"
  using assms by (cases s) (auto simp: step_simps)

lemma callee_loss_link:
  assumes "link (Some s) v q" and "callee_step s (Callee_ConnLost code) = Ok st"
  shows "link (Some (step_state st)) v q"
  using assms by (cases s) (auto simp: step_simps conn_lost_outcome_callee_def)

lemma callee_submit_link:
  assumes "link None v (m # q)"
  shows "is_Submit m \<and> link (Some Callee_Offered) v q"
  using assms by auto

text \<open>A step of the callee alone: the caller's state is untouched, its view moves on.\<close>

lemma call_inv_callee:
  assumes inv: "call_inv c"
    and nonwire: "\<And>out. callee_st c \<noteq> Some (Callee_Terminal out)"
    and link: "\<And>v. link (callee_st c) v (to_callee c) \<Longrightarrow>
        (out = [] \<and> link e' v q') \<or>
        (\<exists>n st'. out = [n] \<and> caller_step v (Caller_Recv n) = Ok st' \<and> link e' (step_state st') q')"
  shows "call_inv (c\<lparr>callee_st := e', to_callee := q', to_caller := to_caller c @ out\<rparr>)"
proof (cases "caller_is_terminal (caller_st c)")
  case True
  then obtain o' where o': "caller_st c = Caller_Terminal o'" by (auto simp: caller_terminal_iff)
  from inv o' nonwire have "\<not> wire_outcome o'" by (auto simp: call_inv_terminal)
  moreover from inv o' obtain v where "link (callee_st c) v (to_callee c)"
    by (auto simp: call_inv_terminal)
  from link [OF this] have "\<exists>v. link e' v q'" by auto
  ultimately show ?thesis using o' by (simp add: call_inv_def)
next
  case False
  with inv obtain v where view: "caller_view (caller_st c) (to_caller c) = Ok v"
    and "link (callee_st c) v (to_callee c)"
    by (auto simp: call_inv_nonterminal)
  from link [OF this(2)] view
  have "\<exists>v. caller_view (caller_st c) (to_caller c @ out) = Ok v \<and> link e' v q'"
    by (auto dest: caller_view_snoc)
  with False show ?thesis by (simp add: call_inv_nonterminal)
qed

lemma caller_ends_inv:
  assumes "call_inv c" and "\<not> caller_is_terminal (caller_st c)" and "\<not> wire_outcome out"
  shows "call_inv (c\<lparr>caller_st := Caller_Terminal out\<rparr>)"
  using assms by (auto simp: call_inv_nonterminal call_inv_terminal)

lemma caller_receive_inv:
  assumes inv: "call_inv c" and q: "to_caller c = m # q"
    and st: "caller_step (caller_st c) (Caller_Recv m) = Ok st"
  shows "call_inv (c\<lparr>caller_st := step_state st, to_caller := q\<rparr>)"
proof -
  from st have "\<not> caller_is_terminal (caller_st c)" by (auto simp: caller_terminal_iff)
  with inv q st obtain v where view: "caller_view (step_state st) q = Ok v"
    and link: "link (callee_st c) v (to_callee c)"
    by (auto simp: call_inv_nonterminal)
  show ?thesis
  proof (cases "caller_is_terminal (step_state st)")
    case True
    then obtain out where out: "step_state st = Caller_Terminal out" by (auto simp: caller_terminal_iff)
    with view have "v = Caller_Terminal out" by simp
    with link out show ?thesis by (auto simp: call_inv_terminal dest: link_terminal_view)
  next
    case False
    with view link show ?thesis by (auto simp: call_inv_nonterminal)
  qed
qed

lemma caller_send_inv:
  assumes inv: "call_inv c" and st: "caller_step (caller_st c) (Caller_Send m) = Ok st"
  shows "call_inv (c\<lparr>caller_st := step_state st, to_callee := to_callee c @ [m]\<rparr>)"
proof -
  from st have nt: "\<not> caller_is_terminal (caller_st c)" by (auto simp: caller_terminal_iff)
  from st have nt': "\<not> caller_is_terminal (step_state st)"
    by (cases "caller_st c") (auto simp: step_simps split: message.splits if_splits)
  from nt inv obtain v where "caller_view (caller_st c) (to_caller c) = Ok v"
    and "link (callee_st c) v (to_callee c)"
    by (auto simp: call_inv_nonterminal)
  from caller_send_link [OF this st] nt' show ?thesis by (simp add: call_inv_nonterminal)
qed

theorem call_step_inv: "call_step c d \<Longrightarrow> call_inv c \<Longrightarrow> call_inv d"
proof (induction rule: call_step.induct)
  case (caller_sends c m st)
  then show ?case by (simp add: caller_send_inv)
next
  case (caller_receives c m q st)
  then show ?case by (simp add: caller_receive_inv)
next
  case (caller_times_out c st)
  then show ?case
    by (auto simp: step_simps split: if_splits intro!: caller_ends_inv)
next
  case (caller_loses c code st)
  then show ?case
    by (auto simp: step_simps conn_lost_outcome_caller_def split: if_splits intro!: caller_ends_inv)
next
  case (callee_gets_submit c m q)
  then show ?case
    using call_inv_callee [of c "[]" "Some Callee_Offered" q] callee_submit_link by auto
next
  case (callee_sends c s m st)
  have "\<exists>st'. caller_step v (Caller_Recv m) = Ok st' \<and>
        link (Some (step_state st)) (step_state st') (to_callee c)"
    if "link (Some s) v (to_callee c)" for v
    using callee_send_link [OF that callee_sends.hyps(2)] .
  moreover have "s \<noteq> Callee_Terminal out" for out
    using callee_sends.hyps(2) by auto
  ultimately show ?case
    using callee_sends call_inv_callee [of c "[m]" "Some (step_state st)" "to_callee c"]
    by auto
next
  case (callee_receives c s m q st)
  then have nt: "\<not> callee_is_terminal s" by (auto simp: callee_terminal_iff)
  have "emitted st = [] \<and> link (Some (step_state st)) v q \<or>
      (\<exists>n st'. emitted st = [n] \<and> caller_step v (Caller_Recv n) = Ok st' \<and>
        link (Some (step_state st)) (step_state st') q)"
    if "link (Some s) v (m # q)" for v
    using callee_recv_link [OF that nt] callee_receives.hyps by (auto simp: emitted_def)
  moreover have "s \<noteq> Callee_Terminal out" for out
    using callee_receives.hyps(3) by auto
  ultimately show ?case
    using callee_receives call_inv_callee [of c "emitted st" "Some (step_state st)" q] by auto
next
  case (callee_times_out c s st)
  have "\<exists>n st'. emitted st = [n] \<and> caller_step v (Caller_Recv n) = Ok st' \<and>
        link (Some (step_state st)) (step_state st') (to_callee c)"
    if "link (Some s) v (to_callee c)" for v
    using callee_timeout_link [OF that callee_times_out.hyps(2)] by (auto simp: emitted_def)
  moreover have "s \<noteq> Callee_Terminal out" for out
    using callee_times_out.hyps(2) by auto
  ultimately show ?case
    using callee_times_out call_inv_callee [of c "emitted st" "Some (step_state st)" "to_callee c"]
    by auto
next
  case (callee_loses c s code st)
  have "link (Some (step_state st)) v (to_callee c)" if "link (Some s) v (to_callee c)" for v
    using callee_loss_link [OF that callee_loses.hyps(2)] .
  moreover have "s \<noteq> Callee_Terminal out" for out
    using callee_loses.hyps(2) by auto
  ultimately show ?case
    using callee_loses call_inv_callee [of c "[]" "Some (step_state st)" "to_callee c"] by auto
qed

lemma call_reachable_inv: "call_reachable c \<Longrightarrow> call_inv c"
proof (induction rule: call_reachable.induct)
  case start
  show ?case by (simp add: call_init_def call_inv_def)
next
  case (step c d)
  then show ?case by (blast intro: call_step_inv)
qed

section \<open>The guarantees of a call\<close>

text \<open>
  C1: The two tables fit together: however the sends, receives, timers and connection losses of
  the two sides interleave, a message that reaches a side that is still in the call is legal
  there. The caller never sees an illegal message, the callee never does, and the first message
  a callee reads is the \<open>Submit\<close>; so two conforming nodes never close with
  \<open>ProtocolViolation\<close>, whatever they cancel or time out.
\<close>

theorem no_illegal_reception:
  assumes "call_reachable c"
  shows "(to_caller c = m # q \<and> \<not> caller_is_terminal (caller_st c) \<longrightarrow>
            is_ok (caller_step (caller_st c) (Caller_Recv m))) \<and>
         (to_callee c = n # r \<and> callee_st c = Some s \<and> \<not> callee_is_terminal s \<longrightarrow>
            is_ok (callee_step s (Callee_Recv n))) \<and>
         (to_callee c = n # r \<and> callee_st c = None \<longrightarrow> is_Submit n)"
proof -
  have inv: "call_inv c" using assms by (rule call_reachable_inv)
  then have link: "\<exists>v. link (callee_st c) v (to_callee c)"
    by (cases "caller_st c") (auto simp: call_inv_def)
  show ?thesis
  proof (intro conjI impI)
    assume "to_caller c = m # q \<and> \<not> caller_is_terminal (caller_st c)"
    with inv show "is_ok (caller_step (caller_st c) (Caller_Recv m))"
      by (auto simp: call_inv_nonterminal and_then_Ok_iff is_ok_iff)
  next
    assume "to_callee c = n # r \<and> callee_st c = Some s \<and> \<not> callee_is_terminal s"
    with link callee_recv_link show "is_ok (callee_step s (Callee_Recv n))"
      by (fastforce simp: is_ok_iff)
  next
    assume "to_callee c = n # r \<and> callee_st c = None"
    with link show "is_Submit n" by auto
  qed
qed

text \<open>A concrete call for the witnesses: submit, accept, complete.\<close>

lemma reachable_submitted:
  "call_reachable \<lparr>caller_st = Caller_Submitted, callee_st = None,
     to_callee = [sample_submit], to_caller = []\<rparr>"
  using call_reachable.step [OF call_reachable.start
      call_step.caller_sends [of call_init sample_submit "Step_go Caller_Submitted"]]
  by (simp add: call_init_def step_simps sample_submit_def)

lemma reachable_offered:
  "call_reachable \<lparr>caller_st = Caller_Submitted, callee_st = Some Callee_Offered,
     to_callee = [], to_caller = []\<rparr>"
  using call_reachable.step [OF reachable_submitted call_step.callee_gets_submit]
  by (simp add: sample_submit_def)

lemma reachable_accepted:
  "call_reachable \<lparr>caller_st = Caller_Submitted, callee_st = Some Callee_Working,
     to_callee = [], to_caller = [Message_Accepted]\<rparr>"
  using call_reachable.step [OF reachable_offered call_step.callee_sends
      [of _ Callee_Offered Message_Accepted "Step_go Callee_Working"]]
  by (simp add: step_simps)

lemma reachable_completed:
  "call_reachable \<lparr>caller_st = Caller_Submitted,
     callee_st = Some (Callee_Terminal Outcome_Completed),
     to_callee = [], to_caller = [Message_Accepted, Message_Completed []]\<rparr>"
  using call_reachable.step [OF reachable_accepted call_step.callee_sends
      [of _ Callee_Working "Message_Completed []" "Step_go (Callee_Terminal Outcome_Completed)"]]
  by (simp add: step_simps)

theorem no_illegal_reception_witness:
  "is_ok (caller_step Caller_Submitted (Caller_Recv Message_Accepted))"
  using no_illegal_reception [OF reachable_accepted, of Message_Accepted "[]"] by simp

text \<open>
  C2: The two sides agree on how a call ended. If the caller's outcome is \<open>Completed\<close>,
  \<open>Failed(code)\<close> or \<open>Canceled\<close>, the callee has ended with exactly that outcome, code included;
  and once the callee has ended that way, a caller still in the call holds messages in flight
  that lead it, read in order, to exactly that outcome.
\<close>

theorem outcome_agreement:
  assumes "call_reachable c" and "wire_outcome out"
  shows "(caller_st c = Caller_Terminal out \<longrightarrow> callee_st c = Some (Callee_Terminal out)) \<and>
         (callee_st c = Some (Callee_Terminal out) \<and> \<not> caller_is_terminal (caller_st c) \<longrightarrow>
            caller_run (caller_st c) (map Caller_Recv (to_caller c)) = Ok (Caller_Terminal out))"
proof -
  have inv: "call_inv c" using assms(1) by (rule call_reachable_inv)
  with assms(2) show ?thesis
    by (auto simp: call_inv_terminal call_inv_nonterminal caller_view_def [symmetric])
qed

theorem outcome_agreement_witness:
  "caller_run Caller_Submitted (map Caller_Recv [Message_Accepted, Message_Completed []]) =
     Ok (Caller_Terminal Outcome_Completed)"
  using outcome_agreement [OF reachable_completed, of Outcome_Completed] by simp

end
