(* ===== verification/Framing.thy ===== *)
theory Framing
  imports Uat_Prelude
begin

text \<open>
  The interface of a length-prefixed frame layout, shared by the peer codec
  (src/crates/uat-core/src/codec.rs) and the codec of the local control socket
  (src/crates/uat-node/src/local.rs): \<open>put header body out\<close> appends one frame to a buffer,
  \<open>split\<close> takes the first frame of a buffer apart. Both providers interpret the locale in
  their own theories.
\<close>

locale framing =
  fixes put :: "bytes \<Rightarrow> bytes \<Rightarrow> bytes \<Rightarrow> (bytes, 'e) result"
    and split :: "bytes \<Rightarrow> (bytes \<times> bytes, 'e) result"
  assumes put_appends: "put h b out = and_then (put h b []) (\<lambda>f. Ok (out @ f))"
    and put_length: "put h b [] = Ok f \<Longrightarrow> length f = 6 + length h + length b"
    and split_put: "put h b [] = Ok f \<Longrightarrow> split (f @ rest) = Ok (h, b)"
    and put_split: "split buf = Ok (h, b) \<Longrightarrow> \<exists>f rest. put h b [] = Ok f \<and> buf = f @ rest"
begin

lemma put_Ok_iff: "put h b out = Ok out' \<longleftrightarrow> (\<exists>f. put h b [] = Ok f \<and> out' = out @ f)"
  by (subst put_appends) (auto simp: and_then_Ok_iff)

lemma split_put_exact: "put h b [] = Ok f \<Longrightarrow> split f = Ok (h, b)"
  using split_put [of h b f "[]"] by simp

lemma frame_nonempty: "put h b [] = Ok f \<Longrightarrow> f \<noteq> []"
  using put_length by fastforce

text \<open>No frame is a prefix of another: the first frame of a stream is determined.\<close>

lemma put_prefix_free:
  assumes "put h b [] = Ok f" and "put h' b' [] = Ok f'" and "f @ r = f' @ r'"
  shows "h = h' \<and> b = b' \<and> f = f' \<and> r = r'"
proof -
  have "split (f @ r) = Ok (h, b)" "split (f' @ r') = Ok (h', b')"
    using assms(1,2) by (simp_all add: split_put)
  with assms(3) have "h = h' \<and> b = b'" by simp
  with assms show ?thesis by simp
qed

text \<open>So a stream of frames has one reading only.\<close>

lemma stream_unique:
  assumes "list_all2 (\<lambda>(h, b) f. put h b [] = Ok f) hbs fs"
    and "list_all2 (\<lambda>(h, b) f. put h b [] = Ok f) hbs' fs'"
    and "concat fs = concat fs'"
  shows "hbs = hbs'"
  using assms
proof (induction hbs arbitrary: fs hbs' fs')
  case Nil
  then show ?case
    by (cases fs'; cases hbs') (auto dest: frame_nonempty)
next
  case (Cons hb hbs)
  obtain h b where hb: "hb = (h, b)" by (cases hb)
  with Cons.prems(1) obtain f gs where fs: "fs = f # gs" and f: "put h b [] = Ok f"
    and gs: "list_all2 (\<lambda>(h, b) f. put h b [] = Ok f) hbs gs"
    by (auto simp: list_all2_Cons1)
  have "concat fs \<noteq> []" using fs f frame_nonempty by auto
  with Cons.prems obtain h' b' kbs f' gs' where hbs': "hbs' = (h', b') # kbs" and fs': "fs' = f' # gs'"
    and f': "put h' b' [] = Ok f'"
    and gs': "list_all2 (\<lambda>(h, b) f. put h b [] = Ok f) kbs gs'"
    by (cases hbs') (auto simp: list_all2_Cons1)
  from Cons.prems(3) fs fs' have "f @ concat gs = f' @ concat gs'" by simp
  from put_prefix_free [OF f f' this] have "h = h'" "b = b'" "concat gs = concat gs'" by simp_all
  with Cons.IH [OF gs gs'] hb hbs' show ?case by simp
qed

text \<open>Every accepted buffer starts with the frame of what it decodes to.\<close>

lemma split_Ok_iff: "split buf = Ok (h, b) \<longleftrightarrow> (\<exists>f rest. put h b [] = Ok f \<and> buf = f @ rest)"
  using put_split split_put by blast

end

end
