(* ===== verification/Frame_Codec.thy ===== *)
theory Frame_Codec
  imports Core_Types Framing
begin

text \<open>
  The peer frame codec, src/crates/uat-core/src/codec.rs: a frame is
  \<open>len:u32be | hdr_len:u16be | JSON header | raw body\<close>. The JSON library (serde_json) is a
  third-party crate: \<open>to_vec\<close> and \<open>from_slice\<close> stay parameters, and \<open>serde_header\<close> states what
  the derived impls of \<open>Message\<close> document. A \<open>SubmitAuthorizer\<close> may change its own state
  (the policy's spent set), so it is a state-passing function.
\<close>

section \<open>Constants and errors\<close>

definition MAX_FRAME :: u32 where "MAX_FRAME = 65536"
definition MAX_HDR_LEN :: u16 where "MAX_HDR_LEN = 4096"

datatype codec_error =
    CodecError_FrameTooLarge
  | CodecError_Truncated
  | CodecError_BadLength
  | CodecError_MalformedHeader
  | CodecError_HeaderTooLarge
  | CodecError_EncodeTooLarge
  | CodecError_SubmitDenied

fun CodecError_close_code :: "codec_error \<Rightarrow> close_code option" where
  "CodecError_close_code CodecError_FrameTooLarge = Some CloseCode_FrameTooLarge"
| "CodecError_close_code CodecError_MalformedHeader = Some CloseCode_MalformedFrame"
| "CodecError_close_code CodecError_BadLength = Some CloseCode_MalformedFrame"
| "CodecError_close_code CodecError_Truncated = Some CloseCode_MalformedFrame"
| "CodecError_close_code CodecError_HeaderTooLarge = None"
| "CodecError_close_code CodecError_EncodeTooLarge = None"
| "CodecError_close_code CodecError_SubmitDenied = None"

lemma MAX_simps [simp]: "unat MAX_FRAME = 65536" "unat MAX_HDR_LEN = 4096"
  by (simp_all add: MAX_FRAME_def MAX_HDR_LEN_def)

section \<open>Authorizers\<close>

type_synonym 'st authorizer = "'st \<Rightarrow> message \<Rightarrow> bool \<times> 'st"

definition DenyAll :: "'st authorizer" where "DenyAll st header = (False, st)"
definition AllowAll :: "'st authorizer" where "AllowAll st header = (True, st)"

section \<open>Bodies\<close>

fun message_body :: "message \<Rightarrow> bytes" where
  "message_body (Message_Submit t d c cr body) = body"
| "message_body (Message_Input body) = body"
| "message_body (Message_Completed body) = body"
| "message_body _ = []"

fun set_body :: "message \<Rightarrow> bytes \<Rightarrow> message" where
  "set_body (Message_Submit t d c cr _) body = Message_Submit t d c cr body"
| "set_body (Message_Input _) body = Message_Input body"
| "set_body (Message_Completed _) body = Message_Completed body"
| "set_body m body = m"

section \<open>Encoding\<close>

text \<open>The length checks and the layout of \<open>encode\<close>, after the header has been serialised.\<close>

definition put_frame :: "bytes \<Rightarrow> bytes \<Rightarrow> bytes \<Rightarrow> (bytes, codec_error) result" where
  "put_frame header body out =
     (if length header > unat MAX_HDR_LEN then Err CodecError_HeaderTooLarge
      else case u16_try_from (length header) of
        None \<Rightarrow> Err CodecError_HeaderTooLarge
      | Some hdr_len \<Rightarrow>
          (case Option.bind (usize_checked_add 2 (length header))
                  (\<lambda>n. usize_checked_add n (length body)) of
             None \<Rightarrow> Err CodecError_EncodeTooLarge
           | Some len_u \<Rightarrow>
               if len_u > unat MAX_FRAME then Err CodecError_EncodeTooLarge
               else case u32_try_from len_u of
                 None \<Rightarrow> Err CodecError_EncodeTooLarge
               | Some len \<Rightarrow>
                   Ok (out @ to_be_bytes 4 len @ to_be_bytes 2 hdr_len @ header @ body)))"

definition encode ::
  "(message \<Rightarrow> bytes option) \<Rightarrow> message \<Rightarrow> bytes \<Rightarrow> (bytes, codec_error) result" where
  "encode to_vec message out =
     (case to_vec message of
        None \<Rightarrow> Err CodecError_MalformedHeader
      | Some header \<Rightarrow> put_frame header (message_body message) out)"

section \<open>Decoding\<close>

text \<open>The checks of \<open>decode_parts\<close> before the header is parsed, in source order.\<close>

definition frame_parts :: "bytes \<Rightarrow> (bytes \<times> bytes, codec_error) result" where
  "frame_parts buf =
     (if length buf < 4 then Err CodecError_Truncated
      else
        let len = (from_be_bytes (take 4 buf) :: u32) in
        if len > MAX_FRAME then Err CodecError_FrameTooLarge
        else
          let len_usize = unat len in
          if length buf < 4 + len_usize then Err CodecError_Truncated
          else
            let payload = take len_usize (drop 4 buf) in
            if length payload < 2 then Err CodecError_BadLength
            else
              let hdr_len = (from_be_bytes (take 2 payload) :: u16) in
              if hdr_len > MAX_HDR_LEN then Err CodecError_FrameTooLarge
              else
                let hdr_len_usize = unat hdr_len in
                if length payload < 2 + hdr_len_usize then Err CodecError_BadLength
                else if len_usize < 2 + hdr_len_usize then Err CodecError_BadLength
                else
                  let header_bytes = take hdr_len_usize (drop 2 payload);
                      body = drop (2 + hdr_len_usize) payload in
                  if 2 + hdr_len_usize + length body \<noteq> len_usize then Err CodecError_BadLength
                  else Ok (header_bytes, body))"

definition decode_parts ::
  "(bytes \<Rightarrow> message option) \<Rightarrow> bytes \<Rightarrow> (message \<times> bytes, codec_error) result" where
  "decode_parts from_slice buf =
     and_then (frame_parts buf) (\<lambda>(header_bytes, body).
       case from_slice header_bytes of
         None \<Rightarrow> Err CodecError_MalformedHeader
       | Some header_msg \<Rightarrow> Ok (header_msg, body))"

definition split_frame ::
  "(bytes \<Rightarrow> message option) \<Rightarrow> bytes \<Rightarrow> (message \<times> bytes, codec_error) result" where
  "split_frame from_slice buf = decode_parts from_slice buf"

definition finish_body ::
  "'st authorizer \<Rightarrow> 'st \<Rightarrow> message \<Rightarrow> bytes \<Rightarrow> (message, codec_error) result \<times> 'st" where
  "finish_body auth st header_msg body =
     (case header_msg of
        Message_Submit _ _ _ _ _ \<Rightarrow>
          (case auth st header_msg of
             (allowed, st') \<Rightarrow>
               if \<not> allowed then (Err CodecError_SubmitDenied, st')
               else (Ok (set_body header_msg body), st'))
      | Message_Input _ \<Rightarrow> (Ok (set_body header_msg body), st)
      | Message_Completed _ \<Rightarrow> (Ok (set_body header_msg body), st)
      | _ \<Rightarrow> if body \<noteq> [] then (Err CodecError_BadLength, st) else (Ok header_msg, st))"

definition decode ::
  "(bytes \<Rightarrow> message option) \<Rightarrow> 'st authorizer \<Rightarrow> 'st \<Rightarrow> bytes
     \<Rightarrow> (message, codec_error) result \<times> 'st" where
  "decode from_slice auth st buf =
     (case decode_parts from_slice buf of
        Err e \<Rightarrow> (Err e, st)
      | Ok (header_msg, body) \<Rightarrow> finish_body auth st header_msg body)"

record inspected_submit =
  inspected_header :: message
  inspected_body_len :: nat

definition inspect_submit ::
  "(bytes \<Rightarrow> message option) \<Rightarrow> bytes \<Rightarrow> (inspected_submit, codec_error) result" where
  "inspect_submit from_slice buf =
     and_then (decode_parts from_slice buf) (\<lambda>(header, body).
       if \<not> is_Submit header then Err CodecError_MalformedHeader
       else Ok \<lparr>inspected_header = header, inspected_body_len = length body\<rparr>)"

text \<open>The scratch buffer is allocated once, at the protocol maximum.\<close>

definition FrameBuffer_new :: bytes where
  "FrameBuffer_new = replicate (unat MAX_FRAME) 0"

section \<open>The layout, solved\<close>

text \<open>The checked conversions of \<open>encode\<close> never fail: only the two size limits do.\<close>

lemma put_frame_eq:
  "put_frame h b out =
     (if length h > 4096 then Err CodecError_HeaderTooLarge
      else if 2 + length h + length b > 65536 then Err CodecError_EncodeTooLarge
      else Ok (out @ to_be_bytes 4 (word_of_nat (2 + length h + length b) :: u32)
                   @ to_be_bytes 2 (word_of_nat (length h) :: u16) @ h @ b))"
  by (auto simp: put_frame_def u16_try_from_def u32_try_from_def usize_checked_add_def)

lemma be_value_u32: "length bs = 4 \<Longrightarrow> unat (from_be_bytes bs :: u32) = be_value bs"
  using be_value_less [of bs] by (simp add: from_be_bytes_value unat_word_of_nat_less)

lemma be_value_u16: "length bs = 2 \<Longrightarrow> unat (from_be_bytes bs :: u16) = be_value bs"
  using be_value_less [of bs] by (simp add: from_be_bytes_value unat_word_of_nat_less)

lemma frame_parts_eq:
  "frame_parts buf =
     (let len = be_value (take 4 buf); hdr_len = be_value (take 2 (drop 4 buf)) in
      if length buf < 4 then Err CodecError_Truncated
      else if len > 65536 then Err CodecError_FrameTooLarge
      else if length buf < 4 + len then Err CodecError_Truncated
      else if len < 2 then Err CodecError_BadLength
      else if hdr_len > 4096 then Err CodecError_FrameTooLarge
      else if len < 2 + hdr_len then Err CodecError_BadLength
      else Ok (take hdr_len (drop 6 buf), take (len - 2 - hdr_len) (drop (6 + hdr_len) buf)))"
proof -
  define len where "len = be_value (take 4 buf)"
  define hdr_len where "hdr_len = be_value (take 2 (drop 4 buf))"
  note unfold = frame_parts_def Let_def word_less_nat_alt len_def [symmetric] hdr_len_def [symmetric]
  have len: "unat (from_be_bytes (take 4 buf) :: u32) = len" if "4 \<le> length buf"
    using that by (simp add: be_value_u32 len_def)
  have hdr: "unat (from_be_bytes (take 2 (drop 4 buf)) :: u16) = hdr_len"
    if "2 \<le> len" "4 + len \<le> length buf"
    using that by (simp add: be_value_u16 hdr_len_def)
  have two: "take 2 (take len (drop 4 buf)) = take 2 (drop 4 buf)" if "2 \<le> len"
    using that by (simp only: take_take min_absorb1)
  consider "length buf < 4" | "4 \<le> length buf" "65536 < len"
    | "4 \<le> length buf" "len \<le> 65536" "length buf < 4 + len"
    | "len \<le> 65536" "4 + len \<le> length buf" "len < 2"
    | "len \<le> 65536" "4 + len \<le> length buf" "2 \<le> len" "4096 < hdr_len"
    | "len \<le> 65536" "4 + len \<le> length buf" "2 \<le> len" "hdr_len \<le> 4096" "len < 2 + hdr_len"
    | "len \<le> 65536" "4 + len \<le> length buf" "hdr_len \<le> 4096" "2 + hdr_len \<le> len"
    by linarith
  then show ?thesis
  proof cases
    case 7
    then have "2 \<le> len" "4 \<le> length buf" by simp_all
    moreover have "take hdr_len (drop 2 (take len (drop 4 buf))) = take hdr_len (drop 6 buf)"
      using 7 by (simp add: drop_take min_absorb1)
    moreover have "drop (2 + hdr_len) (take len (drop 4 buf)) =
        take (len - 2 - hdr_len) (drop (6 + hdr_len) buf)"
      by (simp add: drop_take add.commute)
    ultimately show ?thesis using 7 len hdr two by (simp add: unfold del: take_take)
  qed (simp_all add: unfold len hdr two del: take_take)
qed

lemma frame_parts_too_large:
  "4 \<le> length buf \<and> from_be_bytes (take 4 buf) > MAX_FRAME \<Longrightarrow>
     frame_parts buf = Err CodecError_FrameTooLarge"
  by (simp add: frame_parts_def Let_def)

lemma frame_parts_Ok_bounds:
  "frame_parts buf = Ok (h, b) \<Longrightarrow> length h \<le> 4096 \<and> 2 + length h + length b \<le> 65536"
  by (auto simp: frame_parts_eq Let_def split: if_splits)

lemma be_value_to_be_u32 [simp]: "be_value (to_be_bytes 4 (w :: u32)) = unat w"
proof -
  have "unat w < 2 ^ 32" using unsigned_less [of w] by simp
  then show ?thesis by (simp add: to_be_bytes_digits be_value_digits)
qed

lemma be_value_to_be_u16 [simp]: "be_value (to_be_bytes 2 (w :: u16)) = unat w"
proof -
  have "unat w < 2 ^ 16" using unsigned_less [of w] by simp
  then show ?thesis by (simp add: to_be_bytes_digits be_value_digits)
qed

lemma frame_parts_put:
  assumes "put_frame h b [] = Ok f"
  shows "frame_parts (f @ rest) = Ok (h, b)"
proof -
  from assms have hb: "length h \<le> 4096" "2 + length h + length b \<le> 65536"
    and f: "f = to_be_bytes 4 (word_of_nat (2 + length h + length b) :: u32)
                   @ to_be_bytes 2 (word_of_nat (length h) :: u16) @ h @ b"
    by (simp_all add: put_frame_eq split: if_splits)
  from hb have "unat (word_of_nat (2 + length h + length b) :: u32) = 2 + length h + length b"
    by (intro unat_word_of_nat_less) simp
  moreover from hb have "unat (word_of_nat (length h) :: u16) = length h"
    by (intro unat_word_of_nat_less) simp
  ultimately show ?thesis
    using hb f by (simp add: frame_parts_eq Let_def)
qed

lemma put_frame_parts:
  assumes "frame_parts buf = Ok (h, b)"
  shows "\<exists>f rest. put_frame h b [] = Ok f \<and> buf = f @ rest"
proof -
  define len where "len = be_value (take 4 buf)"
  define hdr_len where "hdr_len = be_value (take 2 (drop 4 buf))"
  from assms have h: "h = take hdr_len (drop 6 buf)"
    and b: "b = take (len - 2 - hdr_len) (drop (6 + hdr_len) buf)"
    and bounds: "4 + len \<le> length buf" "2 + hdr_len \<le> len" "hdr_len \<le> 4096" "len \<le> 65536"
    by (auto simp: frame_parts_eq Let_def len_def hdr_len_def split: if_splits)
  then have lens: "length h = hdr_len" "2 + length h + length b = len" by auto
  have "to_be_bytes 4 (word_of_nat len :: u32) = take 4 buf"
    using to_from_be_u32 [of "take 4 buf"] bounds by (simp add: from_be_bytes_value len_def)
  moreover have "to_be_bytes 2 (word_of_nat hdr_len :: u16) = take 2 (drop 4 buf)"
    using to_from_be_u16 [of "take 2 (drop 4 buf)"] bounds by (simp add: from_be_bytes_value hdr_len_def)
  ultimately have "put_frame h b [] = Ok (take 4 buf @ take 2 (drop 4 buf) @ h @ b)"
    using lens bounds by (simp add: put_frame_eq)
  moreover have "take 4 buf @ take 2 (drop 4 buf) @ h @ b = take (4 + len) buf"
  proof -
    have "4 + len = 4 + (2 + (hdr_len + (len - 2 - hdr_len)))"
      using bounds by arith
    then have "take (4 + len) buf = take (4 + (2 + (hdr_len + (len - 2 - hdr_len)))) buf"
      by (rule arg_cong)
    also have "\<dots> = take 4 buf @ take 2 (drop 4 buf) @ h @ b"
      by (simp only: take_add h b drop_drop) (simp add: add.commute)
    finally show ?thesis by simp
  qed
  ultimately show ?thesis by (metis append_take_drop_id)
qed

interpretation peer_frame: framing put_frame frame_parts
proof unfold_locales
  show "put_frame h b out = and_then (put_frame h b []) (\<lambda>f. Ok (out @ f))" for h b out
    by (simp add: put_frame_eq)
  show "length f = 6 + length h + length b" if "put_frame h b [] = Ok f" for h b f
    using that by (auto simp: put_frame_eq split: if_splits)
qed (fact frame_parts_put put_frame_parts)+

section \<open>The JSON header\<close>

text \<open>
  What the derived impls of \<open>Message\<close> document: the header of a message whose fields came
  out of their constructors parses back to the same message, with the body (which is skipped)
  empty.
\<close>

definition header_of :: "message \<Rightarrow> message" where
  "header_of m = set_body m []"

definition serde_header ::
  "(bytes \<Rightarrow> bytes option) \<Rightarrow> (message \<Rightarrow> bytes option) \<Rightarrow> (bytes \<Rightarrow> message option) \<Rightarrow> bool" where
  "serde_header b64 to_vec from_slice \<longleftrightarrow>
     (\<forall>m h. message_wf b64 m \<and> to_vec m = Some h \<longrightarrow> from_slice h = Some (header_of m))"

lemma set_body_header [simp]: "set_body (header_of m) (message_body m) = m"
  by (cases m) (simp_all add: header_of_def)

lemma is_Submit_set_body [simp]: "is_Submit (set_body m b) = is_Submit m"
  by (cases m) simp_all

lemma is_Submit_header [simp]: "is_Submit (header_of m) = is_Submit m"
  by (simp add: header_of_def)

lemma message_body_empty: "\<not> carries_body m \<Longrightarrow> message_body m = []"
  by (cases m) simp_all

text \<open>
  A concrete header coding for the witnesses: one byte for the kind of every message but
  \<open>Submit\<close>, of which it covers a single one, and \<open>Failed\<close>, which it refuses.
\<close>

fun sample_to_vec :: "message \<Rightarrow> bytes option" where
  "sample_to_vec (Message_Submit t d c cr b) =
     (if Message_Submit t d c cr [] = sample_submit then Some [1] else None)"
| "sample_to_vec Message_Accepted = Some [2]"
| "sample_to_vec (Message_Input b) = Some [3]"
| "sample_to_vec (Message_Completed b) = Some [4]"
| "sample_to_vec Message_Cancel = Some [5]"
| "sample_to_vec m = None"

definition sample_from_slice :: "bytes \<Rightarrow> message option" where
  "sample_from_slice h =
     (if h = [1] then Some sample_submit
      else if h = [2] then Some Message_Accepted
      else if h = [3] then Some (Message_Input [])
      else if h = [4] then Some (Message_Completed [])
      else if h = [5] then Some Message_Cancel
      else None)"

lemma header_sample_submit:
  "Message_Submit t d c cr [] = sample_submit \<Longrightarrow> header_of (Message_Submit t d c cr b) = sample_submit"
  by (simp add: header_of_def)

lemma sample_serde: "serde_header b64 sample_to_vec sample_from_slice"
proof -
  have "sample_from_slice h = Some (header_of m)" if "sample_to_vec m = Some h" for m h
  proof (cases m)
    case (Message_Submit t d c cr b)
    with that show ?thesis
      by (auto simp: sample_from_slice_def header_sample_submit split: if_splits)
  qed (use that in \<open>auto simp: sample_from_slice_def header_of_def\<close>)
  then show ?thesis by (simp add: serde_header_def)
qed

lemma sample_prefix: "to_be_bytes 4 (3 :: u32) = [0, 0, 0, 3]" "to_be_bytes 2 (1 :: u16) = [0, 1]"
  by code_simp+

section \<open>Round trip\<close>

lemma encode_Ok_iff:
  "encode to_vec m out = Ok out' \<longleftrightarrow>
     (\<exists>h f. to_vec m = Some h \<and> put_frame h (message_body m) [] = Ok f \<and> out' = out @ f)"
  by (auto simp: encode_def peer_frame.put_Ok_iff [of _ _ out] split: option.splits)

lemma decode_parts_encode:
  assumes "serde_header b64 to_vec from_slice" and "message_wf b64 m" and "encode to_vec m [] = Ok f"
  shows "decode_parts from_slice (f @ rest) = Ok (header_of m, message_body m)"
  using assms
  by (auto simp: encode_Ok_iff decode_parts_def serde_header_def peer_frame.split_put)

lemma finish_body_allow:
  "finish_body AllowAll st (header_of m) (message_body m) = (Ok m, st)"
  by (cases m) (simp_all add: finish_body_def AllowAll_def header_of_def)

text \<open>
  C16: The frame codec round-trips. Whenever \<open>encode\<close> succeeds it appends one frame to the
  buffer, and decoding that frame, with anything at all behind it, gives back the message with
  its body, for every message of constructed fields and every JSON library that round-trips
  headers.
\<close>

theorem frame_roundtrip:
  assumes "serde_header b64 to_vec from_slice" and "message_wf b64 m" and "encode to_vec m out = Ok out'"
  shows "\<exists>frame. out' = out @ frame \<and> length frame \<le> 4 + 65536 \<and>
     (\<forall>rest. decode from_slice AllowAll st (frame @ rest) = (Ok m, st))"
proof -
  from assms(3) obtain h f where h: "to_vec m = Some h"
    and f: "put_frame h (message_body m) [] = Ok f" and out: "out' = out @ f"
    by (auto simp: encode_Ok_iff)
  from h f have "encode to_vec m [] = Ok f" by (simp add: encode_def)
  with assms(1,2) have "decode from_slice AllowAll st (f @ rest) = (Ok m, st)" for rest
    by (simp add: decode_def decode_parts_encode finish_body_allow)
  moreover have "length f \<le> 4 + 65536"
    using peer_frame.put_length [OF f] frame_parts_Ok_bounds [OF peer_frame.split_put_exact [OF f]]
    by simp
  ultimately show ?thesis using out by blast
qed

theorem frame_roundtrip_witness:
  "\<exists>frame. encode sample_to_vec (Message_Completed [1, 2, 3]) [9] = Ok (9 # frame) \<and>
     decode sample_from_slice AllowAll () (frame @ [7]) = (Ok (Message_Completed [1, 2, 3]), ())"
proof -
  have "\<exists>out'. encode sample_to_vec (Message_Completed [1, 2, 3]) [9] = Ok out'"
    by (simp add: encode_def put_frame_eq)
  then obtain out' where enc: "encode sample_to_vec (Message_Completed [1, 2, 3]) [9] = Ok out'" ..
  have "message_wf (\<lambda>_. None) (Message_Completed [1, 2, 3])" by simp
  from frame_roundtrip [OF sample_serde this enc, of "()"] obtain frame
    where out: "out' = [9] @ frame"
      and dec: "\<And>rest. decode sample_from_slice AllowAll () (frame @ rest) =
        (Ok (Message_Completed [1, 2, 3]), ())" by blast
  from out have "out' = 9 # frame" by simp
  with enc dec show ?thesis by blast
qed

text \<open>
  \<open>encode\<close> fails on size in exactly two ways, checked in this order: a header over 4096
  bytes is \<open>HeaderTooLarge\<close>, a payload over 65536 bytes is \<open>EncodeTooLarge\<close>; the narrowing
  conversions and the checked additions never fail on their own.
\<close>

theorem encode_size_errors:
  "encode to_vec m out =
     (case to_vec m of
        None \<Rightarrow> Err CodecError_MalformedHeader
      | Some h \<Rightarrow>
          if 4096 < length h then Err CodecError_HeaderTooLarge
          else if 65536 < 2 + length h + length (message_body m) then Err CodecError_EncodeTooLarge
          else Ok (out @ to_be_bytes 4 (word_of_nat (2 + length h + length (message_body m)) :: u32)
                 @ to_be_bytes 2 (word_of_nat (length h) :: u16) @ h @ message_body m))"
  by (simp add: encode_def put_frame_eq split: option.split)

section \<open>What the decoder accepts\<close>

text \<open>
  C23: The decoder accepts exactly the encoder's frames: a buffer splits into a header and a body
  if and only if it begins with the frame the encoder would write for them. The sizes of what it
  returns are within the protocol maxima, and a length field above 65536 is refused as
  \<open>FrameTooLarge\<close> from the first four bytes alone, whatever follows or is missing (F1).
\<close>

theorem decoder_accepts_exactly_frames:
  "(frame_parts buf = Ok (h, b) \<longleftrightarrow> (\<exists>f rest. put_frame h b [] = Ok f \<and> buf = f @ rest)) \<and>
   (frame_parts buf = Ok (h, b) \<longrightarrow> length h \<le> 4096 \<and> 2 + length h + length b \<le> 65536) \<and>
   (4 \<le> length buf \<and> from_be_bytes (take 4 buf) > MAX_FRAME \<longrightarrow>
      frame_parts buf = Err CodecError_FrameTooLarge)"
  using peer_frame.split_Ok_iff [of buf h b] frame_parts_Ok_bounds [of buf h b]
    frame_parts_too_large [of buf] by blast

theorem decoder_accepts_exactly_frames_witness:
  "frame_parts [0, 1, 0, 1] = Err CodecError_FrameTooLarge"
proof -
  have "from_be_bytes (take 4 [0, 1, 0, 1]) > MAX_FRAME"
    by (simp add: from_be_bytes_def MAX_FRAME_def)
  with decoder_accepts_exactly_frames [of "[0, 1, 0, 1]"] show ?thesis by simp
qed

section \<open>Submit bodies need authorization\<close>

text \<open>
  C24: No \<open>Submit\<close> leaves the decoder unless the authorizer said yes to its header (F4):
  \<open>decode\<close> returns a \<open>Submit\<close> exactly when the frame parsed to a \<open>Submit\<close> header, the authorizer
  allowed that header in the state it was given, and the result is that header with the body
  attached; on a refusal the answer is \<open>SubmitDenied\<close> and does not depend on the body. A
  message of another kind never reaches the authorizer.
\<close>

theorem submit_needs_authorization:
  assumes "decode_parts from_slice buf = Ok (header, body)"
  shows "(\<forall>m st'. is_Submit m \<longrightarrow>
            (decode from_slice auth st buf = (Ok m, st') \<longleftrightarrow>
               is_Submit header \<and> auth st header = (True, st') \<and> m = set_body header body)) \<and>
         (is_Submit header \<and> \<not> fst (auth st header) \<longrightarrow>
            decode from_slice auth st buf = (Err CodecError_SubmitDenied, snd (auth st header))) \<and>
         (\<not> is_Submit header \<longrightarrow> snd (decode from_slice auth st buf) = st)"
  using assms
  by (cases header; cases "auth st header")
    (auto simp: decode_def finish_body_def split: if_splits)

theorem submit_needs_authorization_witness:
  "decode sample_from_slice DenyAll () [0, 0, 0, 5, 0, 1, 1, 42, 43] = (Err CodecError_SubmitDenied, ()) \<and>
   decode sample_from_slice AllowAll () [0, 0, 0, 5, 0, 1, 1, 42, 43] =
     (Ok (set_body sample_submit [42, 43]), ())"
proof -
  let ?buf = "[0, 0, 0, 5, 0, 1, 1, 42, 43] :: bytes"
  have parts: "decode_parts sample_from_slice ?buf = Ok (sample_submit, [42, 43])"
    by (simp add: decode_parts_def frame_parts_eq Let_def sample_from_slice_def)
  have sub: "is_Submit sample_submit" by (simp add: sample_submit_def)
  from submit_needs_authorization [OF parts, of DenyAll "()"]
       submit_needs_authorization [OF parts, of AllowAll "()"] sub
  show ?thesis by (auto simp: DenyAll_def AllowAll_def)
qed

end
