(* ===== verification/Frame_Io.thy ===== *)
theory Frame_Io
  imports Frame_Codec
begin

text \<open>
  Frames over QUIC streams, src/crates/uat-node/src/frame_io.rs. The streams are iroh's:
  \<open>read_exact\<close> and \<open>write_all\<close> are state-passing parameters, and \<open>reads_from\<close> and
  \<open>writes_to\<close> state their documentation.
\<close>

section \<open>Errors\<close>

text \<open>
  \<open>ReadExactError\<close> of iroh: the stream finished after so many bytes, or a read failed. What a
  failed read or write carries is opaque.
\<close>

typedecl read_error
typedecl write_error

datatype read_exact_error = FinishedEarly nat | ReadError read_error

datatype frame_io_error =
    FrameIoError_Codec codec_error
  | FrameIoError_Read read_exact_error
  | FrameIoError_Write write_error
  | FrameIoError_UnexpectedEnd

fun FrameIoError_close_code :: "frame_io_error \<Rightarrow> close_code option" where
  "FrameIoError_close_code (FrameIoError_Codec err) = CodecError_close_code err"
| "FrameIoError_close_code (FrameIoError_Read (FinishedEarly _)) = Some CloseCode_MalformedFrame"
| "FrameIoError_close_code FrameIoError_UnexpectedEnd = Some CloseCode_MalformedFrame"
| "FrameIoError_close_code (FrameIoError_Read (ReadError _)) = None"
| "FrameIoError_close_code (FrameIoError_Write _) = None"

fun map_read_exact :: "read_exact_error \<Rightarrow> frame_io_error" where
  "map_read_exact (FinishedEarly _) = FrameIoError_UnexpectedEnd"
| "map_read_exact other = FrameIoError_Read other"

section \<open>Reading and writing\<close>

type_synonym 's recv_stream = "'s \<Rightarrow> nat \<Rightarrow> (bytes, read_exact_error) result \<times> 's"
type_synonym 's send_stream = "'s \<Rightarrow> bytes \<Rightarrow> (unit, write_error) result \<times> 's"

definition read_frame ::
  "'s recv_stream \<Rightarrow> 's \<Rightarrow> (bytes, frame_io_error) result \<times> 's" where
  "read_frame read_exact recv =
     (case read_exact recv 4 of
        (Err e, recv) \<Rightarrow> (Err (map_read_exact e), recv)
      | (Ok len_buf, recv) \<Rightarrow>
          (let len = (from_be_bytes len_buf :: u32) in
           if len > MAX_FRAME then (Err (FrameIoError_Codec CodecError_FrameTooLarge), recv)
           else case read_exact recv (unat len) of
                  (Err e, recv) \<Rightarrow> (Err (map_read_exact e), recv)
                | (Ok payload, recv) \<Rightarrow> (Ok (len_buf @ payload), recv)))"

definition read_message ::
  "(bytes \<Rightarrow> message option) \<Rightarrow> 's recv_stream \<Rightarrow> 'st authorizer \<Rightarrow> 'st \<Rightarrow> 's
     \<Rightarrow> (message, frame_io_error) result \<times> 'st \<times> 's" where
  "read_message from_slice read_exact auth st recv =
     (case read_frame read_exact recv of
        (Err e, recv) \<Rightarrow> (Err e, st, recv)
      | (Ok frame, recv) \<Rightarrow>
          (case decode from_slice auth st frame of
             (r, st) \<Rightarrow> (map_err FrameIoError_Codec r, st, recv)))"

definition write_message ::
  "(message \<Rightarrow> bytes option) \<Rightarrow> 's send_stream \<Rightarrow> 's \<Rightarrow> message
     \<Rightarrow> (unit, frame_io_error) result \<times> 's" where
  "write_message to_vec write_all send msg =
     (case encode to_vec msg [] of
        Err e \<Rightarrow> (Err (FrameIoError_Codec e), send)
      | Ok buf \<Rightarrow>
          (case write_all send buf of
             (Err e, send) \<Rightarrow> (Err (FrameIoError_Write e), send)
           | (Ok u, send) \<Rightarrow> (Ok u, send)))"

section \<open>The streams\<close>

text \<open>
  \<open>view s\<close> is what is still to be read from the stream in state \<open>s\<close>. \<open>read_exact n\<close> takes the
  first \<open>n\<close> of those bytes when there are that many; when it succeeds it has read \<open>n\<close> bytes.
\<close>

definition reads_from ::
  "('s \<Rightarrow> nat \<Rightarrow> (bytes, 'e) result \<times> 's) \<Rightarrow> ('s \<Rightarrow> bytes) \<Rightarrow> bool" where
  "reads_from read_exact view \<longleftrightarrow>
     (\<forall>s n. n \<le> length (view s) \<longrightarrow>
        (\<exists>s'. read_exact s n = (Ok (take n (view s)), s') \<and> view s' = drop n (view s))) \<and>
     (\<forall>s n bs s'. read_exact s n = (Ok bs, s') \<longrightarrow> length bs = n)"

text \<open>\<open>sent s\<close> is what was accepted for sending; a successful \<open>write_all\<close> adds the whole buffer.\<close>

definition writes_to ::
  "('s \<Rightarrow> bytes \<Rightarrow> (unit, 'e) result \<times> 's) \<Rightarrow> ('s \<Rightarrow> bytes) \<Rightarrow> bool" where
  "writes_to write_all sent \<longleftrightarrow>
     (\<forall>s buf s'. write_all s buf = (Ok (), s') \<longrightarrow> sent s' = sent s @ buf)"

lemma reads_fromE:
  assumes "reads_from read_exact view" and "n \<le> length (view s)"
  obtains s' where "read_exact s n = (Ok (take n (view s)), s')" and "view s' = drop n (view s)"
  using assms unfolding reads_from_def by blast

lemma reads_from_length:
  "reads_from read_exact view \<Longrightarrow> read_exact s n = (Ok bs, s') \<Longrightarrow> length bs = n"
  unfolding reads_from_def by blast

text \<open>The stream of bytes itself, for the witnesses.\<close>

definition bytes_read_exact :: "bytes recv_stream" where
  "bytes_read_exact s n =
     (if n \<le> length s then (Ok (take n s), drop n s) else (Err (FinishedEarly (length s)), []))"

definition bytes_write_all :: "bytes send_stream" where
  "bytes_write_all s buf = (Ok (), s @ buf)"

lemma bytes_reads: "reads_from bytes_read_exact (\<lambda>s. s)"
  by (auto simp: reads_from_def bytes_read_exact_def split: if_splits)

lemma bytes_writes: "writes_to bytes_write_all (\<lambda>s. s)"
  by (simp add: writes_to_def bytes_write_all_def)

section \<open>Reading back what was written\<close>

lemma put_frame_split:
  assumes "put_frame h b [] = Ok f"
  shows "unat (from_be_bytes (take 4 f) :: u32) = length f - 4"
    and "length f \<le> 4 + 65536" and "6 \<le> length f"
proof -
  from assms have hb: "length h \<le> 4096" "2 + length h + length b \<le> 65536"
    and f: "f = to_be_bytes 4 (word_of_nat (2 + length h + length b) :: u32)
                   @ to_be_bytes 2 (word_of_nat (length h) :: u16) @ h @ b"
    by (simp_all add: put_frame_eq split: if_splits)
  have "unat (word_of_nat (2 + length h + length b) :: u32) = 2 + length h + length b"
    using hb by (intro unat_word_of_nat_less) simp
  with f hb show "unat (from_be_bytes (take 4 f) :: u32) = length f - 4" by simp
  show "length f \<le> 4 + 65536" "6 \<le> length f" using f hb by simp_all
qed

lemma read_frame_of_put:
  assumes reads: "reads_from read_exact view"
    and f: "put_frame h b [] = Ok f" and view: "view s = f @ rest"
  shows "\<exists>s'. read_frame read_exact s = (Ok f, s') \<and> view s' = rest"
proof -
  note len = put_frame_split [OF f]
  from reads view len(3) obtain s1 where s1: "read_exact s 4 = (Ok (take 4 (view s)), s1)"
    and v1: "view s1 = drop 4 (view s)" by (auto elim: reads_fromE [of _ _ 4 s])
  have take4: "take 4 (view s) = take 4 f" and drop4: "view s1 = drop 4 f @ rest"
    using view v1 len(3) by simp_all
  have "length f - 4 \<le> length (view s1)" using drop4 by simp
  with reads obtain s2 where s2: "read_exact s1 (length f - 4) = (Ok (take (length f - 4) (view s1)), s2)"
    and v2: "view s2 = drop (length f - 4) (view s1)" by (rule reads_fromE)
  have pay: "take (length f - 4) (view s1) = drop 4 f" and "view s2 = rest"
    using drop4 v2 by simp_all
  moreover have "\<not> (from_be_bytes (take 4 f) :: u32) > MAX_FRAME"
    using len by (simp add: word_less_nat_alt)
  ultimately show ?thesis
    using s1 s2 len take4 by (simp add: read_frame_def Let_def)
qed

text \<open>Sends and reads of a whole list of messages, stopping at the first error.\<close>

fun write_messages ::
  "(message \<Rightarrow> bytes option) \<Rightarrow> 's send_stream \<Rightarrow> 's \<Rightarrow> message list
     \<Rightarrow> (unit, frame_io_error) result \<times> 's" where
  "write_messages to_vec write_all s [] = (Ok (), s)"
| "write_messages to_vec write_all s (m # ms) =
     (case write_message to_vec write_all s m of
        (Err e, s) \<Rightarrow> (Err e, s)
      | (Ok _, s) \<Rightarrow> write_messages to_vec write_all s ms)"

fun read_messages ::
  "(bytes \<Rightarrow> message option) \<Rightarrow> 's recv_stream \<Rightarrow> 's \<Rightarrow> nat
     \<Rightarrow> (message list, frame_io_error) result \<times> 's" where
  "read_messages from_slice read_exact s 0 = (Ok [], s)"
| "read_messages from_slice read_exact s (Suc n) =
     (case read_message from_slice read_exact AllowAll () s of
        (Err e, _, s) \<Rightarrow> (Err e, s)
      | (Ok m, _, s) \<Rightarrow>
          (case read_messages from_slice read_exact s n of
             (Err e, s) \<Rightarrow> (Err e, s)
           | (Ok ms, s) \<Rightarrow> (Ok (m # ms), s)))"

lemma write_message_sent:
  assumes "writes_to write_all sent"
    and "write_message to_vec write_all s m = (Ok (), s')"
  shows "\<exists>f. encode to_vec m [] = Ok f \<and> sent s' = sent s @ f"
  using assms by (auto simp: write_message_def writes_to_def split: sum.splits prod.splits)

text \<open>The frames a successful run of writes adds to what was sent.\<close>

lemma write_messages_sent:
  assumes "writes_to write_all sent"
    and "write_messages to_vec write_all s ms = (Ok (), s')"
  shows "\<exists>fs. list_all2 (\<lambda>m f. encode to_vec m [] = Ok f) ms fs \<and> sent s' = sent s @ concat fs"
  using assms(2)
proof (induction ms arbitrary: s)
  case Nil
  then show ?case by auto
next
  case (Cons m ms)
  from Cons.prems obtain s1 where w: "write_message to_vec write_all s m = (Ok (), s1)"
    and ws: "write_messages to_vec write_all s1 ms = (Ok (), s')"
    by (auto split: sum.splits prod.splits)
  from write_message_sent [OF assms(1) w] obtain f
    where f: "encode to_vec m [] = Ok f" "sent s1 = sent s @ f" by blast
  from Cons.IH [OF ws] obtain fs
    where fs: "list_all2 (\<lambda>m f. encode to_vec m [] = Ok f) ms fs" "sent s' = sent s1 @ concat fs"
    by blast
  have "list_all2 (\<lambda>m f. encode to_vec m [] = Ok f) (m # ms) (f # fs)"
    "sent s' = sent s @ concat (f # fs)"
    using f fs by simp_all
  then show ?case by blast
qed

lemma read_message_of_encode:
  assumes serde: "serde_header b64 to_vec from_slice" and wf: "message_wf b64 m"
    and reads: "reads_from read_exact view"
    and f: "encode to_vec m [] = Ok f" and view: "view s = f @ rest"
  shows "\<exists>s'. read_message from_slice read_exact AllowAll st s = (Ok m, st, s') \<and> view s' = rest"
proof -
  from f obtain h where put: "put_frame h (message_body m) [] = Ok f" by (auto simp: encode_Ok_iff)
  from read_frame_of_put [OF reads put view] obtain s'
    where s': "read_frame read_exact s = (Ok f, s')" "view s' = rest" by blast
  from decode_parts_encode [OF serde wf f, of "[]"]
  have "decode from_slice AllowAll st f = (Ok m, st)"
    by (simp add: decode_def finish_body_allow)
  with s' show ?thesis by (auto simp: read_message_def)
qed

lemma read_messages_of_frames:
  assumes serde: "serde_header b64 to_vec from_slice"
    and wf: "list_all (message_wf b64) ms"
    and reads: "reads_from read_exact view"
    and fs: "list_all2 (\<lambda>m f. encode to_vec m [] = Ok f) ms fs"
    and view: "view s = concat fs @ rest"
  shows "\<exists>s'. read_messages from_slice read_exact s (length ms) = (Ok ms, s') \<and> view s' = rest"
  using wf fs view
proof (induction ms arbitrary: fs s)
  case Nil
  then show ?case by auto
next
  case (Cons m ms)
  then obtain f gs where fs: "fs = f # gs" "encode to_vec m [] = Ok f"
    "list_all2 (\<lambda>m f. encode to_vec m [] = Ok f) ms gs"
    by (auto simp: list_all2_Cons1)
  have "message_wf b64 m" "view s = f @ (concat gs @ rest)"
    using Cons.prems fs(1) by simp_all
  from read_message_of_encode [OF serde this(1) reads fs(2) this(2), of "()"]
  obtain s1 where s1: "read_message from_slice read_exact AllowAll () s = (Ok m, (), s1)"
    "view s1 = concat gs @ rest" by blast
  from Cons.IH [OF _ fs(3) s1(2)] Cons.prems(1) obtain s'
    where "read_messages from_slice read_exact s1 (length ms) = (Ok ms, s')" "view s' = rest"
    by auto
  with s1(1) show ?case by simp
qed

text \<open>
  C22: A stream carries the conversation unchanged. If a sender writes a list of messages
  without an error, and a receiver reads from a stream that holds what was sent, then it reads
  back exactly those messages, in that order, and nothing of what follows is consumed.
\<close>

theorem messages_over_stream:
  assumes "serde_header b64 to_vec from_slice" and "list_all (message_wf b64) ms"
    and "writes_to write_all sent" and "reads_from read_exact view"
    and "write_messages to_vec write_all s ms = (Ok (), s')" and "sent s = []"
    and "view r = sent s' @ rest"
  shows "\<exists>r'. read_messages from_slice read_exact r (length ms) = (Ok ms, r') \<and> view r' = rest"
proof -
  from write_messages_sent [OF assms(3,5)] assms(6) obtain fs
    where "list_all2 (\<lambda>m f. encode to_vec m [] = Ok f) ms fs" "sent s' = concat fs" by auto
  with read_messages_of_frames [OF assms(1,2,4)] assms(7) show ?thesis by metis
qed

theorem messages_over_stream_witness:
  "\<exists>s r'. write_messages sample_to_vec bytes_write_all [] [Message_Accepted, Message_Completed [7]] =
       (Ok (), s) \<and>
     read_messages sample_from_slice bytes_read_exact (s @ [1]) 2 =
       (Ok [Message_Accepted, Message_Completed [7]], r') \<and> r' = [1]"
proof -
  let ?ms = "[Message_Accepted, Message_Completed [7]]"
  have wf: "list_all (message_wf (\<lambda>_. None)) ?ms" by simp
  have "\<exists>s. write_messages sample_to_vec bytes_write_all [] ?ms = (Ok (), s)"
    by (simp add: write_message_def encode_def put_frame_eq bytes_write_all_def)
  then obtain s where s: "write_messages sample_to_vec bytes_write_all [] ?ms = (Ok (), s)" ..
  have two: "length ?ms = 2" by simp
  from messages_over_stream [OF sample_serde wf bytes_writes bytes_reads s refl refl, of "[1]"] s
  show ?thesis unfolding two by blast
qed

section \<open>Errors of the reader\<close>

lemma read_frame_length:
  assumes "reads_from read_exact view" and "read_frame read_exact s = (Ok f, s')"
  shows "4 \<le> length f \<and> length f = 4 + unat (from_be_bytes (take 4 f) :: u32) \<and>
    \<not> (from_be_bytes (take 4 f) :: u32) > MAX_FRAME"
proof -
  show ?thesis
    using assms(2)
    by (auto simp: read_frame_def Let_def split: sum.splits prod.splits if_splits dest!: reads_from_length [OF assms(1)])
qed

lemma frame_parts_not_truncated:
  assumes "4 \<le> length f" and "4 + unat (from_be_bytes (take 4 f) :: u32) \<le> length f"
  shows "frame_parts f \<noteq> Err CodecError_Truncated"
proof -
  have "unat (from_be_bytes (take 4 f) :: u32) = be_value (take 4 f)"
    using assms(1) by (intro be_value_u32) simp
  with assms(2) have "4 + be_value (take 4 f) \<le> length f" by simp
  with assms(1) show ?thesis by (simp add: frame_parts_eq Let_def)
qed

lemma read_frame_Err:
  assumes "read_frame read_exact s = (Err e, s')"
  shows "e = FrameIoError_Codec CodecError_FrameTooLarge \<or> (\<exists>x. e = map_read_exact x)"
  using assms by (auto simp: read_frame_def Let_def split: sum.splits prod.splits if_splits)

text \<open>
  \<open>read_frame\<close> is the only place that sizes a read by the peer's number, and it bounds it:
  a frame it returns is exactly as long as its own length field says, at most 65540 bytes, so
  the decoder behind it never reports \<open>Truncated\<close>; what is left to go wrong on the wire
  (an early end, or a length over the maximum) closes the connection with
  \<open>MalformedFrame\<close> or \<open>FrameTooLarge\<close>, and a stream error closes nothing.
\<close>

theorem read_frame_bounds:
  assumes "reads_from read_exact view"
    and "read_frame read_exact s = (r, s')"
  shows "case r of
      Ok f \<Rightarrow> length f = 4 + unat (from_be_bytes (take 4 f) :: u32) \<and> length f \<le> 65540 \<and>
        frame_parts f \<noteq> Err CodecError_Truncated
    | Err e \<Rightarrow> (e = FrameIoError_UnexpectedEnd \<and>
           FrameIoError_close_code e = Some CloseCode_MalformedFrame) \<or>
        (e = FrameIoError_Codec CodecError_FrameTooLarge \<and>
           FrameIoError_close_code e = Some CloseCode_FrameTooLarge) \<or>
        (\<exists>x. e = FrameIoError_Read (ReadError x) \<and> FrameIoError_close_code e = None)"
proof (cases r)
  case (Inr f)
  with assms(2) have "read_frame read_exact s = (Ok f, s')"
    by simp
  note len = read_frame_length [OF assms(1) this]
  then have "length f \<le> 65540" by (simp add: word_less_nat_alt)
  moreover have "frame_parts f \<noteq> Err CodecError_Truncated"
    using len by (intro frame_parts_not_truncated) simp_all
  ultimately show ?thesis using Inr len by simp
next
  case (Inl e)
  with assms(2) have "read_frame read_exact s = (Err e, s')" by simp
  from read_frame_Err [OF this] show ?thesis
  proof
    assume "\<exists>x. e = map_read_exact x"
    then obtain x where x: "e = map_read_exact x" ..
    show ?thesis by (cases x) (simp_all add: Inl x)
  qed (simp add: Inl)
qed

theorem read_frame_bounds_witness:
  "frame_parts [0, 0, 0, 2, 0, 0] \<noteq> Err CodecError_Truncated"
proof -
  have "read_frame bytes_read_exact [0, 0, 0, 2, 0, 0] =
      (Ok [0, 0, 0, 2, 0, 0], [])"
    by (simp add: read_frame_def bytes_read_exact_def from_be_bytes_def MAX_FRAME_def)
  from read_frame_bounds [OF bytes_reads this] show ?thesis by simp
qed

end
