(* ===== verification/Spent_Set.thy ===== *)
theory Spent_Set
  imports Uat_Prelude
begin

text \<open>
  One-shot token ids already consumed: the \<open>SpentSet\<close> trait and \<open>MemorySpentSet\<close> of
  src/crates/uat-policy/src/lib.rs. A \<open>SystemTime\<close> is a number of nanoseconds from the Unix
  epoch. The trait is the locale \<open>spent_set\<close>, on which the policy relies; the in-memory map
  interprets it.
\<close>

type_synonym system_time = int
type_synonym biscuit_id = bytes

section \<open>The interface\<close>

text \<open>
  \<open>live s now\<close> are the ids recorded in \<open>s\<close> whose expiry is after \<open>now\<close>. An operation may evict what
  has expired at the clock reading it is given, which need not be the latest one: what it keeps at
  \<open>t\<close> is at least what is live at both, and it makes nothing live but what it spends.
\<close>

locale spent_set =
  fixes contains :: "'s \<Rightarrow> biscuit_id \<Rightarrow> system_time \<Rightarrow> bool \<times> 's"
    and try_spend :: "'s \<Rightarrow> biscuit_id \<Rightarrow> system_time \<Rightarrow> system_time \<Rightarrow> bool \<times> 's"
    and live :: "'s \<Rightarrow> system_time \<Rightarrow> biscuit_id set"
  assumes contains_answer: "fst (contains s i now) \<longleftrightarrow> i \<in> live s now"
    and contains_evicts: "live s (max now t) \<subseteq> live (snd (contains s i now)) t"
    and contains_adds: "live (snd (contains s i now)) t \<subseteq> live s t"
    and spend_answer: "fst (try_spend s i e now) \<longleftrightarrow> i \<notin> live s now"
    and spend_evicts: "live s (max now t) \<subseteq> live (snd (try_spend s i e now)) t"
    and spend_records: "i \<notin> live s now \<Longrightarrow> t < e \<Longrightarrow> i \<in> live (snd (try_spend s i e now)) t"
    and spend_adds: "live (snd (try_spend s i e now)) t \<subseteq>
      (if i \<notin> live s now \<and> t < e then insert i (live s t) else live s t)"
begin

lemma live_antimono: "t \<le> t' \<Longrightarrow> live s t' \<subseteq> live s t"
  using contains_evicts [of s t' t undefined] contains_adds [of s undefined t' t] by (auto simp: max_def)

lemma contains_keeps: "now \<le> t \<Longrightarrow> live (snd (contains s i now)) t = live s t"
  using contains_evicts [of s now t i] contains_adds [of s i now t] by (simp add: max_def)

text \<open>The two calls of the policy: refuse what is spent, then spend.\<close>

definition consume :: "'s \<Rightarrow> biscuit_id \<Rightarrow> system_time \<Rightarrow> system_time \<Rightarrow> bool \<times> 's" where
  "consume s i e now =
     (case contains s i now of
        (True, s1) \<Rightarrow> (False, s1)
      | (False, s1) \<Rightarrow> try_spend s1 i e now)"

lemma consume_cases:
  obtains (refused) s1 where "i \<in> live s now" "s1 = snd (contains s i now)" "consume s i e now = (False, s1)"
  | (spent) s1 where "i \<notin> live s now" "i \<notin> live s1 now" "s1 = snd (contains s i now)"
      "consume s i e now = (True, snd (try_spend s1 i e now))"
proof (cases "contains s i now")
  case (Pair b s1)
  with contains_answer [of s i now] have b: "b \<longleftrightarrow> i \<in> live s now" by simp
  from Pair contains_keeps [of now now s i] have same: "live s1 now = live s now" by simp
  show ?thesis
  proof (cases b)
    case True
    with Pair b show ?thesis by (intro refused [of s1]) (simp_all add: consume_def)
  next
    case False
    with spend_answer [of s1 i e now] b same have "fst (try_spend s1 i e now)" by simp
    then have "try_spend s1 i e now = (True, snd (try_spend s1 i e now))" by (simp add: prod_eq_iff)
    with Pair b same False show ?thesis by (intro spent [of s1]) (simp_all add: consume_def)
  qed
qed

lemma consume_answer: "fst (consume s i e now) \<longleftrightarrow> i \<notin> live s now"
  by (cases rule: consume_cases [of i s now e]) simp_all

text \<open>Nothing live is forgotten but by a reading at or after its expiry.\<close>

lemma consume_evicts: "live s (max now t) \<subseteq> live (snd (consume s i e now)) t"
proof (cases rule: consume_cases [of i s now e])
  case (refused s1)
  then show ?thesis using contains_evicts by simp
next
  case (spent s1)
  have "live s (max now (max now t)) \<subseteq> live s1 (max now t)" unfolding spent(3) by (rule contains_evicts)
  also have "\<dots> \<subseteq> live (snd (try_spend s1 i e now)) t" by (rule spend_evicts)
  finally show ?thesis using spent(4) by (simp add: max.left_idem)
qed

text \<open>A consumed id is live until its expiry.\<close>

lemma consume_spent: "fst (consume s i e now) \<Longrightarrow> t < e \<Longrightarrow> i \<in> live (snd (consume s i e now)) t"
  by (cases rule: consume_cases [of i s now e]) (simp_all add: spend_records)

lemma consume_adds:
  "live (snd (consume s i e now)) t \<subseteq> (if t < e then insert i (live s t) else live s t)"
proof (cases rule: consume_cases [of i s now e])
  case (refused s1)
  then show ?thesis using contains_adds [of s i now t] by auto
next
  case (spent s1)
  then show ?thesis using contains_adds [of s i now t] spend_adds [of s1 i e now t] by (auto split: if_splits)
qed

end

text \<open>
  The trait also asks that growth is bounded by eviction: \<open>entries\<close> is what a set really stores. A
  set that keeps the bound stores nothing that had expired at the last reading, but for the id just
  spent.
\<close>

locale evicting_spent_set = spent_set contains try_spend live
  for contains :: "'s \<Rightarrow> biscuit_id \<Rightarrow> system_time \<Rightarrow> bool \<times> 's"
    and try_spend :: "'s \<Rightarrow> biscuit_id \<Rightarrow> system_time \<Rightarrow> system_time \<Rightarrow> bool \<times> 's"
    and live :: "'s \<Rightarrow> system_time \<Rightarrow> biscuit_id set" +
  fixes entries :: "'s \<Rightarrow> biscuit_id set"
  assumes live_entries: "live s t \<subseteq> entries s"
    and contains_bound: "entries (snd (contains s i now)) \<subseteq> live s now"
    and spend_bound: "entries (snd (try_spend s i e now)) \<subseteq> insert i (live s now)"
begin

lemma consume_bound: "entries (snd (consume s i e now)) \<subseteq> insert i (live s now)"
proof (cases rule: consume_cases [of i s now e])
  case (refused s1)
  then show ?thesis using contains_bound by auto
next
  case (spent s1)
  then show ?thesis using spend_bound [of s1 i e now] contains_keeps [of now now s i] by auto
qed

text \<open>After a sequence of calls: at most the ids alive at the last of them and the one it spent.\<close>

lemma consume_card:
  assumes "finite (live s now)"
  shows "card (entries (snd (consume s i e now))) \<le> Suc (card (live s now))"
proof -
  have "card (entries (snd (consume s i e now))) \<le> card (insert i (live s now))"
    using assms consume_bound by (intro card_mono) auto
  also have "\<dots> \<le> Suc (card (live s now))" using assms by (simp add: card_insert_if)
  finally show ?thesis .
qed

end

section \<open>The in-memory map\<close>

record memory_spent_set =
  spent_inner :: "biscuit_id \<rightharpoonup> system_time"

definition MemorySpentSet_new :: memory_spent_set where
  "MemorySpentSet_new = \<lparr>spent_inner = Map.empty\<rparr>"

definition evict_expired :: "(biscuit_id \<rightharpoonup> system_time) \<Rightarrow> system_time \<Rightarrow> (biscuit_id \<rightharpoonup> system_time)" where
  "evict_expired m now =
     (\<lambda>i. case m i of None \<Rightarrow> None | Some expires \<Rightarrow> if expires > now then Some expires else None)"

definition MemorySpentSet_len :: "memory_spent_set \<Rightarrow> system_time \<Rightarrow> nat \<times> memory_spent_set" where
  "MemorySpentSet_len s now =
     (let inner = evict_expired (spent_inner s) now in
      (card (dom inner), s\<lparr>spent_inner := inner\<rparr>))"

definition MemorySpentSet_is_empty :: "memory_spent_set \<Rightarrow> system_time \<Rightarrow> bool \<times> memory_spent_set" where
  "MemorySpentSet_is_empty s now =
     (case MemorySpentSet_len s now of (n, s) \<Rightarrow> (n = 0, s))"

definition MemorySpentSet_contains ::
  "memory_spent_set \<Rightarrow> biscuit_id \<Rightarrow> system_time \<Rightarrow> bool \<times> memory_spent_set" where
  "MemorySpentSet_contains s i now =
     (let inner = evict_expired (spent_inner s) now in
      (inner i \<noteq> None, s\<lparr>spent_inner := inner\<rparr>))"

definition MemorySpentSet_try_spend ::
  "memory_spent_set \<Rightarrow> biscuit_id \<Rightarrow> system_time \<Rightarrow> system_time \<Rightarrow> bool \<times> memory_spent_set" where
  "MemorySpentSet_try_spend s i expires now =
     (let inner = evict_expired (spent_inner s) now in
      case inner i of
        Some _ \<Rightarrow> (False, s\<lparr>spent_inner := inner\<rparr>)
      | None \<Rightarrow> (True, s\<lparr>spent_inner := inner(i \<mapsto> expires)\<rparr>))"

definition memory_live :: "memory_spent_set \<Rightarrow> system_time \<Rightarrow> biscuit_id set" where
  "memory_live s now = {i. \<exists>e. spent_inner s i = Some e \<and> now < e}"

lemma evict_expired_Some [simp]:
  "evict_expired m now i = Some e \<longleftrightarrow> m i = Some e \<and> now < e"
  by (auto simp: evict_expired_def split: option.splits)

lemma evict_expired_None:
  "evict_expired m now i = None \<longleftrightarrow> (\<forall>e. m i = Some e \<longrightarrow> \<not> now < e)"
  by (auto simp: evict_expired_def split: option.splits)

lemma evict_expired_dom: "i \<in> dom (evict_expired m now) \<longleftrightarrow> (\<exists>e. m i = Some e \<and> now < e)"
  by (auto simp: dom_def)

interpretation memory: evicting_spent_set MemorySpentSet_contains MemorySpentSet_try_spend memory_live
    "\<lambda>s. dom (spent_inner s)"
proof unfold_locales
  note defs = MemorySpentSet_contains_def MemorySpentSet_try_spend_def memory_live_def Let_def
  show "fst (MemorySpentSet_contains s i now) \<longleftrightarrow> i \<in> memory_live s now" for s i now
    by (auto simp: defs)
  show "memory_live s (max now t) \<subseteq> memory_live (snd (MemorySpentSet_contains s i now)) t" for s i now t
    by (auto simp: defs)
  show "memory_live (snd (MemorySpentSet_contains s i now)) t \<subseteq> memory_live s t" for s i now t
    by (auto simp: defs)
  show "fst (MemorySpentSet_try_spend s i e now) \<longleftrightarrow> i \<notin> memory_live s now" for s i e now
    by (auto simp: defs evict_expired_None split: option.splits)
  show "memory_live s (max now t) \<subseteq> memory_live (snd (MemorySpentSet_try_spend s i e now)) t" for s i e now t
    by (auto simp: defs evict_expired_None split: option.splits)
  show "i \<in> memory_live (snd (MemorySpentSet_try_spend s i e now)) t"
    if "i \<notin> memory_live s now" "t < e" for s i e now t
    using that by (auto simp: defs evict_expired_None split: option.splits)
  show "memory_live (snd (MemorySpentSet_try_spend s i e now)) t \<subseteq>
      (if i \<notin> memory_live s now \<and> t < e then insert i (memory_live s t) else memory_live s t)" for s i e now t
    by (auto simp: defs evict_expired_None split: option.splits if_splits)
  show "memory_live s t \<subseteq> dom (spent_inner s)" for s t
    by (auto simp: defs)
  show "dom (spent_inner (snd (MemorySpentSet_contains s i now))) \<subseteq> memory_live s now" for s i now
    by (auto simp: defs)
  show "dom (spent_inner (snd (MemorySpentSet_try_spend s i e now))) \<subseteq> insert i (memory_live s now)" for s i e now
    by (auto simp: defs split: option.splits if_splits)
qed

text \<open>
  The first of the two calls decides nothing the second would not: looking and spending are one spend, so
  it does not matter what other verifications do to the set between the two.
\<close>

lemma memory_consume_is_spend: "memory.consume s i e now = MemorySpentSet_try_spend s i e now"
proof -
  have "evict_expired (evict_expired m now) now = evict_expired m now" for m
    by (auto simp: evict_expired_def fun_eq_iff split: option.split)
  then show ?thesis
    by (cases "evict_expired (spent_inner s) now i")
      (simp_all add: memory.consume_def MemorySpentSet_contains_def MemorySpentSet_try_spend_def Let_def
        del: evict_expired_Some)
qed

text \<open>
  The spent set stays small: right after any check or insertion every entry it holds expires
  in the future, so what it holds is bounded by the tokens that are still valid, and an id is
  refused exactly while an entry for it is still alive.
\<close>

theorem spent_set_holds_live_entries_only:
  "(\<forall>j e. spent_inner (snd (MemorySpentSet_contains s i now)) j = Some e \<longrightarrow> now < e) \<and>
   (now < exp \<longrightarrow>
      (\<forall>j e. spent_inner (snd (MemorySpentSet_try_spend s i exp now)) j = Some e \<longrightarrow> now < e)) \<and>
   (fst (MemorySpentSet_try_spend s i exp now) \<longleftrightarrow>
      \<not> (\<exists>e. spent_inner s i = Some e \<and> now < e))"
  using memory.spend_answer [of s i exp now]
  by (auto simp: MemorySpentSet_contains_def MemorySpentSet_try_spend_def Let_def memory_live_def
      split: option.splits if_splits)

theorem spent_set_holds_live_entries_only_witness:
  "spent_inner (snd (MemorySpentSet_try_spend \<lparr>spent_inner = [[1] \<mapsto> 5]\<rparr> [2] 20 10)) [1] = None"
proof (cases "spent_inner (snd (MemorySpentSet_try_spend \<lparr>spent_inner = [[1] \<mapsto> 5]\<rparr> [2] 20 10)) [1]")
  case (Some e)
  have "spent_inner (snd (MemorySpentSet_try_spend \<lparr>spent_inner = [[1] \<mapsto> 5]\<rparr> [2] 20 10)) [1] = Some e
      \<longrightarrow> e = 5"
    by (simp add: MemorySpentSet_try_spend_def Let_def evict_expired_def)
  moreover have "10 < e"
    using spent_set_holds_live_entries_only [of "\<lparr>spent_inner = [[1] \<mapsto> 5]\<rparr>" "[2]" 10 20] Some
    by simp
  ultimately show ?thesis using Some by simp
qed

end
