(* ===== verification/Policy.thy ===== *)
theory Policy
  imports Frame_Codec Spent_Set
begin

text \<open>
  The answering policy, src/crates/uat-policy/src/lib.rs: allowlist, Biscuit tokens, one-shot
  tokens. The Biscuit library and the base64 decoder are third-party: \<open>biscuit_lib\<close> holds the
  operations the code calls. \<open>UNIX_EPOCH + Duration::from_secs(ts)\<close> panics past the range of
  \<open>SystemTime\<close>, so what verifies a token returns or panics. The spent set is a field of the
  policy (an \<open>Arc\<close> to shared state), so every operation that may spend returns the policy.
\<close>

section \<open>Data\<close>

datatype auth_error =
    AuthError_Denied node_id
  | AuthError_TokenUnauthorized
  | AuthError_NotSubmit
  | AuthError_NotHeaderOnly

datatype auth_rule = AuthRule_Allowlist | AuthRule_Token biscuit_id

datatype 'a returns = Panics | Returns 'a

definition hex_char :: "u8 \<Rightarrow> char" where
  "hex_char n = ''0123456789abcdef'' ! unat n"

fun bytes_to_hex :: "bytes \<Rightarrow> string" where
  "bytes_to_hex [] = []"
| "bytes_to_hex (b # bs) = hex_char (drop_bit 4 b) # hex_char (b AND 0xf) # bytes_to_hex bs"

text \<open>The terms of a Biscuit fact the code tells apart, and the five queries it makes.\<close>

datatype biscuit_term =
  Term_Bytes bytes | Term_Date u64 | Term_Integer "64 word" | Term_Str string | Term_Other

type_synonym fact = "biscuit_term list"

datatype biscuit_query =
  Query_callee | Query_expires | Query_max_deadline_ms | Query_content_type | Query_one_shot

record ('pk, 'tok, 'az) biscuit_lib =
  base64_decode :: "bytes \<Rightarrow> bytes option"
  biscuit_from :: "bytes \<Rightarrow> (u32 option \<Rightarrow> 'pk option) \<Rightarrow> 'tok option"
  authorizer_build :: "'tok \<Rightarrow> 'az option"
  authorizer_authorize :: "'az \<Rightarrow> 'az option"
  authorizer_query_all :: "'az \<Rightarrow> biscuit_query \<Rightarrow> fact list option"
  revocation_identifiers :: "'tok \<Rightarrow> bytes list"

text \<open>The spent set behind \<open>Arc<dyn SpentSet>\<close>, as the operations of the trait.\<close>

record 's spent_ops =
  ops_contains :: "'s \<Rightarrow> biscuit_id \<Rightarrow> system_time \<Rightarrow> bool \<times> 's"
  ops_try_spend :: "'s \<Rightarrow> biscuit_id \<Rightarrow> system_time \<Rightarrow> system_time \<Rightarrow> bool \<times> 's"

definition memory_ops :: "memory_spent_set spent_ops" where
  "memory_ops =
     \<lparr>ops_contains = MemorySpentSet_contains, ops_try_spend = MemorySpentSet_try_spend\<rparr>"

record ('pk, 's) policy =
  policy_allowlist :: "node_id set"
  policy_root_keys :: "'pk list"
  policy_self_id :: "node_id option"
  policy_spent :: 's

definition Policy_empty :: "('pk, memory_spent_set) policy" where
  "Policy_empty =
     \<lparr>policy_allowlist = {}, policy_root_keys = [], policy_self_id = None,
      policy_spent = MemorySpentSet_new\<rparr>"

definition Policy_allow :: "node_id \<Rightarrow> ('pk, memory_spent_set) policy" where
  "Policy_allow peer =
     \<lparr>policy_allowlist = {peer}, policy_root_keys = [], policy_self_id = None,
      policy_spent = MemorySpentSet_new\<rparr>"

definition Policy_allow_many :: "node_id list \<Rightarrow> ('pk, memory_spent_set) policy" where
  "Policy_allow_many peers =
     \<lparr>policy_allowlist = set peers, policy_root_keys = [], policy_self_id = None,
      policy_spent = MemorySpentSet_new\<rparr>"

definition with_biscuit_roots :: "('pk, 's) policy \<Rightarrow> node_id \<Rightarrow> 'pk list \<Rightarrow> ('pk, 's) policy" where
  "with_biscuit_roots p self_id roots =
     p\<lparr>policy_self_id := Some self_id, policy_root_keys := roots\<rparr>"

definition with_spent_set :: "('pk, 's) policy \<Rightarrow> 't \<Rightarrow> ('pk, 't) policy" where
  "with_spent_set p spent =
     \<lparr>policy_allowlist = policy_allowlist p, policy_root_keys = policy_root_keys p,
      policy_self_id = policy_self_id p, policy_spent = spent\<rparr>"

definition Policy_insert :: "('pk, 's) policy \<Rightarrow> node_id \<Rightarrow> ('pk, 's) policy" where
  "Policy_insert p peer = p\<lparr>policy_allowlist := insert peer (policy_allowlist p)\<rparr>"

definition Policy_contains :: "('pk, 's) policy \<Rightarrow> node_id \<Rightarrow> bool" where
  "Policy_contains p peer \<longleftrightarrow> peer \<in> policy_allowlist p"

definition has_biscuit_roots :: "('pk, 's) policy \<Rightarrow> bool" where
  "has_biscuit_roots p \<longleftrightarrow> policy_root_keys p \<noteq> []"

section \<open>Headers and authorized submits\<close>

datatype unverified_submit = UnverifiedSubmit (unverified_message: message)

definition UnverifiedSubmit_from_header :: "message \<Rightarrow> (unverified_submit, auth_error) result" where
  "UnverifiedSubmit_from_header msg =
     (case msg of
        Message_Submit _ _ _ _ body \<Rightarrow>
          if body = [] then Ok (UnverifiedSubmit msg) else Err AuthError_NotHeaderOnly
      | _ \<Rightarrow> Err AuthError_NotSubmit)"

record authorized_submit =
  as_rule :: auth_rule
  as_message :: message

text \<open>The accessors; \<open>None\<close> is the \<open>unreachable!\<close> of the source.\<close>

definition as_with_body :: "authorized_submit \<Rightarrow> bytes \<Rightarrow> authorized_submit" where
  "as_with_body a body =
     (case as_message a of
        Message_Submit t d c cr _ \<Rightarrow> a\<lparr>as_message := Message_Submit t d c cr body\<rparr>
      | _ \<Rightarrow> a)"

definition as_task :: "authorized_submit \<Rightarrow> task_id option" where
  "as_task a = (case as_message a of Message_Submit t _ _ _ _ \<Rightarrow> Some t | _ \<Rightarrow> None)"

definition as_deadline :: "authorized_submit \<Rightarrow> deadline option" where
  "as_deadline a = (case as_message a of Message_Submit _ d _ _ _ \<Rightarrow> Some d | _ \<Rightarrow> None)"

definition as_content_type :: "authorized_submit \<Rightarrow> content_type option" where
  "as_content_type a = (case as_message a of Message_Submit _ _ c _ _ \<Rightarrow> Some c | _ \<Rightarrow> None)"

definition as_credential :: "authorized_submit \<Rightarrow> credential option option" where
  "as_credential a = (case as_message a of Message_Submit _ _ _ cr _ \<Rightarrow> Some cr | _ \<Rightarrow> None)"

definition as_body :: "authorized_submit \<Rightarrow> bytes" where
  "as_body a = (case as_message a of Message_Submit _ _ _ _ body \<Rightarrow> body | _ \<Rightarrow> [])"

section \<open>The token checks\<close>

fun single_term :: "fact \<Rightarrow> (biscuit_term, auth_error) result" where
  "single_term [t] = Ok t"
| "single_term _ = Err AuthError_TokenUnauthorized"

definition choose_root :: "'pk list \<Rightarrow> u32 option \<Rightarrow> 'pk option" where
  "choose_root roots key_id =
     (case key_id of
        Some i \<Rightarrow> if unat i < length roots then Some (roots ! unat i) else None
      | None \<Rightarrow>
          if length roots = 1 then Some (roots ! 0)
          else (case roots of [] \<Rightarrow> None | r # _ \<Rightarrow> Some r))"

definition biscuit_id_from_token :: "bytes list \<Rightarrow> (biscuit_id, auth_error) result" where
  "biscuit_id_from_token ids =
     (case ids of
        [] \<Rightarrow> Err AuthError_TokenUnauthorized
      | i # _ \<Rightarrow> let n = min (length i) 32 in Ok (take n i @ replicate (32 - n) 0))"

fun check_callees :: "bytes \<Rightarrow> fact list \<Rightarrow> (unit, auth_error) result" where
  "check_callees self_pk [] = Ok ()"
| "check_callees self_pk (f # fs) =
     (case single_term f of
        Err e \<Rightarrow> Err e
      | Ok (Term_Bytes pk) \<Rightarrow>
          if pk \<noteq> self_pk then Err AuthError_TokenUnauthorized else check_callees self_pk fs
      | Ok _ \<Rightarrow> Err AuthError_TokenUnauthorized)"

text \<open>\<open>SystemTime\<close> holds its seconds in an \<open>i64\<close>: the addition panics past it.\<close>

definition epoch_plus_secs :: "u64 \<Rightarrow> system_time option" where
  "epoch_plus_secs ts = (if unat ts < 2 ^ 63 then Some (int (unat ts) * 10 ^ 9) else None)"

definition now_secs_of :: "system_time \<Rightarrow> nat" where
  "now_secs_of now = (if now < 0 then 0 else nat (now div 10 ^ 9))"

fun scan_expires ::
  "nat \<Rightarrow> system_time option \<Rightarrow> fact list \<Rightarrow> (system_time option, auth_error) result returns" where
  "scan_expires now_secs earliest [] = Returns (Ok earliest)"
| "scan_expires now_secs earliest (f # fs) =
     (case single_term f of
        Err e \<Rightarrow> Returns (Err e)
      | Ok (Term_Date ts) \<Rightarrow>
          if unat ts \<le> now_secs then Returns (Err AuthError_TokenUnauthorized)
          else (case epoch_plus_secs ts of
                  None \<Rightarrow> Panics
                | Some exp \<Rightarrow>
                    scan_expires now_secs
                      (Some (case earliest of
                               Some prev \<Rightarrow> if prev \<le> exp then prev else exp
                             | None \<Rightarrow> exp)) fs)
      | Ok _ \<Rightarrow> Returns (Err AuthError_TokenUnauthorized))"

fun check_max_deadlines :: "u32 \<Rightarrow> fact list \<Rightarrow> (unit, auth_error) result" where
  "check_max_deadlines ms [] = Ok ()"
| "check_max_deadlines ms (f # fs) =
     (case single_term f of
        Err e \<Rightarrow> Err e
      | Ok (Term_Integer n) \<Rightarrow>
          if sint n < 0 \<or> unat ms > unat n then Err AuthError_TokenUnauthorized
          else check_max_deadlines ms fs
      | Ok _ \<Rightarrow> Err AuthError_TokenUnauthorized)"

fun check_content_types :: "string \<Rightarrow> fact list \<Rightarrow> (unit, auth_error) result" where
  "check_content_types ct [] = Ok ()"
| "check_content_types ct (f # fs) =
     (case single_term f of
        Err e \<Rightarrow> Err e
      | Ok (Term_Str s) \<Rightarrow>
          if s \<noteq> ct then Err AuthError_TokenUnauthorized else check_content_types ct fs
      | Ok _ \<Rightarrow> Err AuthError_TokenUnauthorized)"

text \<open>The \<open>?\<close> operator where the code may also panic.\<close>

definition ret_then ::
  "('a, 'e) result returns \<Rightarrow> ('a \<Rightarrow> ('b, 'e) result returns) \<Rightarrow> ('b, 'e) result returns" where
  "ret_then r f =
     (case r of Panics \<Rightarrow> Panics | Returns (Err e) \<Rightarrow> Returns (Err e) | Returns (Ok x) \<Rightarrow> f x)"

abbreviation unauthorized_or :: "'a option \<Rightarrow> ('a, auth_error) result returns" where
  "unauthorized_or x \<equiv> Returns (ok_or AuthError_TokenUnauthorized x)"

text \<open>Everything \<open>verify_biscuit_credential\<close> establishes before it touches the spent set: the
  token's id, its earliest expiry, and whether it is one-shot.\<close>

definition token_checks ::
  "('pk, 'tok, 'az) biscuit_lib \<Rightarrow> ('pk, 's) policy \<Rightarrow> credential \<Rightarrow> deadline \<Rightarrow> content_type
     \<Rightarrow> system_time \<Rightarrow> (biscuit_id \<times> system_time \<times> bool, auth_error) result returns" where
  "token_checks lib p cred dl ct now =
     (if policy_root_keys p = [] then Returns (Err AuthError_TokenUnauthorized) else
      ret_then (unauthorized_or (policy_self_id p)) (\<lambda>self_id.
      ret_then (Returns (map_err (\<lambda>_. AuthError_TokenUnauthorized)
        (Credential_decode (base64_decode lib) cred))) (\<lambda>raw.
      ret_then (unauthorized_or (biscuit_from lib raw (choose_root (policy_root_keys p)))) (\<lambda>biscuit.
      ret_then (unauthorized_or (authorizer_build lib biscuit)) (\<lambda>authorizer.
      ret_then (unauthorized_or (authorizer_authorize lib authorizer)) (\<lambda>authorizer.
      ret_then (unauthorized_or (authorizer_query_all lib authorizer Query_callee)) (\<lambda>callees.
      if callees = [] then Returns (Err AuthError_TokenUnauthorized) else
      ret_then (Returns (check_callees (NodeId_as_bytes self_id) callees)) (\<lambda>_.
      ret_then (unauthorized_or (authorizer_query_all lib authorizer Query_expires)) (\<lambda>expires.
      if expires = [] then Returns (Err AuthError_TokenUnauthorized) else
      ret_then (scan_expires (now_secs_of now) None expires) (\<lambda>earliest.
      ret_then (unauthorized_or earliest) (\<lambda>earliest_expires.
      ret_then (unauthorized_or (authorizer_query_all lib authorizer Query_max_deadline_ms))
        (\<lambda>max_deadlines.
      ret_then (Returns (check_max_deadlines (Deadline_as_u32 dl) max_deadlines)) (\<lambda>_.
      ret_then (unauthorized_or (authorizer_query_all lib authorizer Query_content_type))
        (\<lambda>content_types.
      ret_then (Returns (check_content_types (ContentType_as_str ct) content_types)) (\<lambda>_.
      ret_then (Returns (biscuit_id_from_token (revocation_identifiers lib biscuit)))
        (\<lambda>biscuit_id.
      ret_then (unauthorized_or (authorizer_query_all lib authorizer Query_one_shot)) (\<lambda>oneshot.
      Returns (Ok (biscuit_id, earliest_expires, oneshot \<noteq> [])))))))))))))))))))"

definition verify_biscuit_credential ::
  "('pk, 'tok, 'az) biscuit_lib \<Rightarrow> 's spent_ops \<Rightarrow> ('pk, 's) policy \<Rightarrow> credential \<Rightarrow> deadline
     \<Rightarrow> content_type \<Rightarrow> system_time \<Rightarrow> (biscuit_id, auth_error) result returns \<times> ('pk, 's) policy" where
  "verify_biscuit_credential lib ops p cred dl ct now =
     (case token_checks lib p cred dl ct now of
        Panics \<Rightarrow> (Panics, p)
      | Returns (Err e) \<Rightarrow> (Returns (Err e), p)
      | Returns (Ok (biscuit_id, earliest_expires, oneshot)) \<Rightarrow>
          if \<not> oneshot then (Returns (Ok biscuit_id), p)
          else (case ops_contains ops (policy_spent p) biscuit_id now of
                  (True, s) \<Rightarrow> (Returns (Err AuthError_TokenUnauthorized), p\<lparr>policy_spent := s\<rparr>)
                | (False, s) \<Rightarrow>
                    (case ops_try_spend ops s biscuit_id earliest_expires now of
                       (False, s) \<Rightarrow>
                         (Returns (Err AuthError_TokenUnauthorized), p\<lparr>policy_spent := s\<rparr>)
                     | (True, s) \<Rightarrow> (Returns (Ok biscuit_id), p\<lparr>policy_spent := s\<rparr>))))"

definition UnverifiedSubmit_verify ::
  "('pk, 'tok, 'az) biscuit_lib \<Rightarrow> 's spent_ops \<Rightarrow> unverified_submit \<Rightarrow> ('pk, 's) policy \<Rightarrow> node_id
     \<Rightarrow> system_time \<Rightarrow> (authorized_submit, auth_error) result returns \<times> ('pk, 's) policy" where
  "UnverifiedSubmit_verify lib ops u p peer now =
     (case unverified_message u of
        Message_Submit _ dl ct credential _ \<Rightarrow>
          if Policy_contains p peer
          then (Returns (Ok \<lparr>as_rule = AuthRule_Allowlist, as_message = unverified_message u\<rparr>), p)
          else (case credential of
                  Some cred \<Rightarrow>
                    (case verify_biscuit_credential lib ops p cred dl ct now of
                       (r, p) \<Rightarrow>
                         (ret_then r (\<lambda>biscuit_id. Returns (Ok
                            \<lparr>as_rule = AuthRule_Token biscuit_id,
                             as_message = unverified_message u\<rparr>)), p))
                | None \<Rightarrow> (Returns (Err (AuthError_Denied peer)), p))
      | _ \<Rightarrow> (Returns (Err AuthError_NotSubmit), p))"

text \<open>\<open>PolicySubmitAuth\<close>, the adapter for \<open>decode\<close>: \<open>None\<close> where the verification panics.\<close>

definition PolicySubmitAuth_authorize_submit ::
  "('pk, 'tok, 'az) biscuit_lib \<Rightarrow> 's spent_ops \<Rightarrow> node_id \<Rightarrow> system_time \<Rightarrow> ('pk, 's) policy
     \<Rightarrow> message \<Rightarrow> bool option \<times> ('pk, 's) policy" where
  "PolicySubmitAuth_authorize_submit lib ops peer now p header =
     (case UnverifiedSubmit_from_header header of
        Ok unverified \<Rightarrow>
          (case UnverifiedSubmit_verify lib ops unverified p peer now of
             (Panics, p) \<Rightarrow> (None, p)
           | (Returns r, p) \<Rightarrow> (Some (is_ok r), p))
      | Err _ \<Rightarrow> (Some False, p))"

section \<open>What a token must carry\<close>

text \<open>
  The table of the module documentation, as one predicate: the token verifies under a configured
  root and carries \<open>callee\<close> facts for this node only, at least one \<open>expires\<close> and all of them in
  the future, no \<open>max_deadline_ms\<close> below the deadline asked for, and no other content type.
\<close>

definition fact_date :: "fact \<Rightarrow> system_time" where
  "fact_date f = (case f of [Term_Date ts] \<Rightarrow> int (unat ts) * 10 ^ 9 | _ \<Rightarrow> 0)"

lemma fact_date_simp [simp]: "fact_date [Term_Date ts] = int (unat ts) * 10 ^ 9"
  by (simp add: fact_date_def)

definition date_fact_ok :: "nat \<Rightarrow> fact \<Rightarrow> bool" where
  "date_fact_ok now_secs f \<longleftrightarrow>
     (\<exists>ts. f = [Term_Date ts] \<and> now_secs < unat ts \<and> unat ts < 2 ^ 63)"

definition token_grants ::
  "('pk, 'tok, 'az) biscuit_lib \<Rightarrow> ('pk, 's) policy \<Rightarrow> credential \<Rightarrow> deadline \<Rightarrow> content_type
     \<Rightarrow> system_time \<Rightarrow> biscuit_id \<Rightarrow> system_time \<Rightarrow> bool \<Rightarrow> bool" where
  "token_grants lib p cred dl ct now i exp os \<longleftrightarrow>
     policy_root_keys p \<noteq> [] \<and>
     (\<exists>me raw tok az0 az callees expires dls cts oss r ids.
        policy_self_id p = Some me \<and>
        Credential_decode (base64_decode lib) cred = Ok raw \<and>
        biscuit_from lib raw (choose_root (policy_root_keys p)) = Some tok \<and>
        authorizer_build lib tok = Some az0 \<and> authorizer_authorize lib az0 = Some az \<and>
        authorizer_query_all lib az Query_callee = Some callees \<and> callees \<noteq> [] \<and>
        (\<forall>f\<in>set callees. f = [Term_Bytes (NodeId_as_bytes me)]) \<and>
        authorizer_query_all lib az Query_expires = Some expires \<and> expires \<noteq> [] \<and>
        (\<forall>f\<in>set expires. date_fact_ok (now_secs_of now) f) \<and>
        exp = Min (fact_date ` set expires) \<and>
        authorizer_query_all lib az Query_max_deadline_ms = Some dls \<and>
        (\<forall>f\<in>set dls. \<exists>n. f = [Term_Integer n] \<and> 0 \<le> sint n \<and>
           unat (Deadline_as_u32 dl) \<le> unat n) \<and>
        authorizer_query_all lib az Query_content_type = Some cts \<and>
        (\<forall>f\<in>set cts. f = [Term_Str (ContentType_as_str ct)]) \<and>
        revocation_identifiers lib tok = r # ids \<and> i = take 32 r @ replicate (32 - length r) 0 \<and>
        authorizer_query_all lib az Query_one_shot = Some oss \<and> (os \<longleftrightarrow> oss \<noteq> []))"

lemma ret_then_simps [simp]:
  "ret_then Panics f = Panics" "ret_then (Returns (Err e)) f = Returns (Err e)"
  "ret_then (Returns (Ok x)) f = f x"
  by (simp_all add: ret_then_def)

lemma ret_then_Ok_iff:
  "ret_then r f = Returns (Ok y) \<longleftrightarrow> (\<exists>x. r = Returns (Ok x) \<and> f x = Returns (Ok y))"
  by (cases r; cases "case r of Returns z \<Rightarrow> z") (auto simp: ret_then_def split: sum.splits)

lemma single_term_Ok_iff [simp]: "single_term f = Ok t \<longleftrightarrow> f = [t]"
  by (cases f rule: single_term.cases) auto

lemma check_callees_Ok_iff:
  "check_callees pk fs = Ok () \<longleftrightarrow> (\<forall>f\<in>set fs. f = [Term_Bytes pk])"
  by (induction fs) (auto split: sum.splits biscuit_term.splits if_splits)

lemma check_content_types_Ok_iff:
  "check_content_types ct fs = Ok () \<longleftrightarrow> (\<forall>f\<in>set fs. f = [Term_Str ct])"
  by (induction fs) (auto split: sum.splits biscuit_term.splits if_splits)

lemma check_max_deadlines_Ok_iff:
  "check_max_deadlines ms fs = Ok () \<longleftrightarrow>
     (\<forall>f\<in>set fs. \<exists>n. f = [Term_Integer n] \<and> 0 \<le> sint n \<and> unat ms \<le> unat n)"
  by (induction fs) (auto split: sum.splits biscuit_term.splits if_splits)

lemma scan_expires_Cons_Ok:
  "scan_expires n acc (f # fs) = Returns (Ok r) \<longleftrightarrow>
     date_fact_ok n f \<and>
     scan_expires n (Some (case acc of Some a \<Rightarrow> min a (fact_date f) | None \<Rightarrow> fact_date f)) fs =
       Returns (Ok r)"
  by (auto simp: epoch_plus_secs_def min_def date_fact_ok_def
      split: sum.splits biscuit_term.splits if_splits option.splits)

lemma scan_expires_Some:
  "scan_expires n (Some a) fs = Returns (Ok r) \<longleftrightarrow>
     (\<forall>f\<in>set fs. date_fact_ok n f) \<and> r = Some (Min (insert a (fact_date ` set fs)))"
proof (induction fs arbitrary: a)
  case Nil
  then show ?case by auto
next
  case (Cons f fs)
  have "Min (insert (min a x) X) = Min (insert a (insert x X))" if "finite X" for x :: int and X
    using that by (cases "X = {}") (simp_all add: min.assoc)
  then have m: "Min (insert (min a (fact_date f)) (fact_date ` set fs)) =
      Min (insert a (fact_date ` set (f # fs)))" by simp
  show ?case
    unfolding scan_expires_Cons_Ok option.case Cons.IH m by simp
qed

lemma scan_expires_None:
  assumes "fs \<noteq> []"
  shows "scan_expires n None fs = Returns (Ok r) \<longleftrightarrow>
     (\<forall>f\<in>set fs. date_fact_ok n f) \<and> r = Some (Min (fact_date ` set fs))"
proof -
  obtain f gs where fs: "fs = f # gs" using assms by (cases fs) auto
  show ?thesis
    unfolding fs scan_expires_Cons_Ok option.case scan_expires_Some by simp
qed

lemma biscuit_id_Ok_iff:
  "biscuit_id_from_token ids = Ok i \<longleftrightarrow>
     (\<exists>r rs. ids = r # rs \<and> i = take 32 r @ replicate (32 - length r) 0)"
  by (cases ids) (auto simp: biscuit_id_from_token_def Let_def min_def)

lemma if_Err_Ok_iff:
  "(if c then Returns (Err e) else r) = Returns (Ok y) \<longleftrightarrow> \<not> c \<and> r = Returns (Ok y)"
  by simp

lemma token_checks_iff:
  "token_checks lib p cred dl ct now = Returns (Ok (i, e, os)) \<longleftrightarrow>
     token_grants lib p cred dl ct now i e os"
  unfolding token_checks_def token_grants_def if_Err_Ok_iff
  by (auto simp: ret_then_Ok_iff if_Err_Ok_iff check_callees_Ok_iff scan_expires_None
      check_max_deadlines_Ok_iff check_content_types_Ok_iff biscuit_id_Ok_iff)

section \<open>Verification against any spent set\<close>

context spent_set
begin

definition my_ops :: "'s spent_ops" where
  "my_ops = \<lparr>ops_contains = contains, ops_try_spend = try_spend\<rparr>"

lemma verify_one_shot:
  assumes "token_checks lib p cred dl ct now = Returns (Ok (i, e, True))"
  shows "verify_biscuit_credential lib my_ops p cred dl ct now =
    (case consume (policy_spent p) i e now of
       (b, s) \<Rightarrow> (Returns (if b then Ok i else Err AuthError_TokenUnauthorized),
                  p\<lparr>policy_spent := s\<rparr>))"
  using assms
  by (auto simp: verify_biscuit_credential_def consume_def my_ops_def split: prod.splits bool.splits)

lemma verify_reusable:
  assumes "token_checks lib p cred dl ct now = r" and "\<And>i e. r \<noteq> Returns (Ok (i, e, True))"
  shows "snd (verify_biscuit_credential lib my_ops p cred dl ct now) = p"
    and "fst (verify_biscuit_credential lib my_ops p cred dl ct now) = Returns (Ok j) \<longleftrightarrow>
      (\<exists>e. r = Returns (Ok (j, e, False)))"
  using assms
  by (auto simp: verify_biscuit_credential_def split: returns.splits sum.splits prod.splits if_splits)

lemma verify_credential_Ok:
  "fst (verify_biscuit_credential lib my_ops p cred dl ct now) = Returns (Ok i) \<longleftrightarrow>
     (\<exists>e os. token_grants lib p cred dl ct now i e os \<and> (os \<longrightarrow> i \<notin> live (policy_spent p) now))"
proof (cases "\<exists>i e. token_checks lib p cred dl ct now = Returns (Ok (i, e, True))")
  case True
  then obtain i' e' where t: "token_checks lib p cred dl ct now = Returns (Ok (i', e', True))" by blast
  then show ?thesis
    using verify_one_shot [OF t] consume_answer [of "policy_spent p" i' e' now]
    by (auto simp flip: token_checks_iff split: prod.splits if_splits)
next
  case False
  then show ?thesis
    using verify_reusable(2) [OF refl, of lib p cred dl ct now i]
    by (auto simp flip: token_checks_iff)
qed

lemma verify_credential_policy:
  assumes "verify_biscuit_credential lib my_ops p cred dl ct now = (r, p')"
  shows "policy_allowlist p' = policy_allowlist p" "policy_root_keys p' = policy_root_keys p"
    and "policy_self_id p' = policy_self_id p"
    and "live (policy_spent p) (max now t) \<subseteq> live (policy_spent p') t"
    and "r = Returns (Ok i) \<Longrightarrow> token_grants lib p cred dl ct now i e True \<Longrightarrow>
      t < e \<Longrightarrow> i \<in> live (policy_spent p') t"
proof -
  have "policy_allowlist p' = policy_allowlist p \<and> policy_root_keys p' = policy_root_keys p \<and>
    policy_self_id p' = policy_self_id p \<and>
    live (policy_spent p) (max now t) \<subseteq> live (policy_spent p') t \<and>
    (r = Returns (Ok i) \<longrightarrow> token_grants lib p cred dl ct now i e True \<longrightarrow>
      t < e \<longrightarrow> i \<in> live (policy_spent p') t)"
  proof (cases "\<exists>i e. token_checks lib p cred dl ct now = Returns (Ok (i, e, True))")
    case True
    then obtain i' e' where tk: "token_checks lib p cred dl ct now = Returns (Ok (i', e', True))" by blast
    obtain b s where c: "consume (policy_spent p) i' e' now = (b, s)" by fastforce
    have p': "p' = p\<lparr>policy_spent := s\<rparr>"
      and r: "r = Returns (if b then Ok i' else Err AuthError_TokenUnauthorized)"
      using verify_one_shot [OF tk] assms c by simp_all
    have mono: "live (policy_spent p) (max now t) \<subseteq> live s t"
      using consume_evicts [of "policy_spent p" now t i' e'] c by simp
    have "b \<longrightarrow> t < e' \<longrightarrow> i' \<in> live s t"
      using consume_spent [of "policy_spent p" i' e' now t] c by simp
    then show ?thesis using p' r mono tk by (auto simp flip: token_checks_iff)
  next
    case False
    then have "p' = p" using verify_reusable(1) [OF refl, of lib p cred dl ct now] assms by auto
    then show ?thesis using False live_antimono [of t "max now t" "policy_spent p"]
      by (auto simp flip: token_checks_iff)
  qed
  then show "policy_allowlist p' = policy_allowlist p" "policy_root_keys p' = policy_root_keys p"
    "policy_self_id p' = policy_self_id p"
    "live (policy_spent p) (max now t) \<subseteq> live (policy_spent p') t"
    "r = Returns (Ok i) \<Longrightarrow> token_grants lib p cred dl ct now i e True \<Longrightarrow>
      t < e \<Longrightarrow> i \<in> live (policy_spent p') t"
    by auto
qed

end

lemma memory_my_ops: "memory.my_ops = memory_ops"
  by (simp add: memory.my_ops_def memory_ops_def)

text \<open>
  A concrete library for the witnesses: a token is its list of expiry dates, the credentials
  \<open>A\<close>, \<open>B\<close> (an attenuation of \<open>A\<close>, with the same revocation identifier), \<open>C\<close> and \<open>D\<close> (with an
  identifier of its own) decode to one-shot tokens for the node \<open>[7]\<close> under the root key \<open>0\<close>.
\<close>

fun sample_facts :: "u64 list \<Rightarrow> biscuit_query \<Rightarrow> fact list" where
  "sample_facts dates Query_callee = [[Term_Bytes [7]]]"
| "sample_facts dates Query_expires = map (\<lambda>ts. [Term_Date ts]) dates"
| "sample_facts dates Query_one_shot = [[Term_Str ''yes'']]"
| "sample_facts dates _ = []"

definition sample_lib :: "(nat, u64 list, u64 list) biscuit_lib" where
  "sample_lib =
     \<lparr>base64_decode = Some,
      biscuit_from = (\<lambda>raw pick. if pick None \<noteq> Some 0 then None
        else if raw = [65] then Some [100] else if raw = [66] then Some [100, 10]
        else if raw = [67] then Some [0x8000000000000000]
        else if raw = [68] then Some [200] else None),
      authorizer_build = Some, authorizer_authorize = Some,
      authorizer_query_all = (\<lambda>az q. Some (sample_facts az q)),
      revocation_identifiers = (\<lambda>tok. if tok = [200] then [[8]] else [[9]])\<rparr>"

definition sample_policy :: "(nat, memory_spent_set) policy" where
  "sample_policy = with_biscuit_roots Policy_empty (NodeId [7]) [0]"

definition sample_id :: biscuit_id where "sample_id = 9 # replicate 31 0"

definition sample_header :: "string \<Rightarrow> message" where
  "sample_header c = Message_Submit (TaskId 1) (Deadline 1000) (ContentType ''a'') (Some (Credential c)) []"

lemma sample_policy_simps [simp]:
  "policy_root_keys sample_policy = [0]" "policy_self_id sample_policy = Some (NodeId [7])"
  "policy_allowlist sample_policy = {}" "policy_spent sample_policy = MemorySpentSet_new"
  by (simp_all add: sample_policy_def with_biscuit_roots_def Policy_empty_def)

lemma as_bytes_ABC:
  "as_bytes ''A'' = [65]" "as_bytes ''B'' = [66]" "as_bytes ''C'' = [67]" "as_bytes ''D'' = [68]"
  by (simp_all add: as_bytes_def of_char_def)

lemma now_secs_less: "now < int n * 10 ^ 9 \<Longrightarrow> 0 < n \<Longrightarrow> now_secs_of now < n"
proof -
  assume a: "now < int n * 10 ^ 9" and n: "0 < n"
  have "now div 10 ^ 9 < int n"
  proof (rule ccontr)
    assume "\<not> now div 10 ^ 9 < int n"
    then have "int n * 10 ^ 9 \<le> now div 10 ^ 9 * 10 ^ 9" by simp
    moreover have "now div 10 ^ 9 * 10 ^ 9 + now mod 10 ^ 9 = now" by (rule div_mult_mod_eq)
    moreover have "0 \<le> now mod 10 ^ 9" by simp
    ultimately show False using a by linarith
  qed
  with n show ?thesis by (auto simp: now_secs_of_def nat_less_iff)
qed

lemma sample_grants:
  assumes "policy_root_keys p = [0]" and "policy_self_id p = Some (NodeId [7])"
  shows "0 \<le> now \<Longrightarrow> now < 100 * 10 ^ 9 \<Longrightarrow>
      token_grants sample_lib p (Credential ''A'') dl ct now sample_id (100 * 10 ^ 9) True"
    and "0 \<le> now \<Longrightarrow> now < 10 * 10 ^ 9 \<Longrightarrow>
      token_grants sample_lib p (Credential ''B'') dl ct now sample_id (10 * 10 ^ 9) True"
    and "0 \<le> now \<Longrightarrow> now < 200 * 10 ^ 9 \<Longrightarrow>
      token_grants sample_lib p (Credential ''D'') dl ct now (8 # replicate 31 0) (200 * 10 ^ 9) True"
  using assms
  by (simp_all add: token_grants_def sample_lib_def Credential_decode_def as_bytes_ABC
      choose_root_def date_fact_ok_def sample_id_def now_secs_less)

section \<open>The decision table\<close>

text \<open>A failing token is \<open>TokenUnauthorized\<close> whatever check refused it.\<close>

definition unauth_only :: "('a, auth_error) result returns \<Rightarrow> bool" where
  "unauth_only r \<longleftrightarrow> (\<forall>e. r = Returns (Err e) \<longrightarrow> e = AuthError_TokenUnauthorized)"

lemma unauth_only_then:
  "unauth_only r \<Longrightarrow> (\<And>x. unauth_only (f x)) \<Longrightarrow> unauth_only (ret_then r f)"
  unfolding unauth_only_def ret_then_def by (auto split: returns.splits sum.splits)

lemma unauth_only_if: "unauth_only r \<Longrightarrow>
    unauth_only (if c then Returns (Err AuthError_TokenUnauthorized) else r)"
  by (simp add: unauth_only_def)

lemma unauth_only_basic:
  "unauth_only (unauthorized_or x)" "unauth_only (Returns (Ok y))"
  "unauth_only (Returns (map_err (\<lambda>_. AuthError_TokenUnauthorized) z))"
  by (cases x; simp add: unauth_only_def) (cases z; simp add: unauth_only_def)+

lemma single_term_Err: "single_term f = Err e \<Longrightarrow> e = AuthError_TokenUnauthorized"
  by (cases f rule: single_term.cases) auto

lemma check_callees_Err: "check_callees pk fs = Err e \<Longrightarrow> e = AuthError_TokenUnauthorized"
  by (induction fs) (auto split: sum.splits biscuit_term.splits if_splits dest: single_term_Err)

lemma check_content_types_Err:
  "check_content_types c fs = Err e \<Longrightarrow> e = AuthError_TokenUnauthorized"
  by (induction fs) (auto split: sum.splits biscuit_term.splits if_splits dest: single_term_Err)

lemma check_max_deadlines_Err:
  "check_max_deadlines ms fs = Err e \<Longrightarrow> e = AuthError_TokenUnauthorized"
  by (induction fs) (auto split: sum.splits biscuit_term.splits if_splits dest: single_term_Err)

lemma unauth_only_checks:
  "unauth_only (Returns (check_callees pk fs))" "unauth_only (Returns (check_content_types c fs))"
  "unauth_only (Returns (check_max_deadlines ms fs))"
  "unauth_only (Returns (biscuit_id_from_token ids))"
  by (auto simp: unauth_only_def biscuit_id_from_token_def Let_def dest: check_callees_Err
      check_content_types_Err check_max_deadlines_Err split: list.splits)

lemma unauth_only_scan: "unauth_only (scan_expires n acc fs)"
  by (induction fs arbitrary: acc)
    (auto simp: unauth_only_def split: sum.splits biscuit_term.splits option.splits
      dest: single_term_Err)

lemma token_checks_unauth: "unauth_only (token_checks lib p cred dl ct now)"
  unfolding token_checks_def
  by (intro unauth_only_if unauth_only_then unauth_only_basic unauth_only_checks unauth_only_scan)

lemma verify_credential_unauth:
  "unauth_only (fst (verify_biscuit_credential lib ops p cred dl ct now))"
  using token_checks_unauth [of lib p cred dl ct now]
  by (auto simp: verify_biscuit_credential_def unauth_only_def
      split: returns.splits sum.splits prod.splits bool.splits)

text \<open>
  C5: The decision table of the answering policy. A header-only \<open>Submit\<close> is admitted exactly
  when the peer is on the allowlist (then by rule \<open>Allowlist\<close>, whatever credential it carries),
  or when it carries a credential that grants the call (a token that verifies under a configured
  root and satisfies every fact of the table) and is not one-shot or not spent yet (then by rule
  \<open>Token\<close> with that token's id). The admitted value is the header itself.
\<close>

theorem verify_decision:
  "fst (UnverifiedSubmit_verify lib memory_ops (UnverifiedSubmit (Message_Submit t dl ct cr b))
        p peer now) = Returns (Ok a) \<longleftrightarrow>
     as_message a = Message_Submit t dl ct cr b \<and>
     (if Policy_contains p peer then as_rule a = AuthRule_Allowlist
      else (\<exists>cred i e os. cr = Some cred \<and> as_rule a = AuthRule_Token i \<and>
              token_grants lib p cred dl ct now i e os \<and>
              (os \<longrightarrow> i \<notin> memory_live (policy_spent p) now)))"
proof (cases "Policy_contains p peer \<or> cr = None")
  case True
  then show ?thesis by (cases a) (auto simp: UnverifiedSubmit_verify_def)
next
  case False
  then obtain cred where cred: "cr = Some cred" and no: "\<not> Policy_contains p peer" by auto
  obtain r p' where v: "verify_biscuit_credential lib memory_ops p cred dl ct now = (r, p')"
    by fastforce
  have "r = Returns (Ok i) \<longleftrightarrow> (\<exists>e os. token_grants lib p cred dl ct now i e os \<and>
      (os \<longrightarrow> i \<notin> memory_live (policy_spent p) now))" for i
    using memory.verify_credential_Ok [of lib p cred dl ct now i] v by (simp add: memory_my_ops)
  then show ?thesis
    using cred no v by (cases a) (auto simp: UnverifiedSubmit_verify_def ret_then_Ok_iff)
qed

theorem verify_decision_witness:
  "fst (UnverifiedSubmit_verify sample_lib memory_ops
     (UnverifiedSubmit (Message_Submit (TaskId 1) (Deadline 5) (ContentType ''a'') None []))
     (Policy_allow (NodeId [1])) (NodeId [1]) 0) =
   Returns (Ok \<lparr>as_rule = AuthRule_Allowlist,
     as_message = Message_Submit (TaskId 1) (Deadline 5) (ContentType ''a'') None []\<rparr>)"
  using verify_decision [of sample_lib "TaskId 1" "Deadline 5" "ContentType ''a''" None "[]"
      "Policy_allow (NodeId [1])" "NodeId [1]" 0
      "\<lparr>as_rule = AuthRule_Allowlist,
        as_message = Message_Submit (TaskId 1) (Deadline 5) (ContentType ''a'') None []\<rparr>"]
  by (simp add: Policy_allow_def Policy_contains_def)

text \<open>
  Default deny. A peer that is not on the allowlist is refused with \<open>Denied\<close> when it carries
  no credential; with a credential every refusal is \<open>TokenUnauthorized\<close>, whichever check failed;
  a refusal for want of a credential and an admission by the allowlist never touch the spent set;
  and the empty policy admits nobody.
\<close>

theorem default_deny:
  "\<not> Policy_contains p peer \<Longrightarrow>
   (UnverifiedSubmit_verify lib ops (UnverifiedSubmit (Message_Submit t dl ct None b)) p peer now =
      (Returns (Err (AuthError_Denied peer)), p)) \<and>
   (\<forall>cred e. fst (UnverifiedSubmit_verify lib ops
        (UnverifiedSubmit (Message_Submit t dl ct (Some cred) b)) p peer now) = Returns (Err e) \<longrightarrow>
      e = AuthError_TokenUnauthorized) \<and>
   (\<forall>cr a. fst (UnverifiedSubmit_verify lib memory_ops
        (UnverifiedSubmit (Message_Submit t dl ct cr b)) Policy_empty peer now) \<noteq> Returns (Ok a))"
proof (intro conjI allI impI)
  assume no: "\<not> Policy_contains p peer"
  then show "UnverifiedSubmit_verify lib ops (UnverifiedSubmit (Message_Submit t dl ct None b)) p peer now =
      (Returns (Err (AuthError_Denied peer)), p)"
    by (simp add: UnverifiedSubmit_verify_def)
  fix cred e
  assume "fst (UnverifiedSubmit_verify lib ops
        (UnverifiedSubmit (Message_Submit t dl ct (Some cred) b)) p peer now) = Returns (Err e)"
  with no have "unauth_only (fst (verify_biscuit_credential lib ops p cred dl ct now)) \<Longrightarrow>
      e = AuthError_TokenUnauthorized"
    by (auto simp: UnverifiedSubmit_verify_def ret_then_def unauth_only_def
        split: prod.splits returns.splits sum.splits)
  then show "e = AuthError_TokenUnauthorized" using verify_credential_unauth by blast
next
  fix cr a
  show "fst (UnverifiedSubmit_verify lib memory_ops
        (UnverifiedSubmit (Message_Submit t dl ct cr b)) Policy_empty peer now) \<noteq> Returns (Ok a)"
    by (auto simp: UnverifiedSubmit_verify_def verify_biscuit_credential_def token_checks_def
        Policy_empty_def Policy_contains_def split: option.splits)
qed

theorem default_deny_witness:
  "UnverifiedSubmit_verify sample_lib memory_ops (UnverifiedSubmit sample_submit)
     (Policy_allow (NodeId [1])) (NodeId [2]) 0 =
   (Returns (Err (AuthError_Denied (NodeId [2]))), Policy_allow (NodeId [1]))"
  using default_deny [of "Policy_allow (NodeId [1])" "NodeId [2]" sample_lib memory_ops "TaskId 1"
      "Deadline 1000" "ContentType ''text/plain''" "[]" 0]
  by (simp add: Policy_allow_def Policy_contains_def sample_submit_def)

section \<open>A far expiry\<close>

text \<open>
  An \<open>expires\<close> date is a \<open>u64\<close> of seconds. The scan of the dates runs into one past the range of
  \<open>SystemTime\<close> when every fact before it passes and it lies in the future.
\<close>

definition far_date_reached :: "nat \<Rightarrow> fact list \<Rightarrow> bool" where
  "far_date_reached now_secs fs \<longleftrightarrow>
     (\<exists>gs ts hs. fs = gs @ [Term_Date ts] # hs \<and> (\<forall>f\<in>set gs. date_fact_ok now_secs f) \<and>
        now_secs < unat ts \<and> 2 ^ 63 \<le> unat ts)"

lemma far_date_reached_Nil [simp]: "\<not> far_date_reached n []"
  by (simp add: far_date_reached_def)

lemma far_date_reached_Cons:
  "far_date_reached n (f # fs) \<longleftrightarrow>
     (\<exists>ts. f = [Term_Date ts] \<and> n < unat ts \<and> 2 ^ 63 \<le> unat ts) \<or>
     date_fact_ok n f \<and> far_date_reached n fs"
proof
  assume "far_date_reached n (f # fs)"
  then obtain gs ts hs where "f # fs = gs @ [Term_Date ts] # hs" "\<forall>g\<in>set gs. date_fact_ok n g"
    "n < unat ts" "2 ^ 63 \<le> unat ts"
    unfolding far_date_reached_def by blast
  then show "(\<exists>ts. f = [Term_Date ts] \<and> n < unat ts \<and> 2 ^ 63 \<le> unat ts) \<or>
     date_fact_ok n f \<and> far_date_reached n fs"
    unfolding far_date_reached_def by (cases gs) (simp, force)
next
  assume "(\<exists>ts. f = [Term_Date ts] \<and> n < unat ts \<and> 2 ^ 63 \<le> unat ts) \<or>
     date_fact_ok n f \<and> far_date_reached n fs"
  then show "far_date_reached n (f # fs)"
  proof
    assume "\<exists>ts. f = [Term_Date ts] \<and> n < unat ts \<and> 2 ^ 63 \<le> unat ts"
    then show ?thesis unfolding far_date_reached_def by (metis append_Nil empty_iff list.set(1))
  next
    assume "date_fact_ok n f \<and> far_date_reached n fs"
    then show ?thesis unfolding far_date_reached_def by (metis append_Cons set_ConsD)
  qed
qed

lemma scan_expires_Panics_iff: "scan_expires n acc fs = Panics \<longleftrightarrow> far_date_reached n fs"
proof (induction fs arbitrary: acc)
  case (Cons f fs)
  show ?case
  proof (cases "\<exists>ts. f = [Term_Date ts]")
    case True
    then obtain ts where "f = [Term_Date ts]" by blast
    then show ?thesis
      by (auto simp: far_date_reached_Cons Cons.IH epoch_plus_secs_def date_fact_ok_def)
  next
    case False
    then show ?thesis
      by (cases f rule: single_term.cases)
        (auto simp: far_date_reached_Cons date_fact_ok_def split: biscuit_term.splits)
  qed
qed simp

lemma ret_then_Panics_iff:
  "ret_then r f = Panics \<longleftrightarrow> r = Panics \<or> (\<exists>x. r = Returns (Ok x) \<and> f x = Panics)"
  by (cases r; cases "case r of Returns z \<Rightarrow> z") (auto simp: ret_then_def split: sum.splits)

lemma if_Err_Panics_iff: "(if c then Returns (Err e) else r) = Panics \<longleftrightarrow> \<not> c \<and> r = Panics"
  by simp

lemma token_checks_Panics_iff:
  "token_checks lib p cred dl ct now = Panics \<longleftrightarrow>
     policy_root_keys p \<noteq> [] \<and>
     (\<exists>me raw tok az0 az callees expires.
        policy_self_id p = Some me \<and>
        Credential_decode (base64_decode lib) cred = Ok raw \<and>
        biscuit_from lib raw (choose_root (policy_root_keys p)) = Some tok \<and>
        authorizer_build lib tok = Some az0 \<and> authorizer_authorize lib az0 = Some az \<and>
        authorizer_query_all lib az Query_callee = Some callees \<and> callees \<noteq> [] \<and>
        (\<forall>f\<in>set callees. f = [Term_Bytes (NodeId_as_bytes me)]) \<and>
        authorizer_query_all lib az Query_expires = Some expires \<and>
        far_date_reached (now_secs_of now) expires)"
  unfolding token_checks_def
  by (auto simp: ret_then_Panics_iff if_Err_Panics_iff check_callees_Ok_iff scan_expires_Panics_iff)

lemma verify_credential_Panics_iff:
  "fst (verify_biscuit_credential lib ops p cred dl ct now) = Panics \<longleftrightarrow>
     token_checks lib p cred dl ct now = Panics"
  by (auto simp: verify_biscuit_credential_def split: returns.splits sum.splits prod.splits bool.splits)

text \<open>
  C39: A far expiry takes the verifier down, and nothing else does. Verifying a \<open>Submit\<close> panics
  exactly when the peer is not on the allowlist and its credential verifies under a configured
  root, names only this node as \<open>callee\<close>, and has an \<open>expires\<close> date in the future of
  \<open>2 ^ 63\<close> seconds or more behind nothing but good dates, wherever in the list it stands: the date passes
  the comparison with the current time and \<open>UNIX_EPOCH + Duration::from_secs(ts)\<close> panics instead of
  refusing it.
\<close>

theorem far_expiry_panics:
  "fst (UnverifiedSubmit_verify lib ops (UnverifiedSubmit (Message_Submit t dl ct cr b)) p peer now) =
     Panics \<longleftrightarrow>
   \<not> Policy_contains p peer \<and> policy_root_keys p \<noteq> [] \<and>
   (\<exists>cred me raw tok az0 az callees expires.
      cr = Some cred \<and> policy_self_id p = Some me \<and>
      Credential_decode (base64_decode lib) cred = Ok raw \<and>
      biscuit_from lib raw (choose_root (policy_root_keys p)) = Some tok \<and>
      authorizer_build lib tok = Some az0 \<and> authorizer_authorize lib az0 = Some az \<and>
      authorizer_query_all lib az Query_callee = Some callees \<and> callees \<noteq> [] \<and>
      (\<forall>f\<in>set callees. f = [Term_Bytes (NodeId_as_bytes me)]) \<and>
      authorizer_query_all lib az Query_expires = Some expires \<and>
      (\<exists>goods ts others. expires = goods @ [Term_Date ts] # others \<and>
         (\<forall>f\<in>set goods. date_fact_ok (now_secs_of now) f) \<and>
         now_secs_of now < unat ts \<and> 2 ^ 63 \<le> unat ts))"
proof -
  have "fst (UnverifiedSubmit_verify lib ops (UnverifiedSubmit (Message_Submit t dl ct cr b)) p peer now) =
      Panics \<longleftrightarrow>
    \<not> Policy_contains p peer \<and> (\<exists>cred. cr = Some cred \<and> token_checks lib p cred dl ct now = Panics)"
    by (cases cr) (simp_all add: UnverifiedSubmit_verify_def ret_then_Panics_iff case_prod_unfold
        flip: verify_credential_Panics_iff [of lib ops p _ dl ct now])
  then show ?thesis
    by (cases cr) (simp_all only: token_checks_Panics_iff far_date_reached_def option.inject
        option.distinct simp_thms ex_simps)
qed

lemma sample_C_expires:
  "\<exists>goods ts others. [[Term_Date 0x8000000000000000]] = goods @ [Term_Date ts] # others \<and>
     (\<forall>f\<in>set goods. date_fact_ok (now_secs_of 0) f) \<and>
     now_secs_of 0 < unat ts \<and> 2 ^ 63 \<le> unat ts"
  by (intro exI [of _ "[]"] exI [of _ "0x8000000000000000"]) (simp add: now_secs_of_def)

theorem far_expiry_panics_witness:
  "fst (UnverifiedSubmit_verify sample_lib memory_ops (UnverifiedSubmit (sample_header ''C''))
     sample_policy (NodeId [1]) 0) = Panics"
proof -
  have "\<not> Policy_contains sample_policy (NodeId [1])" by (simp add: Policy_contains_def)
  moreover have "Credential_decode (base64_decode sample_lib) (Credential ''C'') = Ok [67]"
    by (simp add: sample_lib_def Credential_decode_def as_bytes_ABC)
  moreover have "biscuit_from sample_lib [67] (choose_root (policy_root_keys sample_policy)) =
      Some [0x8000000000000000]"
    by (simp add: sample_lib_def choose_root_def)
  moreover have "authorizer_build sample_lib tok = Some tok" "authorizer_authorize sample_lib tok = Some tok"
    "authorizer_query_all sample_lib tok q = Some (sample_facts tok q)" for tok q
    by (simp_all add: sample_lib_def)
  ultimately show ?thesis
    unfolding sample_header_def far_expiry_panics
    using sample_C_expires by simp
qed

section \<open>Hex ids of the audit record\<close>

lemma hex_char_inj: "a < 16 \<Longrightarrow> b < 16 \<Longrightarrow> hex_char a = hex_char b \<Longrightarrow> a = b"
proof -
  have d: "distinct ''0123456789abcdef''" by simp
  have l: "length ''0123456789abcdef'' = 16" by simp
  assume a: "a < 16" and b: "b < 16" and eq: "hex_char a = hex_char b"
  have "unat a < 16" "unat b < 16" using a b by (simp_all add: word_less_nat_alt)
  with eq have "unat a = unat b"
    using nth_eq_iff_index_eq [OF d, of "unat a" "unat b"] unfolding hex_char_def l by simp
  then show "a = b" by (simp only: word_unat_eq_iff)
qed

lemma nibbles_less: "drop_bit 4 (b :: u8) < 16" "(b :: u8) AND 0xf < 16"
proof -
  have "unat b < 256" using unsigned_less [of b] by simp
  moreover have "unat (drop_bit 4 b) = unat b div 16"
    by (subst unat_drop_bit_eq) (simp add: drop_bit_eq_div)
  ultimately have "unat (drop_bit 4 b) < 16" by (simp only: less_mult_imp_div_less)
  then show "drop_bit 4 b < 16" by (simp add: word_less_nat_alt)
  have "unat (b AND 0xf) \<le> unat (0xf :: u8)"
    by (simp only: word_le_nat_alt [symmetric] word_and_le1)
  then show "b AND 0xf < 16" by (simp add: word_less_nat_alt)
qed

lemma nibbles_eq:
  "drop_bit 4 a = drop_bit 4 b \<Longrightarrow> a AND 0xf = b AND 0xf \<Longrightarrow> a = (b :: u8)"
proof -
  assume d: "drop_bit 4 a = drop_bit 4 b" and t: "a AND 0xf = b AND 0xf"
  have m: "x AND 0xf = take_bit 4 x" for x :: u8 by (simp add: take_bit_eq_mask mask_eq_exp_minus_1)
  from t have "take_bit 4 a = take_bit 4 b" by (simp only: m)
  with d have "push_bit 4 (drop_bit 4 a) + take_bit 4 a = push_bit 4 (drop_bit 4 b) + take_bit 4 b"
    by (simp only:)
  then show "a = b" by (simp only: bits_ident)
qed

text \<open>
  The audit record tells tokens apart: the rendering of a biscuit id is two characters per
  byte and injective, so two different ids never read the same in a call record.
\<close>

theorem bytes_to_hex_injective:
  "length (bytes_to_hex xs) = 2 * length xs \<and> (bytes_to_hex xs = bytes_to_hex ys \<longleftrightarrow> xs = ys)"
proof
  show "length (bytes_to_hex xs) = 2 * length xs" by (induction xs) simp_all
  have "bytes_to_hex xs = bytes_to_hex ys \<Longrightarrow> xs = ys"
  proof (induction xs arbitrary: ys)
    case Nil
    then show ?case by (cases ys) simp_all
  next
    case (Cons x xs)
    from Cons.prems obtain y zs where ys: "ys = y # zs" by (cases ys) auto
    from Cons.prems ys have "hex_char (drop_bit 4 x) = hex_char (drop_bit 4 y)"
      and "hex_char (x AND 0xf) = hex_char (y AND 0xf)" by (simp_all only: bytes_to_hex.simps list.inject)
    then have "drop_bit 4 x = drop_bit 4 y" "x AND 0xf = y AND 0xf"
      by (blast intro: hex_char_inj nibbles_less)+
    then have "x = y" by (rule nibbles_eq)
    with Cons ys show ?case by simp
  qed
  then show "bytes_to_hex xs = bytes_to_hex ys \<longleftrightarrow> xs = ys" by blast
qed

end
