(* ===== verification/Call_Record.thy ===== *)
theory Call_Record
  imports Frame_Io Policy
begin

text \<open>
  The audit record of a connection, src/crates/uat-node/src/record.rs, with the error type of
  src/crates/uat-node/src/call.rs it is derived from. What the code reads off an iroh connection
  (byte counters, the list of paths) and off the clock is an argument; the operating system
  behind the JSON sink is a record of operations.
\<close>

section \<open>Call errors\<close>

datatype call_error =
    CallError_StreamSetup string
  | CallError_Frame frame_io_error
  | CallError_Illegal
  | CallError_Unauthorized
  | CallError_Cancelled
  | CallError_Connection string
  | CallError_NetworkTimeout

section \<open>Records\<close>

definition CALL_RECORD_SCHEMA_VERSION :: u32 where "CALL_RECORD_SCHEMA_VERSION = 1"

datatype direction = Direction_Outbound | Direction_Inbound

datatype auth_outcome =
  AuthOutcome_Allowed auth_rule | AuthOutcome_Denied string | AuthOutcome_NotReached

datatype conn_path = Path_Direct | Path_Relayed string

record call_record =
  cr_schema_version :: u32
  cr_started_at :: system_time
  cr_task :: "task_id option"
  cr_direction :: direction
  cr_peer :: node_id
  cr_authorization :: auth_outcome
  cr_outcome :: outcome
  cr_path :: conn_path
  cr_bytes_sent :: u64
  cr_bytes_recv :: u64
  cr_wall_time_ms :: u64

text \<open>What the code reads of an iroh connection.\<close>

record path_info =
  pi_relay :: "string option"
  pi_is_relay :: bool
  pi_selected :: bool
  pi_rtt :: nat

record conn_view =
  cv_udp_tx :: u64
  cv_udp_rx :: u64
  cv_paths :: "path_info list"

definition connection_bytes :: "conn_view \<Rightarrow> u64 \<times> u64" where
  "connection_bytes c = (cv_udp_tx c, cv_udp_rx c)"

fun rtt_loop :: "path_info list \<Rightarrow> nat option \<Rightarrow> nat option" where
  "rtt_loop [] first = first"
| "rtt_loop (p # ps) first =
     (if pi_selected p then Some (pi_rtt p)
      else rtt_loop ps (case first of None \<Rightarrow> Some (pi_rtt p) | Some r \<Rightarrow> Some r))"

definition connection_rtt :: "conn_view \<Rightarrow> nat option" where
  "connection_rtt c = rtt_loop (cv_paths c) None"

fun path_loop :: "path_info list \<Rightarrow> path_info list \<Rightarrow> string option \<Rightarrow> conn_path" where
  "path_loop paths [] fallback_relay =
     (case fallback_relay of
        Some relay \<Rightarrow> if list_all pi_is_relay paths then Path_Relayed relay else Path_Direct
      | None \<Rightarrow> Path_Direct)"
| "path_loop paths (p # ps) fallback_relay =
     (if pi_selected p
      then (case pi_relay p of Some relay \<Rightarrow> Path_Relayed relay | None \<Rightarrow> Path_Direct)
      else path_loop paths ps (if fallback_relay = None then pi_relay p else fallback_relay))"

definition connection_path :: "conn_view \<Rightarrow> conn_path" where
  "connection_path c = path_loop (cv_paths c) (cv_paths c) None"

definition outcome_from_call_error :: "call_error \<Rightarrow> outcome" where
  "outcome_from_call_error err =
     (case err of
        CallError_Cancelled \<Rightarrow> Outcome_Canceled
      | CallError_Unauthorized \<Rightarrow> Outcome_Failed FailureCode_Unauthorized
      | CallError_NetworkTimeout \<Rightarrow> Outcome_Closed CloseCode_Timeout
      | CallError_Illegal \<Rightarrow> Outcome_Closed CloseCode_ProtocolViolation
      | CallError_Frame fe \<Rightarrow>
          (case FrameIoError_close_code fe of
             Some code \<Rightarrow> Outcome_Closed code
           | None \<Rightarrow>
               (case fe of
                  FrameIoError_UnexpectedEnd \<Rightarrow> Outcome_PeerLost
                | FrameIoError_Read _ \<Rightarrow> Outcome_PeerLost
                | FrameIoError_Write _ \<Rightarrow> Outcome_PeerLost
                | _ \<Rightarrow> Outcome_Closed CloseCode_ProtocolViolation))
      | CallError_StreamSetup _ \<Rightarrow> Outcome_PeerLost
      | CallError_Connection _ \<Rightarrow> Outcome_PeerLost)"

section \<open>Serialisation of single fields\<close>

definition system_time_millis :: "system_time \<Rightarrow> u64" where
  "system_time_millis t = (if t < 0 then 0 else word_of_int (t div 10 ^ 6))"

definition node_id_hex :: "node_id \<Rightarrow> string" where
  "node_id_hex n = bytes_to_hex (NodeId_as_bytes n)"

text \<open>\<open>duration_ms\<close> of an elapsed number of nanoseconds, saturating at \<open>u64::MAX\<close>.\<close>

definition duration_ms :: "nat \<Rightarrow> u64" where
  "duration_ms ns = (let ms = ns div 10 ^ 6 in if ms < 2 ^ 64 then word_of_nat ms else - 1)"

section \<open>Sinks\<close>

text \<open>
  Anything that receives finished records, as the guard uses it: \<open>seen\<close> is what the sink was
  given so far, in order.
\<close>

locale call_record_sink =
  fixes emit :: "'s \<Rightarrow> call_record \<Rightarrow> 's" and seen :: "'s \<Rightarrow> call_record list"
  assumes seen_emit: "seen (emit s r) = seen s @ [r]"
begin

definition emit_all :: "'s \<Rightarrow> call_record list \<Rightarrow> 's" where
  "emit_all s rs = foldl emit s rs"

lemma seen_emit_all: "seen (emit_all s rs) = seen s @ rs"
proof -
  have "seen (foldl emit s rs) = seen s @ rs"
    by (induction rs arbitrary: s) (simp_all add: seen_emit)
  then show ?thesis by (simp add: emit_all_def)
qed

lemma emit_inj: "seen s = seen s' \<Longrightarrow> seen (emit s r) = seen (emit s' r') \<Longrightarrow> r = r'"
  by (simp add: seen_emit)

end

record memory_sink =
  mem_records :: "call_record list"

definition MemoryCallRecordSink_new :: memory_sink where
  "MemoryCallRecordSink_new = \<lparr>mem_records = []\<rparr>"

definition MemoryCallRecordSink_emit :: "memory_sink \<Rightarrow> call_record \<Rightarrow> memory_sink" where
  "MemoryCallRecordSink_emit s r = s\<lparr>mem_records := mem_records s @ [r]\<rparr>"

definition MemoryCallRecordSink_len :: "memory_sink \<Rightarrow> nat" where
  "MemoryCallRecordSink_len s = length (mem_records s)"

definition MemoryCallRecordSink_is_empty :: "memory_sink \<Rightarrow> bool" where
  "MemoryCallRecordSink_is_empty s \<longleftrightarrow> MemoryCallRecordSink_len s = 0"

interpretation memory_sink: call_record_sink MemoryCallRecordSink_emit mem_records
  by unfold_locales (simp add: MemoryCallRecordSink_emit_def)

text \<open>A fan-out of children: a child is a state with the emit of its own type behind the trait
  object, here one function for all of them.\<close>

definition FanoutCallRecordSink_push :: "'s list \<Rightarrow> 's \<Rightarrow> 's list" where
  "FanoutCallRecordSink_push sinks sink = sinks @ [sink]"

definition FanoutCallRecordSink_emit ::
  "('s \<Rightarrow> call_record \<Rightarrow> 's) \<Rightarrow> 's list \<Rightarrow> call_record \<Rightarrow> 's list" where
  "FanoutCallRecordSink_emit child_emit sinks r = map (\<lambda>s. child_emit s r) sinks"

context call_record_sink
begin

lemma fanout_seen:
  "map seen (FanoutCallRecordSink_emit emit sinks r) = map (\<lambda>s. seen s @ [r]) sinks"
  by (simp add: FanoutCallRecordSink_emit_def seen_emit)

end

section \<open>The guard\<close>

record call_record_guard =
  g_started_at :: system_time
  g_start :: nat
  g_direction :: direction
  g_peer :: node_id
  g_task :: "task_id option"
  g_authorization :: auth_outcome
  g_outcome :: outcome
  g_path :: conn_path
  g_has_conn :: bool
  g_bytes :: "(u64 \<times> u64) option"
  g_emitted :: bool

definition CallRecordGuard_new ::
  "system_time \<Rightarrow> nat \<Rightarrow> direction \<Rightarrow> node_id \<Rightarrow> auth_outcome \<Rightarrow> call_record_guard" where
  "CallRecordGuard_new now start dir peer authorization =
     \<lparr>g_started_at = now, g_start = start, g_direction = dir, g_peer = peer, g_task = None,
      g_authorization = authorization, g_outcome = Outcome_PeerLost, g_path = Path_Direct,
      g_has_conn = True, g_bytes = None, g_emitted = False\<rparr>"

definition CallRecordGuard_new_with_bytes ::
  "system_time \<Rightarrow> nat \<Rightarrow> direction \<Rightarrow> node_id \<Rightarrow> auth_outcome \<Rightarrow> u64 \<Rightarrow> u64 \<Rightarrow> call_record_guard" where
  "CallRecordGuard_new_with_bytes now start dir peer authorization bytes_sent bytes_recv =
     \<lparr>g_started_at = now, g_start = start, g_direction = dir, g_peer = peer, g_task = None,
      g_authorization = authorization, g_outcome = Outcome_PeerLost, g_path = Path_Direct,
      g_has_conn = False, g_bytes = Some (bytes_sent, bytes_recv), g_emitted = False\<rparr>"

definition set_task :: "call_record_guard \<Rightarrow> task_id \<Rightarrow> call_record_guard" where
  "set_task g t = g\<lparr>g_task := Some t\<rparr>"

definition clear_task :: "call_record_guard \<Rightarrow> call_record_guard" where
  "clear_task g = g\<lparr>g_task := None\<rparr>"

definition set_authorization :: "call_record_guard \<Rightarrow> auth_outcome \<Rightarrow> call_record_guard" where
  "set_authorization g a = g\<lparr>g_authorization := a\<rparr>"

definition set_outcome :: "call_record_guard \<Rightarrow> outcome \<Rightarrow> call_record_guard" where
  "set_outcome g out = g\<lparr>g_outcome := out\<rparr>"

definition observe_result :: "call_record_guard \<Rightarrow> (outcome, call_error) result \<Rightarrow> call_record_guard" where
  "observe_result g result =
     (case result of
        Ok out \<Rightarrow> set_outcome g out
      | Err err \<Rightarrow> set_outcome g (outcome_from_call_error err))"

definition set_path :: "call_record_guard \<Rightarrow> conn_path \<Rightarrow> call_record_guard" where
  "set_path g p = g\<lparr>g_path := p\<rparr>"

definition emit_now ::
  "('s \<Rightarrow> call_record \<Rightarrow> 's) \<Rightarrow> conn_view \<Rightarrow> nat \<Rightarrow> call_record_guard \<Rightarrow> 's \<Rightarrow> call_record_guard \<times> 's" where
  "emit_now emit conn now g sink =
     (if g_emitted g then (g, sink)
      else
        let g = g\<lparr>g_emitted := True\<rparr>;
            (bytes_sent, bytes_recv) =
              (case g_bytes g of
                 Some pair \<Rightarrow> pair
               | None \<Rightarrow> if g_has_conn g then connection_bytes conn else (0, 0));
            g = (if g_has_conn g then g\<lparr>g_path := connection_path conn\<rparr> else g);
            wall_time_ms = duration_ms (now - g_start g) in
        (g, emit sink
           \<lparr>cr_schema_version = CALL_RECORD_SCHEMA_VERSION, cr_started_at = g_started_at g,
            cr_task = g_task g, cr_direction = g_direction g, cr_peer = g_peer g,
            cr_authorization = g_authorization g, cr_outcome = g_outcome g, cr_path = g_path g,
            cr_bytes_sent = bytes_sent, cr_bytes_recv = bytes_recv,
            cr_wall_time_ms = wall_time_ms\<rparr>))"

definition guard_drop ::
  "('s \<Rightarrow> call_record \<Rightarrow> 's) \<Rightarrow> conn_view \<Rightarrow> nat \<Rightarrow> call_record_guard \<Rightarrow> 's \<Rightarrow> 's" where
  "guard_drop emit conn now g sink = snd (emit_now emit conn now g sink)"

lemmas guard_simps = set_task_def clear_task_def set_authorization_def set_outcome_def
  observe_result_def set_path_def CallRecordGuard_new_def CallRecordGuard_new_with_bytes_def

section \<open>The JSON directory sink\<close>

text \<open>
  The operations of the operating system the sink uses, and serde's rendering of a record.
  \<open>os_create_new\<close> opens a file that must not exist yet.
\<close>

datatype open_result = Opened | AlreadyExists | Open_Other_Error

record 'fs os_ops =
  os_create_dir_all :: "'fs \<Rightarrow> string \<Rightarrow> bool \<times> 'fs"
  os_create_new :: "'fs \<Rightarrow> string \<Rightarrow> open_result \<times> 'fs"
  os_write_all :: "'fs \<Rightarrow> string \<Rightarrow> bytes \<Rightarrow> bool \<times> 'fs"
  os_to_vec_pretty :: "call_record \<Rightarrow> bytes option"

datatype write_error_kind = Write_CreateDir | Write_Serialize | Write_Exhausted | Write_Open | Write_Body

fun decimal :: "nat \<Rightarrow> string" where
  "decimal n =
     (if n < 10 then [char_of (48 + n)] else decimal (n div 10) @ [char_of (48 + n mod 10)])"

declare decimal.simps [simp del]

definition candidate_name :: "call_record \<Rightarrow> nat \<Rightarrow> string" where
  "candidate_name r attempts =
     (let ms = (if cr_started_at r < 0 then 0 else nat (cr_started_at r div 10 ^ 6));
          dir_label = (case cr_direction r of
             Direction_Inbound \<Rightarrow> ''inbound'' | Direction_Outbound \<Rightarrow> ''outbound'');
          peer_short = take 12 (node_id_hex (cr_peer r));
          stem = decimal ms @ ''_'' @ dir_label @ ''_'' @ peer_short in
      if attempts = 0 then stem @ ''.json'' else stem @ ''_'' @ decimal attempts @ ''.json'')"

function write_attempts ::
  "'fs os_ops \<Rightarrow> string \<Rightarrow> call_record \<Rightarrow> bytes \<Rightarrow> nat \<Rightarrow> 'fs \<Rightarrow> (string, write_error_kind) result \<times> 'fs" where
  "write_attempts os dir r body attempts fs =
     (let candidate = path_join dir (candidate_name r attempts) in
      case os_create_new os fs candidate of
        (Opened, fs) \<Rightarrow>
          (case os_write_all os fs candidate body of
             (False, fs) \<Rightarrow> (Err Write_Body, fs)
           | (True, fs) \<Rightarrow>
               (case os_write_all os fs candidate [10] of
                  (False, fs) \<Rightarrow> (Err Write_Body, fs)
                | (True, fs) \<Rightarrow> (Ok candidate, fs)))
      | (AlreadyExists, fs) \<Rightarrow>
          if attempts < 32 then write_attempts os dir r body (attempts + 1) fs
          else (Err Write_Exhausted, fs)
      | (Open_Other_Error, fs) \<Rightarrow> (Err Write_Open, fs))"
  by pat_completeness auto

termination
  by (relation "measure (\<lambda>(os, dir, r, body, attempts, fs). 32 - attempts)") auto

declare write_attempts.simps [simp del]

definition write_record_json ::
  "'fs os_ops \<Rightarrow> string \<Rightarrow> call_record \<Rightarrow> 'fs \<Rightarrow> (string, write_error_kind) result \<times> 'fs" where
  "write_record_json os dir r fs =
     (case os_create_dir_all os fs dir of
        (False, fs) \<Rightarrow> (Err Write_CreateDir, fs)
      | (True, fs) \<Rightarrow>
          (case os_to_vec_pretty os r of
             None \<Rightarrow> (Err Write_Serialize, fs)
           | Some body \<Rightarrow> write_attempts os dir r body 0 fs))"

text \<open>A failure is logged and dropped.\<close>

definition JsonDirCallRecordSink_emit :: "'fs os_ops \<Rightarrow> string \<Rightarrow> 'fs \<Rightarrow> call_record \<Rightarrow> 'fs" where
  "JsonDirCallRecordSink_emit os dir fs r = snd (write_record_json os dir r fs)"

text \<open>
  What the code relies on: \<open>files\<close> are the contents by path; creating a directory touches no
  file, \<open>create_new\<close> succeeds only on a free path and makes an empty file there, a write appends
  to the file it names and to no other.
\<close>

definition os_sound :: "'fs os_ops \<Rightarrow> ('fs \<Rightarrow> string \<rightharpoonup> bytes) \<Rightarrow> bool" where
  "os_sound os files \<longleftrightarrow>
     (\<forall>fs d. files (snd (os_create_dir_all os fs d)) = files fs) \<and>
     (\<forall>fs p. case os_create_new os fs p of
        (Opened, fs') \<Rightarrow> p \<notin> dom (files fs) \<and> files fs' = (files fs)(p \<mapsto> [])
      | (AlreadyExists, fs') \<Rightarrow> p \<in> dom (files fs) \<and> files fs' = files fs
      | (Open_Other_Error, fs') \<Rightarrow> files fs' = files fs) \<and>
     (\<forall>fs p b old. files fs p = Some old \<longrightarrow>
        (case os_write_all os fs p b of
           (True, fs') \<Rightarrow> files fs' = (files fs)(p \<mapsto> old @ b)
         | (False, fs') \<Rightarrow> \<exists>w. files fs' = (files fs)(p \<mapsto> w)))"

lemma os_soundD:
  assumes "os_sound os files"
  shows "files (snd (os_create_dir_all os fs d)) = files fs"
    and "os_create_new os fs p = (Opened, fs') \<Longrightarrow> p \<notin> dom (files fs) \<and> files fs' = (files fs)(p \<mapsto> [])"
    and "os_create_new os fs p = (AlreadyExists, fs') \<Longrightarrow> p \<in> dom (files fs) \<and> files fs' = files fs"
    and "os_create_new os fs p = (Open_Other_Error, fs') \<Longrightarrow> files fs' = files fs"
    and "files fs p = Some old \<Longrightarrow> os_write_all os fs p b = (True, fs') \<Longrightarrow>
      files fs' = (files fs)(p \<mapsto> old @ b)"
    and "files fs p = Some old \<Longrightarrow> os_write_all os fs p b = (False, fs') \<Longrightarrow>
      \<exists>w. files fs' = (files fs)(p \<mapsto> w)"
  using assms unfolding os_sound_def by (fastforce split: prod.splits)+

text \<open>
  The first free of the names from one on: the names before it are taken.
\<close>

definition first_free :: "string \<Rightarrow> call_record \<Rightarrow> nat \<Rightarrow> (string \<rightharpoonup> bytes) \<Rightarrow> nat \<Rightarrow> bool" where
  "first_free dir r attempts m n \<longleftrightarrow> attempts \<le> n \<and> n \<le> 32 \<and> path_join dir (candidate_name r n) \<notin> dom m \<and>
     (\<forall>k. attempts \<le> k \<and> k < n \<longrightarrow> path_join dir (candidate_name r k) \<in> dom m)"

lemma first_free_next:
  assumes "first_free dir r (Suc attempts) m n" and "path_join dir (candidate_name r attempts) \<in> dom m"
  shows "first_free dir r attempts m n"
  using assms unfolding first_free_def by (metis Suc_leD not_less_eq_eq le_antisym)

text \<open>
  A run of the naming loop: what was there stays, a new file has the first free name, and a success is
  such a file.
\<close>

definition write_post ::
  "string \<Rightarrow> call_record \<Rightarrow> bytes \<Rightarrow> nat \<Rightarrow> (string \<rightharpoonup> bytes) \<Rightarrow> (string, write_error_kind) result
     \<Rightarrow> (string \<rightharpoonup> bytes) \<Rightarrow> bool" where
  "write_post dir r body attempts m res m' \<longleftrightarrow>
     m \<subseteq>\<^sub>m m' \<and>
     (\<forall>p. res = Ok p \<longrightarrow> p \<in> dom m' - dom m \<and> m' = m(p \<mapsto> body @ [10])) \<and>
     (\<forall>p. p \<in> dom m' - dom m \<longrightarrow> (\<exists>n. first_free dir r attempts m n \<and> p = path_join dir (candidate_name r n))) \<and>
     (res = Err Write_Exhausted \<longrightarrow>
        (\<forall>n. attempts \<le> n \<and> n \<le> 32 \<longrightarrow> path_join dir (candidate_name r n) \<in> dom m))"

lemma map_le_fresh: "p \<notin> dom m \<Longrightarrow> m \<subseteq>\<^sub>m m(p \<mapsto> w)"
  by (auto simp: map_le_def)

lemma write_opened:
  assumes sound: "os_sound os files" and le: "attempts \<le> 32"
    and c: "c = path_join dir (candidate_name r attempts)"
    and opened: "os_create_new os fs c = (Opened, fs1)"
    and run: "(case os_write_all os fs1 c body of
             (False, fs) \<Rightarrow> (Err Write_Body, fs)
           | (True, fs) \<Rightarrow>
               (case os_write_all os fs c [10] of
                  (False, fs) \<Rightarrow> (Err Write_Body, fs)
                | (True, fs) \<Rightarrow> (Ok c, fs))) = (res, fs')"
  shows "write_post dir r body attempts (files fs) res (files fs')"
proof -
  note new = os_soundD(2) [OF sound opened]
  then have fresh: "c \<notin> dom (files fs)" and f1: "files fs1 = (files fs)(c \<mapsto> [])" by simp_all
  have free: "\<exists>n. first_free dir r attempts (files fs) n \<and> c = path_join dir (candidate_name r n)"
    using fresh c le by (intro exI [of _ attempts]) (auto simp: first_free_def)
  from f1 have old: "files fs1 c = Some []" by simp
  obtain b2 fs2 where w1: "os_write_all os fs1 c body = (b2, fs2)" by fastforce
  show ?thesis
  proof (cases b2)
    case False
    with w1 have "os_write_all os fs1 c body = (False, fs2)" by simp
    from os_soundD(6) [OF sound old this] obtain w where "files fs2 = (files fs1)(c \<mapsto> w)" by blast
    with f1 have "files fs2 = (files fs)(c \<mapsto> w)" by simp
    with run w1 False map_le_fresh [OF fresh] free show ?thesis by (auto simp: write_post_def)
  next
    case True
    with w1 have "os_write_all os fs1 c body = (True, fs2)" by simp
    from os_soundD(5) [OF sound old this] have f2: "files fs2 = (files fs)(c \<mapsto> body)"
      unfolding f1 by (simp only: append_Nil fun_upd_upd)
    then have old2: "files fs2 c = Some body" by simp
    obtain b3 fs3 where w2: "os_write_all os fs2 c [10] = (b3, fs3)" by fastforce
    show ?thesis
    proof (cases b3)
      case False
      with w2 have "os_write_all os fs2 c [10] = (False, fs3)" by simp
      from os_soundD(6) [OF sound old2 this] obtain w where "files fs3 = (files fs2)(c \<mapsto> w)" by blast
      with f2 have "files fs3 = (files fs)(c \<mapsto> w)" by simp
      with run w1 w2 True False map_le_fresh [OF fresh] free show ?thesis by (auto simp: write_post_def)
    next
      case b3: True
      with w2 have "os_write_all os fs2 c [10] = (True, fs3)" by simp
      from os_soundD(5) [OF sound old2 this]
      have "files fs3 = (files fs)(c \<mapsto> body @ [10])" unfolding f2 by (simp only: fun_upd_upd)
      with run w1 w2 True b3 map_le_fresh [OF fresh] fresh free show ?thesis
        by (auto simp: write_post_def)
    qed
  qed
qed

lemma write_post_next:
  assumes "write_post dir r body (Suc attempts) m res m'"
    and "path_join dir (candidate_name r attempts) \<in> dom m"
  shows "write_post dir r body attempts m res m'"
proof -
  have "attempts \<le> n \<longleftrightarrow> n = attempts \<or> Suc attempts \<le> n" for n by auto
  with assms first_free_next [OF _ assms(2)] show ?thesis unfolding write_post_def by metis
qed

lemma write_attempts_post:
  assumes sound: "os_sound os files" and "attempts \<le> 32"
    and "write_attempts os dir r body attempts fs = (res, fs')"
  shows "write_post dir r body attempts (files fs) res (files fs')"
  using assms(2,3)
proof (induction "32 - attempts" arbitrary: attempts fs rule: less_induct)
  case less
  let ?c = "path_join dir (candidate_name r attempts)"
  obtain o1 fs1 where open1: "os_create_new os fs ?c = (o1, fs1)" by fastforce
  note run = less.prems(2) [unfolded write_attempts.simps [of os dir r body attempts fs] Let_def open1]
  show ?case
  proof (cases o1)
    case Opened
    with open1 have op: "os_create_new os fs ?c = (Opened, fs1)" by simp
    show ?thesis
      by (rule write_opened [OF sound less.prems(1) refl op]) (use run Opened in simp)
  next
    case AlreadyExists
    with os_soundD(3) [OF sound] open1 have ex: "?c \<in> dom (files fs)" and same: "files fs1 = files fs"
      by blast+
    show ?thesis
    proof (cases "attempts < 32")
      case True
      with run AlreadyExists have "write_attempts os dir r body (Suc attempts) fs1 = (res, fs')" by simp
      with True less.hyps [of "Suc attempts" fs1]
      have "write_post dir r body (Suc attempts) (files fs) res (files fs')" by (simp add: same)
      then show ?thesis using ex by (rule write_post_next)
    next
      case False
      with less.prems(1) have "attempts = 32" by simp
      moreover from run AlreadyExists False have "res = Err Write_Exhausted" "fs' = fs1" by simp_all
      ultimately show ?thesis
        using ex same by (auto simp: write_post_def dest!: order_antisym [of 32])
    qed
  next
    case Open_Other_Error
    with os_soundD(4) [OF sound] open1 have "files fs1 = files fs" by blast
    with run Open_Other_Error show ?thesis by (auto simp: write_post_def)
  qed
qed

text \<open>
  C30: The JSON sink loses no record to another. Whatever files exist, writing a record changes
  none of them. A new file, also of a write that fails, has the first of the 33 candidate names that is free,
  all names before it being taken; a success is such a file, holding the rendering and a final newline; and
  the sink gives up on the names only when all 33 are taken. The loop always ends.
\<close>

theorem json_sink_never_overwrites:
  assumes "os_sound os files" and "write_record_json os dir r fs = (res, fs')"
  shows "files fs \<subseteq>\<^sub>m files fs' \<and>
    (\<forall>p. p \<in> dom (files fs') - dom (files fs) \<longrightarrow>
       (\<exists>n\<le>32. p = path_join dir (candidate_name r n) \<and>
          (\<forall>k<n. path_join dir (candidate_name r k) \<in> dom (files fs)))) \<and>
    (\<forall>p. res = Ok p \<longrightarrow> p \<in> dom (files fs') - dom (files fs) \<and>
       (\<exists>body. os_to_vec_pretty os r = Some body \<and> files fs' = (files fs)(p \<mapsto> body @ [10]))) \<and>
    (res = Err Write_Exhausted \<longrightarrow>
       (\<forall>n\<le>32. path_join dir (candidate_name r n) \<in> dom (files fs)))"
proof -
  obtain b fs1 where mk: "os_create_dir_all os fs dir = (b, fs1)" by fastforce
  with os_soundD(1) [OF assms(1), of fs dir] have same: "files fs1 = files fs" by simp
  show ?thesis
  proof (cases "b \<and> os_to_vec_pretty os r \<noteq> None")
    case True
    then obtain body where body: "os_to_vec_pretty os r = Some body" by auto
    with True mk assms(2) have "write_attempts os dir r body 0 fs1 = (res, fs')"
      by (simp add: write_record_json_def)
    from write_attempts_post [OF assms(1) _ this] have post: "write_post dir r body 0 (files fs) res (files fs')"
      by (simp add: same)
    note P = post [unfolded write_post_def]
    show ?thesis
    proof (intro conjI allI impI)
      show "files fs \<subseteq>\<^sub>m files fs'" using P by (rule conjunct1)
      show "\<exists>n\<le>32. p = path_join dir (candidate_name r n) \<and>
          (\<forall>k<n. path_join dir (candidate_name r k) \<in> dom (files fs))"
        if "p \<in> dom (files fs') - dom (files fs)" for p
      proof -
        from P that obtain n where "first_free dir r 0 (files fs) n" "p = path_join dir (candidate_name r n)" by metis
        then show ?thesis unfolding first_free_def by blast
      qed
      fix p
      assume "res = Ok p"
      with P have p: "p \<in> dom (files fs') - dom (files fs)" "files fs' = (files fs)(p \<mapsto> body @ [10])" by blast+
      show "p \<in> dom (files fs') - dom (files fs)" by (fact p(1))
      show "\<exists>body. os_to_vec_pretty os r = Some body \<and> files fs' = (files fs)(p \<mapsto> body @ [10])"
        using body p(2) by blast
    next
      fix n :: nat
      assume "res = Err Write_Exhausted" "n \<le> 32"
      with P show "path_join dir (candidate_name r n) \<in> dom (files fs)" by blast
    qed
  next
    case False
    with mk assms(2) same have "files fs' = files fs" "\<forall>p. res \<noteq> Ok p" "res \<noteq> Err Write_Exhausted"
      by (auto simp: write_record_json_def split: bool.splits option.splits)
    then show ?thesis by simp
  qed
qed

text \<open>A file system that is its own map of files, for the witness.\<close>

definition map_os :: "(string \<rightharpoonup> bytes) os_ops" where
  "map_os =
     \<lparr>os_create_dir_all = (\<lambda>fs d. (True, fs)),
      os_create_new = (\<lambda>fs p. if fs p = None then (Opened, fs(p \<mapsto> [])) else (AlreadyExists, fs)),
      os_write_all = (\<lambda>fs p b. case fs p of None \<Rightarrow> (False, fs) | Some old \<Rightarrow> (True, fs(p \<mapsto> old @ b))),
      os_to_vec_pretty = (\<lambda>r. Some [123, 125])\<rparr>"

lemma map_os_sound: "os_sound map_os (\<lambda>fs. fs)"
  by (auto simp: os_sound_def map_os_def)

theorem json_sink_never_overwrites_witness:
  "\<forall>r. \<exists>p fs'. write_record_json map_os ''d'' r Map.empty = (Ok p, fs') \<and> fs' = [p \<mapsto> [123, 125, 10]]"
proof
  fix r
  have "\<exists>p. fst (write_attempts map_os ''d'' r [123, 125] 0 Map.empty) = Ok p"
    by (subst write_attempts.simps) (simp add: map_os_def Let_def)
  then have "\<exists>p. fst (write_record_json map_os ''d'' r Map.empty) = Ok p"
    by (simp add: write_record_json_def) (simp add: map_os_def)
  then obtain p fs' where w: "write_record_json map_os ''d'' r Map.empty = (Ok p, fs')"
    by (metis prod.collapse)
  from json_sink_never_overwrites [OF map_os_sound w] w
  show "\<exists>p fs'. write_record_json map_os ''d'' r Map.empty = (Ok p, fs') \<and> fs' = [p \<mapsto> [123, 125, 10]]"
    by (auto simp: map_os_def)
qed

section \<open>Exactly one record\<close>

datatype guard_call =
    G_set_task task_id | G_clear_task | G_set_authorization auth_outcome | G_set_outcome outcome
  | G_observe_result "(outcome, call_error) result" | G_set_path conn_path

fun guard_op :: "call_record_guard \<Rightarrow> guard_call \<Rightarrow> call_record_guard" where
  "guard_op g (G_set_task t) = set_task g t"
| "guard_op g G_clear_task = clear_task g"
| "guard_op g (G_set_authorization a) = set_authorization g a"
| "guard_op g (G_set_outcome out) = set_outcome g out"
| "guard_op g (G_observe_result r) = observe_result g r"
| "guard_op g (G_set_path p) = set_path g p"

text \<open>What a guard that still holds its connection emits.\<close>

definition record_of :: "conn_view \<Rightarrow> nat \<Rightarrow> call_record_guard \<Rightarrow> call_record" where
  "record_of conn now g =
     \<lparr>cr_schema_version = CALL_RECORD_SCHEMA_VERSION, cr_started_at = g_started_at g,
      cr_task = g_task g, cr_direction = g_direction g, cr_peer = g_peer g,
      cr_authorization = g_authorization g, cr_outcome = g_outcome g,
      cr_path = connection_path conn, cr_bytes_sent = cv_udp_tx conn,
      cr_bytes_recv = cv_udp_rx conn, cr_wall_time_ms = duration_ms (now - g_start g)\<rparr>"

definition guard_live :: "call_record_guard \<Rightarrow> bool" where
  "guard_live g \<longleftrightarrow> \<not> g_emitted g \<and> g_has_conn g \<and> g_bytes g = None"

lemma guard_live_new: "guard_live (CallRecordGuard_new now start dir peer a)"
  by (simp add: guard_live_def guard_simps)

lemma guard_op_keeps [simp]:
  "guard_live (guard_op g x) = guard_live g" "g_peer (guard_op g x) = g_peer g"
  "g_direction (guard_op g x) = g_direction g" "g_started_at (guard_op g x) = g_started_at g"
  by (cases x; simp add: guard_simps guard_live_def split: sum.splits)+

lemma guard_fold_keeps [simp]:
  "guard_live (foldl guard_op g ops) = guard_live g" "g_peer (foldl guard_op g ops) = g_peer g"
  "g_direction (foldl guard_op g ops) = g_direction g"
  "g_started_at (foldl guard_op g ops) = g_started_at g"
  by (induction ops arbitrary: g) simp_all

lemma emit_now_live:
  "guard_live g \<Longrightarrow> emit_now emit conn now g sink =
     (g\<lparr>g_emitted := True, g_path := connection_path conn\<rparr>, emit sink (record_of conn now g))"
  by (simp add: emit_now_def guard_live_def record_of_def connection_bytes_def Let_def)

context call_record_sink
begin

lemma drop_emits_one:
  assumes "guard_live g"
  shows "seen (guard_drop emit conn now g s) = seen s @ [record_of conn now g]"
  using assms by (simp add: guard_drop_def emit_now_live seen_emit)

lemma drop_after_emit:
  "emit_now emit conn now g s = (g', s') \<Longrightarrow> guard_drop emit conn' now' g' s' = s'"
  by (cases "g_emitted g") (auto simp: emit_now_def guard_drop_def Let_def split: prod.splits if_splits)

end

text \<open>
  Every connection leaves exactly one audit record. Whatever the handler set on the guard,
  in whatever order, dropping it adds one record to the sink, of the current schema, for the
  peer and direction the guard was made with, with the task, authorization and outcome last set
  and the path read off the connection; dropping a guard that has emitted adds nothing.
\<close>

theorem guard_emits_exactly_once:
  "let g = foldl guard_op (CallRecordGuard_new started start dir peer auth) ops in
   \<exists>r. mem_records (guard_drop MemoryCallRecordSink_emit conn now g s) = mem_records s @ [r] \<and>
     cr_schema_version r = 1 \<and> cr_peer r = peer \<and> cr_direction r = dir \<and> cr_started_at r = started \<and>
     cr_task r = g_task g \<and> cr_authorization r = g_authorization g \<and> cr_outcome r = g_outcome g \<and>
     cr_path r = connection_path conn \<and>
     guard_drop MemoryCallRecordSink_emit conn' now'
       (fst (emit_now MemoryCallRecordSink_emit conn now g s))
       (snd (emit_now MemoryCallRecordSink_emit conn now g s)) =
     snd (emit_now MemoryCallRecordSink_emit conn now g s)"
proof -
  let ?g = "foldl guard_op (CallRecordGuard_new started start dir peer auth) ops"
  have "guard_live ?g" by (simp add: guard_live_new)
  note one = memory_sink.drop_emits_one [OF this, of conn now s]
  have id: "g_peer (CallRecordGuard_new started start dir peer auth) = peer"
    "g_direction (CallRecordGuard_new started start dir peer auth) = dir"
    "g_started_at (CallRecordGuard_new started start dir peer auth) = started"
    by (simp_all add: guard_simps)
  show ?thesis
    unfolding Let_def
    by (rule exI [of _ "record_of conn now ?g"])
      (simp add: one record_of_def CALL_RECORD_SCHEMA_VERSION_def id
        memory_sink.drop_after_emit [OF prod.collapse [symmetric]])
qed

section \<open>The path of a connection\<close>

definition first_relay :: "path_info list \<Rightarrow> string option" where
  "first_relay ps = (case filter (\<lambda>p. pi_relay p \<noteq> None) ps of [] \<Rightarrow> None | p # _ \<Rightarrow> pi_relay p)"

lemma first_relay_Cons:
  "first_relay (p # ps) = (case pi_relay p of None \<Rightarrow> first_relay ps | Some relay \<Rightarrow> Some relay)"
  by (simp add: first_relay_def split: option.splits)

lemma path_loop_selected:
  "path_loop paths ps fb =
     (case find pi_selected ps of
        Some p \<Rightarrow> (case pi_relay p of Some relay \<Rightarrow> Path_Relayed relay | None \<Rightarrow> Path_Direct)
      | None \<Rightarrow>
          (case (case fb of Some relay \<Rightarrow> Some relay | None \<Rightarrow> first_relay ps) of
             Some relay \<Rightarrow> if list_all pi_is_relay paths then Path_Relayed relay else Path_Direct
           | None \<Rightarrow> Path_Direct))"
  by (induction ps arbitrary: fb) (simp_all add: first_relay_Cons first_relay_def split: option.splits)

text \<open>
  The path of a record is the selected path's: the first selected path decides between
  \<open>Relayed\<close> with its relay and \<open>Direct\<close>; with no path selected yet it is \<open>Relayed\<close>, by the first
  relay seen, only when every path is a relay path.
\<close>

theorem connection_path_spec:
  "connection_path c =
     (case find pi_selected (cv_paths c) of
        Some p \<Rightarrow> (case pi_relay p of Some relay \<Rightarrow> Path_Relayed relay | None \<Rightarrow> Path_Direct)
      | None \<Rightarrow>
          (case first_relay (cv_paths c) of
             Some relay \<Rightarrow> if list_all pi_is_relay (cv_paths c) then Path_Relayed relay else Path_Direct
           | None \<Rightarrow> Path_Direct))"
  unfolding connection_path_def path_loop_selected option.case by (rule refl)

end
