(* ===== verification/Node_Auth.thy ===== *)
theory Node_Auth
  imports Policy
begin

text \<open>
  The authorization seam of the node, src/crates/uat-node/src/auth.rs: the connection gate
  (\<open>Verify\<close>), the typed path of a Submit header, and the adapter for \<open>decode\<close>.
\<close>

section \<open>The gate\<close>

definition verify_peer :: "('pk, 's) policy \<Rightarrow> node_id \<Rightarrow> bool" where
  "verify_peer p peer \<longleftrightarrow> Policy_contains p peer \<or> has_biscuit_roots p"

definition authorize_submit_header ::
  "('pk, 'tok, 'az) biscuit_lib \<Rightarrow> 's spent_ops \<Rightarrow> message \<Rightarrow> ('pk, 's) policy \<Rightarrow> node_id
     \<Rightarrow> system_time \<Rightarrow> (authorized_submit, auth_error) result returns \<times> ('pk, 's) policy" where
  "authorize_submit_header lib ops header p peer now =
     (case UnverifiedSubmit_from_header header of
        Err e \<Rightarrow> (Returns (Err e), p)
      | Ok unverified \<Rightarrow> UnverifiedSubmit_verify lib ops unverified p peer now)"

record ('pk, 's) peer_submit_auth =
  psa_peer :: node_id
  psa_verify :: "('pk, 's) policy"
  psa_now :: system_time

definition PeerSubmitAuth_new ::
  "node_id \<Rightarrow> ('pk, 's) policy \<Rightarrow> system_time \<Rightarrow> ('pk, 's) peer_submit_auth" where
  "PeerSubmitAuth_new peer v now = \<lparr>psa_peer = peer, psa_verify = v, psa_now = now\<rparr>"

definition PeerSubmitAuth_authorize_submit ::
  "('pk, 'tok, 'az) biscuit_lib \<Rightarrow> 's spent_ops \<Rightarrow> ('pk, 's) peer_submit_auth \<Rightarrow> message
     \<Rightarrow> bool option \<times> ('pk, 's) peer_submit_auth" where
  "PeerSubmitAuth_authorize_submit lib ops a header =
     (case PolicySubmitAuth_authorize_submit lib ops (psa_peer a) (psa_now a) (psa_verify a) header of
        (b, p) \<Rightarrow> (b, a\<lparr>psa_verify := p\<rparr>))"

section \<open>What an authorized submit is\<close>

lemma from_header_Ok_iff:
  "UnverifiedSubmit_from_header m = Ok u \<longleftrightarrow>
     (\<exists>t d c cr. m = Message_Submit t d c cr []) \<and> u = UnverifiedSubmit m"
  by (cases m) (auto simp: UnverifiedSubmit_from_header_def)

lemma authorized_is_header:
  assumes "authorize_submit_header lib ops header p peer now = (Returns (Ok a), p')"
  shows "as_message a = header" and "\<exists>t d c cr. header = Message_Submit t d c cr []"
proof -
  from assms obtain u where u: "UnverifiedSubmit_from_header header = Ok u"
    and v: "UnverifiedSubmit_verify lib ops u p peer now = (Returns (Ok a), p')"
    by (auto simp: authorize_submit_header_def split: sum.splits)
  from u show "\<exists>t d c cr. header = Message_Submit t d c cr []" by (simp add: from_header_Ok_iff)
  from u v show "as_message a = header"
    by (auto simp: from_header_Ok_iff UnverifiedSubmit_verify_def ret_then_Ok_iff
        split: message.splits if_splits option.splits prod.splits)
qed

text \<open>
  Handlers only ever see an authorized \<open>Submit\<close> (F4, S6): what the authorization returns is
  the body-less header it was given, with the body attached afterwards it is that header with
  exactly that body, and none of its accessors can reach its \<open>unreachable!\<close>: they return the
  header's fields.
\<close>

theorem authorized_submit_is_the_header:
  assumes "authorize_submit_header lib ops header p peer now = (Returns (Ok a), p')"
  shows "\<exists>t d c cr. header = Message_Submit t d c cr [] \<and>
    as_message (as_with_body a body) = Message_Submit t d c cr body \<and>
    as_body (as_with_body a body) = body \<and> as_rule (as_with_body a body) = as_rule a \<and>
    as_task (as_with_body a body) = Some t \<and> as_deadline (as_with_body a body) = Some d \<and>
    as_content_type (as_with_body a body) = Some c \<and> as_credential (as_with_body a body) = Some cr"
  using authorized_is_header [OF assms]
  by (auto simp: as_with_body_def as_body_def as_task_def as_deadline_def as_content_type_def
      as_credential_def)

theorem authorized_submit_is_the_header_witness:
  "\<exists>a. authorize_submit_header sample_lib memory_ops sample_submit (Policy_allow (NodeId [1])) (NodeId [1]) 0 =
     (Returns (Ok a), Policy_allow (NodeId [1])) \<and> as_body (as_with_body a [5, 6]) = [5, 6]"
proof -
  let ?a = "\<lparr>as_rule = AuthRule_Allowlist, as_message = sample_submit\<rparr>"
  have a: "authorize_submit_header sample_lib memory_ops sample_submit (Policy_allow (NodeId [1])) (NodeId [1]) 0 =
     (Returns (Ok ?a), Policy_allow (NodeId [1]))"
    by (simp add: authorize_submit_header_def UnverifiedSubmit_from_header_def sample_submit_def
        UnverifiedSubmit_verify_def Policy_contains_def Policy_allow_def)
  from authorized_submit_is_the_header [OF this, of "[5, 6]"] a show ?thesis by blast
qed

text \<open>
  The connection gate refuses nobody whose \<open>Submit\<close> would be admitted, and everything behind
  it is denied by default: an authorized header implies a peer the gate lets in, and the decode
  adapter answers exactly as the typed path does.
\<close>

theorem gate_admits_the_authorized:
  "(\<forall>a p'. authorize_submit_header lib ops header p peer now = (Returns (Ok a), p') \<longrightarrow>
      verify_peer p peer) \<and>
   fst (PeerSubmitAuth_authorize_submit lib ops (PeerSubmitAuth_new peer p now) header) =
     (case fst (authorize_submit_header lib ops header p peer now) of
        Panics \<Rightarrow> None | Returns r \<Rightarrow> Some (is_ok r))"
proof (intro conjI allI impI)
  fix a p'
  assume a: "authorize_submit_header lib ops header p peer now = (Returns (Ok a), p')"
  show "verify_peer p peer"
  proof (rule ccontr)
    assume "\<not> verify_peer p peer"
    then have "\<not> Policy_contains p peer" "policy_root_keys p = []"
      by (auto simp: verify_peer_def has_biscuit_roots_def)
    with a show False
      by (auto simp: authorize_submit_header_def UnverifiedSubmit_verify_def
          verify_biscuit_credential_def token_checks_def split: sum.splits message.splits option.splits)
  qed
next
  show "fst (PeerSubmitAuth_authorize_submit lib ops (PeerSubmitAuth_new peer p now) header) =
     (case fst (authorize_submit_header lib ops header p peer now) of
        Panics \<Rightarrow> None | Returns r \<Rightarrow> Some (is_ok r))"
    by (auto simp: PeerSubmitAuth_authorize_submit_def PolicySubmitAuth_authorize_submit_def
        PeerSubmitAuth_new_def authorize_submit_header_def split: sum.splits prod.splits returns.splits)
qed

theorem gate_admits_the_authorized_witness:
  "verify_peer (Policy_allow (NodeId [1]) :: (nat, memory_spent_set) policy) (NodeId [1])"
proof -
  have "\<exists>a. authorize_submit_header sample_lib memory_ops sample_submit (Policy_allow (NodeId [1])) (NodeId [1]) 0 =
     (Returns (Ok a), Policy_allow (NodeId [1]))"
    by (simp add: authorize_submit_header_def UnverifiedSubmit_from_header_def sample_submit_def
        UnverifiedSubmit_verify_def Policy_contains_def Policy_allow_def)
  with gate_admits_the_authorized [of sample_lib memory_ops sample_submit
      "Policy_allow (NodeId [1])" "NodeId [1]" 0] show ?thesis by blast
qed

end
