(* ===== verification/Timing.thy ===== *)
theory Timing
  imports Core_Types
begin

text \<open>
  The timer budgets of src/crates/uat-node/src/timing.rs. A \<open>Duration\<close> is a number of
  milliseconds; the sums are made in \<open>u64\<close> as in the source.
\<close>

type_synonym millis = nat

definition callee_budget :: "deadline \<Rightarrow> millis" where
  "callee_budget d = unat (ucast (Deadline_as_u32 d) :: u64)"

definition caller_budget :: "deadline \<Rightarrow> millis" where
  "caller_budget d = unat (saturating_add (ucast (Deadline_as_u32 d) :: u64) GRACE_MS)"

definition quic_idle_timeout :: millis where
  "quic_idle_timeout = unat QUIC_IDLE_TIMEOUT_MS"

definition quic_keep_alive :: millis where
  "quic_keep_alive = unat QUIC_KEEP_ALIVE_MS"

text \<open>The two fields the code sets in iroh's transport configuration.\<close>

record transport_config =
  max_idle_timeout :: "u32 option"
  keep_alive_interval :: millis

definition uat_transport_config :: transport_config where
  "uat_transport_config =
     \<lparr>max_idle_timeout = Some (ucast QUIC_IDLE_TIMEOUT_MS), keep_alive_interval = quic_keep_alive\<rparr>"

lemma unat_u32_u64: "unat (ucast (w :: u32) :: u64) = unat w"
proof -
  have "unat w < 2 ^ 32" using unsigned_less [of w] by simp
  then show ?thesis by (simp add: unsigned_ucast_eq take_bit_nat_eq_self)
qed

lemma caller_budget_eq: "caller_budget d = callee_budget d + 5000"
proof -
  have "unat (Deadline_as_u32 d) < 2 ^ 32"
    using unsigned_less [of "Deadline_as_u32 d"] by simp
  then show ?thesis
    by (simp add: caller_budget_def callee_budget_def unat_saturating_add unat_u32_u64 GRACE_MS_def)
qed

text \<open>
  The callee fires first. For every deadline the caller's budget is the callee's plus exactly
  the five seconds of grace (the saturating sum never saturates), and for a deadline a
  constructor accepts both stay under 605 seconds; the keep-alive fires at least three times
  within the idle timeout, and the idle timeout survives its narrowing to \<open>u32\<close>.
\<close>

theorem callee_fires_first:
  "caller_budget d = callee_budget d + unat GRACE_MS \<and> callee_budget d < caller_budget d \<and>
   (deadline_wf d \<longrightarrow> caller_budget d \<le> 605000) \<and>
   3 * quic_keep_alive < quic_idle_timeout \<and>
   map_option unat (max_idle_timeout uat_transport_config) = Some quic_idle_timeout"
proof (intro conjI impI)
  show "caller_budget d \<le> 605000" if "deadline_wf d"
    using that
    by (cases d) (simp add: caller_budget_eq callee_budget_def unat_u32_u64 MAX_DEADLINE_MS_def
        word_le_nat_alt)
qed (simp_all add: caller_budget_eq GRACE_MS_def quic_keep_alive_def quic_idle_timeout_def
    QUIC_KEEP_ALIVE_MS_def QUIC_IDLE_TIMEOUT_MS_def uat_transport_config_def)

theorem callee_fires_first_witness: "caller_budget (Deadline 600000) \<le> 605000"
  using callee_fires_first [of "Deadline 600000"] by (simp add: MAX_DEADLINE_MS_def)

end
