(* ===== verification/Call_Driver.thy ===== *)
theory Call_Driver
  imports Call_State Call_Record Node_Auth Timing
begin

text \<open>
  The call tasks of src/crates/uat-node/src/call.rs. A task awaits its environment in \<open>select!\<close>
  loops; the environment's answers (which branch completed, with what result; the result of each
  write) are the arguments of the model, in the order the task asks for them, and what the task
  does on the wire is a list of actions. A task that used up its answers is still waiting.
  Timeouts around network operations are part of the answers: \<open>None\<close> is an elapsed budget.
\<close>

section \<open>Answers and actions\<close>

datatype conn_error = ConnError_ApplicationClosed nat | ConnError_TimedOut | ConnError_Other

datatype callee_behavior = StubComplete | HangAfterAccept | NeedInputHang | SilentHang

definition code_reason :: "close_code \<Rightarrow> string" where
  "code_reason code =
     (case code of
        CloseCode_Normal \<Rightarrow> ''normal''
      | CloseCode_RateLimited \<Rightarrow> ''rate_limited''
      | CloseCode_FrameTooLarge \<Rightarrow> ''frame_too_large''
      | CloseCode_MalformedFrame \<Rightarrow> ''malformed_frame''
      | CloseCode_ProtocolViolation \<Rightarrow> ''protocol_violation''
      | CloseCode_Timeout \<Rightarrow> ''timeout'')"

datatype wire_action = Act_Write message | Act_Finish | Act_Close u32 string

definition close_with :: "close_code \<Rightarrow> wire_action" where
  "close_with code = Act_Close (CloseCode_as_u32 code) (code_reason code)"

definition close_on_frame_err :: "frame_io_error \<Rightarrow> wire_action list" where
  "close_on_frame_err err =
     (case FrameIoError_close_code err of Some code \<Rightarrow> [close_with code] | None \<Rightarrow> [])"

definition close_code_from_conn_err :: "conn_error \<Rightarrow> close_code" where
  "close_code_from_conn_err err =
     (case err of
        ConnError_ApplicationClosed app \<Rightarrow>
          (case CloseCode_from_u32 (word_of_nat app) of
             Some code \<Rightarrow> code | None \<Rightarrow> CloseCode_ProtocolViolation)
      | ConnError_TimedOut \<Rightarrow> CloseCode_Timeout
      | ConnError_Other \<Rightarrow> CloseCode_ProtocolViolation)"

text \<open>\<open>await_network\<close>: \<open>None\<close> when the budget elapsed first.\<close>

definition await_network :: "('a, frame_io_error) result option \<Rightarrow> ('a, call_error) result" where
  "await_network answer =
     (case answer of
        Some (Ok v) \<Rightarrow> Ok v
      | Some (Err e) \<Rightarrow> Err (CallError_Frame e)
      | None \<Rightarrow> Err CallError_NetworkTimeout)"

type_synonym write_answer = "(unit, frame_io_error) result option"

definition CodecError_to_string :: "codec_error \<Rightarrow> string" where
  "CodecError_to_string e =
     (case e of
        CodecError_FrameTooLarge \<Rightarrow> ''frame too large''
      | CodecError_Truncated \<Rightarrow> ''truncated frame''
      | CodecError_BadLength \<Rightarrow> ''len inconsistent with hdr_len''
      | CodecError_MalformedHeader \<Rightarrow> ''malformed header json''
      | CodecError_HeaderTooLarge \<Rightarrow> ''header too large to encode''
      | CodecError_EncodeTooLarge \<Rightarrow> ''frame too large to encode''
      | CodecError_SubmitDenied \<Rightarrow> ''submit denied before body copy'')"

definition FrameIoError_to_string :: "frame_io_error \<Rightarrow> string" where
  "FrameIoError_to_string e =
     (case e of
        FrameIoError_Codec c \<Rightarrow> CodecError_to_string c
      | FrameIoError_Read _ \<Rightarrow> ''stream read failed''
      | FrameIoError_Write _ \<Rightarrow> ''stream write failed''
      | FrameIoError_UnexpectedEnd \<Rightarrow> ''stream ended before frame complete'')"

definition CallError_to_string :: "call_error \<Rightarrow> string" where
  "CallError_to_string e =
     (case e of
        CallError_StreamSetup s \<Rightarrow> ''stream setup failed: '' @ s
      | CallError_Frame fe \<Rightarrow> FrameIoError_to_string fe
      | CallError_Illegal \<Rightarrow> ''illegal state transition''
      | CallError_Unauthorized \<Rightarrow> ''peer not authorized''
      | CallError_Cancelled \<Rightarrow> ''call cancelled''
      | CallError_Connection s \<Rightarrow> ''connection failed: '' @ s
      | CallError_NetworkTimeout \<Rightarrow> ''network operation timed out'')"

text \<open>Where a task is: still waiting, unwinding from a panic, or done.\<close>

datatype 'a progress = Waiting | Panicked | Done 'a

type_synonym call_task = "(outcome, call_error) result progress"

section \<open>The watchdog\<close>

datatype watch_answer = Watch_Cancelled | Watch_Accept_Bi bool

definition watch_second_stream :: "watch_answer \<Rightarrow> wire_action list" where
  "watch_second_stream a =
     (case a of
        Watch_Cancelled \<Rightarrow> []
      | Watch_Accept_Bi ok \<Rightarrow> if ok then [close_with CloseCode_ProtocolViolation] else [])"

section \<open>The caller\<close>

text \<open>
  One answer per iteration of the caller's \<open>select!\<close>. The receiver of a requested cancel is
  absent, waiting or completed: polling a completed one panics. The branches are polled in
  order (\<open>biased\<close>): cancellation, the timer and the end of the connection come before it, the read
  after it.
\<close>

datatype request_cancel = RC_None | RC_Waiting | RC_Completed

datatype caller_select =
    CSel_Cancelled
  | CSel_Timer
  | CSel_Closed conn_error
  | CSel_Cancel_Sent write_answer
  | CSel_Cancel_Dropped
  | CSel_Read "(message, frame_io_error) result option"

text \<open>A request cannot arrive without a receiver: such an answer is passed over.\<close>

fun caller_select_loop ::
  "caller_state \<Rightarrow> request_cancel \<Rightarrow> call_record_guard \<Rightarrow> caller_select list
     \<Rightarrow> call_task \<times> call_record_guard \<times> wire_action list" where
  "caller_select_loop (Caller_Terminal out) rc g sels = (Done (Ok out), g, [close_with CloseCode_Normal])"
| "caller_select_loop state rc g [] = (Waiting, g, [])"
| "caller_select_loop state rc g (CSel_Cancelled # sels) = (Done (Err CallError_Cancelled), g, [])"
| "caller_select_loop state rc g (CSel_Timer # sels) =
     (case caller_step state Caller_Timeout of
        Ok step \<Rightarrow>
          (case step_state step of
             Caller_Terminal out \<Rightarrow> (Done (Ok out), g, [close_with CloseCode_Timeout])
           | _ \<Rightarrow> (Done (Ok (Outcome_Closed CloseCode_Timeout)), g, [close_with CloseCode_Timeout]))
      | Err _ \<Rightarrow> (Done (Err CallError_Illegal), g, [close_with CloseCode_ProtocolViolation]))"
| "caller_select_loop state rc g (CSel_Closed err # sels) =
     (let code = close_code_from_conn_err err;
          g = (if code = CloseCode_RateLimited then clear_task g else g) in
      case caller_step state (Caller_ConnLost code) of
        Ok step \<Rightarrow>
          (case step_state step of
             Caller_Terminal out \<Rightarrow> (Done (Ok out), g, [])
           | _ \<Rightarrow> (Done (Err CallError_Illegal), g, []))
      | Err _ \<Rightarrow> (Done (Err CallError_Illegal), g, []))"
| "caller_select_loop state rc g (CSel_Cancel_Sent w # sels) =
     (case rc of
        RC_Completed \<Rightarrow> (Panicked, g, [])
      | RC_None \<Rightarrow> caller_select_loop state rc g sels
      | RC_Waiting \<Rightarrow>
          (case caller_step state (Caller_Send Message_Cancel) of
             Ok step \<Rightarrow>
               (case await_network w of
                  Ok _ \<Rightarrow>
                    (case caller_select_loop (step_state step) RC_None g sels of
                       (r, g, acts) \<Rightarrow> (r, g, Act_Write Message_Cancel # acts))
                | Err err \<Rightarrow>
                    (Done (Err err), g, Act_Write Message_Cancel #
                       (case err of CallError_Frame fe \<Rightarrow> close_on_frame_err fe | _ \<Rightarrow> [])))
           | Err _ \<Rightarrow> (Done (Err CallError_Illegal), g, [close_with CloseCode_ProtocolViolation])))"
| "caller_select_loop state rc g (CSel_Cancel_Dropped # sels) =
     (case rc of
        RC_Completed \<Rightarrow> (Panicked, g, [])
      | RC_None \<Rightarrow> caller_select_loop state rc g sels
      | RC_Waiting \<Rightarrow> caller_select_loop state RC_Completed g sels)"
| "caller_select_loop state rc g (CSel_Read m # sels) =
     (if rc = RC_Completed then (Panicked, g, [])
      else case await_network m of
        Err CallError_NetworkTimeout \<Rightarrow>
          (Done (Ok (Outcome_Closed CloseCode_Timeout)), g, [close_with CloseCode_Timeout])
      | Err (CallError_Frame err) \<Rightarrow>
          (Done (Err (CallError_Frame err)), g, close_on_frame_err err)
      | Err err \<Rightarrow> (Done (Err err), g, [])
      | Ok msg \<Rightarrow>
          (case caller_step state (Caller_Recv msg) of
             Ok step \<Rightarrow> caller_select_loop (step_state step) rc g sels
           | Err _ \<Rightarrow>
               (Done (Err CallError_Illegal), g, [close_with CloseCode_ProtocolViolation])))"

text \<open>\<open>close_reason\<close> is what the connection reports right after the write of the Submit.\<close>

definition caller_loop ::
  "message \<Rightarrow> write_answer \<Rightarrow> conn_error option \<Rightarrow> request_cancel \<Rightarrow> caller_select list
     \<Rightarrow> call_record_guard \<Rightarrow> call_task \<times> call_record_guard \<times> wire_action list" where
  "caller_loop submit w close_reason rc sels g =
     (case submit of
        Message_Submit task _ _ _ _ \<Rightarrow>
          (case caller_step Caller_Dialing (Caller_Send submit) of
             Err _ \<Rightarrow> (Done (Err CallError_Illegal), g, [])
           | Ok step \<Rightarrow>
               (let code = map_option close_code_from_conn_err close_reason in
                case await_network w of
                  Err err \<Rightarrow>
                    if code = Some CloseCode_RateLimited
                    then (Done (Err (CallError_Connection (CallError_to_string err))),
                          set_outcome (clear_task g) (Outcome_Closed CloseCode_RateLimited),
                          [Act_Write submit])
                    else (Done (Err err), g, Act_Write submit #
                            (case err of CallError_Frame fe \<Rightarrow> close_on_frame_err fe | _ \<Rightarrow> []))
                | Ok _ \<Rightarrow>
                    if code = Some CloseCode_RateLimited
                    then (Done (Ok (Outcome_Closed CloseCode_RateLimited)),
                          set_outcome (clear_task g) (Outcome_Closed CloseCode_RateLimited),
                          [Act_Write submit])
                    else (case caller_select_loop (step_state step) rc (set_task g task) sels of
                            (r, g, acts) \<Rightarrow> (r, g, Act_Write submit # acts))))
      | _ \<Rightarrow> (Done (Err CallError_Illegal), g, []))"

text \<open>The answer to \<open>timeout(quic_idle_timeout(), conn.open_bi())\<close>, with \<open>conn.close_reason()\<close>
  where the code asks for it.\<close>

datatype stream_answer =
  Stream_Opened | Stream_Failed string "conn_error option" | Stream_Elapsed "conn_error option"

text \<open>
  \<open>run_caller_with\<close>; \<open>started\<close> and \<open>start\<close> are the clocks at its begin, \<open>now\<close> and \<open>view\<close> the clock and
  the connection when the guard is dropped. A task that still waits has emitted nothing.
\<close>

definition caller_body ::
  "system_time \<Rightarrow> nat \<Rightarrow> node_id \<Rightarrow> message \<Rightarrow> stream_answer \<Rightarrow> write_answer \<Rightarrow> conn_error option
     \<Rightarrow> request_cancel \<Rightarrow> caller_select list \<Rightarrow> call_task \<times> call_record_guard \<times> wire_action list" where
  "caller_body started start peer submit opened w close_reason rc sels =
     (let record = CallRecordGuard_new started start Direction_Outbound peer AuthOutcome_NotReached in
      if \<not> is_Submit submit
      then (Done (Err CallError_Illegal),
            set_outcome record (Outcome_Closed CloseCode_ProtocolViolation), [])
      else case opened of
        Stream_Failed e (Some closed) \<Rightarrow>
          (Done (Err (CallError_Connection e)),
           set_outcome record (Outcome_Closed (close_code_from_conn_err closed)), [])
      | Stream_Failed e None \<Rightarrow>
          (let err = CallError_StreamSetup e in
           (Done (Err err), set_outcome record (outcome_from_call_error err), []))
      | Stream_Elapsed (Some closed) \<Rightarrow>
          (Done (Err CallError_NetworkTimeout),
           set_outcome record (Outcome_Closed (close_code_from_conn_err closed)), [])
      | Stream_Elapsed None \<Rightarrow>
          (let err = CallError_StreamSetup ''open_bi timed out'' in
           (Done (Err err), set_outcome record (outcome_from_call_error err), []))
      | Stream_Opened \<Rightarrow>
          (case caller_loop submit w close_reason rc sels record of
             (Done result, record, acts) \<Rightarrow> (Done result, observe_result record result, acts)
           | (r, record, acts) \<Rightarrow> (r, record, acts)))"

definition drop_guard ::
  "('snk \<Rightarrow> call_record \<Rightarrow> 'snk) \<Rightarrow> conn_view \<Rightarrow> nat \<Rightarrow> 'snk
     \<Rightarrow> call_task \<times> call_record_guard \<times> wire_action list \<Rightarrow> call_task \<times> wire_action list \<times> 'snk" where
  "drop_guard emit view now sink r =
     (case r of (res, g, acts) \<Rightarrow>
        (res, acts, if res = Waiting then sink else guard_drop emit view now g sink))"

definition run_caller_with ::
  "('snk \<Rightarrow> call_record \<Rightarrow> 'snk) \<Rightarrow> conn_view \<Rightarrow> nat \<Rightarrow> 'snk \<Rightarrow> system_time \<Rightarrow> nat \<Rightarrow> node_id
     \<Rightarrow> message \<Rightarrow> stream_answer \<Rightarrow> write_answer \<Rightarrow> conn_error option \<Rightarrow> request_cancel
     \<Rightarrow> caller_select list \<Rightarrow> call_task \<times> wire_action list \<times> 'snk" where
  "run_caller_with emit view now sink started start peer submit opened w close_reason rc sels =
     drop_guard emit view now sink
       (caller_body started start peer submit opened w close_reason rc sels)"

definition run_caller ::
  "('snk \<Rightarrow> call_record \<Rightarrow> 'snk) \<Rightarrow> conn_view \<Rightarrow> nat \<Rightarrow> 'snk \<Rightarrow> system_time \<Rightarrow> nat \<Rightarrow> node_id
     \<Rightarrow> message \<Rightarrow> stream_answer \<Rightarrow> write_answer \<Rightarrow> conn_error option
     \<Rightarrow> caller_select list \<Rightarrow> call_task \<times> wire_action list \<times> 'snk" where
  "run_caller emit view now sink started start peer submit opened w close_reason sels =
     run_caller_with emit view now sink started start peer submit opened w close_reason RC_None sels"

section \<open>The callee\<close>

text \<open>The first \<open>select!\<close>, before any Submit; and one answer per iteration of the later loop, with the
  answer to the write the iteration may make.\<close>

datatype first_select =
    FSel_Cancelled
  | FSel_Closed
  | FSel_Frame "(bytes, frame_io_error) result option"

datatype callee_select =
    ESel_Cancelled
  | ESel_Timer write_answer
  | ESel_Closed conn_error
  | ESel_Read "(message, frame_io_error) result option" write_answer

datatype linger = Linger_Cancelled | Linger_Closed | Linger_Grace

definition emit_callee ::
  "callee_state \<Rightarrow> message \<Rightarrow> write_answer \<Rightarrow> (callee_state, call_error) result \<times> wire_action list" where
  "emit_callee state msg w =
     (case callee_step state (Callee_Send msg) of
        Err _ \<Rightarrow> (Err CallError_Illegal, [close_with CloseCode_ProtocolViolation])
      | Ok step \<Rightarrow>
          (case await_network w of
             Err err \<Rightarrow>
               (Err err, Act_Write msg #
                  (case err of CallError_Frame fe \<Rightarrow> close_on_frame_err fe | _ \<Rightarrow> []))
           | Ok _ \<Rightarrow> (Ok (step_state step), [Act_Write msg])))"

definition stub_messages :: "callee_behavior \<Rightarrow> message list" where
  "stub_messages behavior =
     (case behavior of
        StubComplete \<Rightarrow> [Message_Accepted, Message_Completed []]
      | HangAfterAccept \<Rightarrow> [Message_Accepted]
      | SilentHang \<Rightarrow> [Message_Accepted]
      | NeedInputHang \<Rightarrow> [Message_Accepted, Message_NeedInput])"

text \<open>The emissions of the stub behaviour, one after the other, each with its \<open>?\<close>; a missing
  answer leaves the task in that write.\<close>

fun emit_stub ::
  "callee_state \<Rightarrow> message list \<Rightarrow> write_answer list
     \<Rightarrow> (callee_state, call_error) result progress \<times> wire_action list" where
  "emit_stub state [] ws = (Done (Ok state), [])"
| "emit_stub state (m # ms) [] = (Waiting, [])"
| "emit_stub state (m # ms) (w # ws) =
     (case emit_callee state m w of
        (Err e, acts) \<Rightarrow> (Done (Err e), acts)
      | (Ok state, acts) \<Rightarrow>
          (case emit_stub state ms ws of (r, acts') \<Rightarrow> (r, acts @ acts')))"

fun callee_wait_terminal ::
  "callee_state \<Rightarrow> bool \<Rightarrow> callee_select list \<Rightarrow> call_task \<times> wire_action list" where
  "callee_wait_terminal (Callee_Terminal out) ignore sels = (Done (Ok out), [])"
| "callee_wait_terminal state ignore [] = (Waiting, [])"
| "callee_wait_terminal state ignore (ESel_Cancelled # sels) = (Done (Err CallError_Cancelled), [])"
| "callee_wait_terminal state ignore (ESel_Timer w # sels) =
     (case callee_step state Callee_Timeout of
        Ok step \<Rightarrow>
          (let acts = (case step_emit step of Some msg \<Rightarrow> [Act_Write msg] | None \<Rightarrow> []) in
           case step_state step of
             Callee_Terminal out \<Rightarrow> (Done (Ok out), acts @ [close_with CloseCode_Normal])
           | _ \<Rightarrow> (Done (Err CallError_Illegal), acts))
      | Err _ \<Rightarrow> (Done (Err CallError_Illegal), [close_with CloseCode_ProtocolViolation]))"
| "callee_wait_terminal state ignore (ESel_Closed err # sels) =
     (case callee_step state (Callee_ConnLost (close_code_from_conn_err err)) of
        Ok step \<Rightarrow>
          (case step_state step of
             Callee_Terminal out \<Rightarrow> (Done (Ok out), [])
           | _ \<Rightarrow> (Done (Err CallError_Illegal), []))
      | Err _ \<Rightarrow> (Done (Err CallError_Illegal), []))"
| "callee_wait_terminal state ignore (ESel_Read m w # sels) =
     (if ignore then callee_wait_terminal state ignore sels
      else case await_network m of
        Err CallError_NetworkTimeout \<Rightarrow> callee_wait_terminal state ignore sels
      | Err (CallError_Frame err) \<Rightarrow>
          (case err of
             FrameIoError_Codec c \<Rightarrow> (Done (Err (CallError_Frame err)), close_on_frame_err err)
           | _ \<Rightarrow>
               (case callee_step state (Callee_ConnLost CloseCode_Normal) of
                  Ok step \<Rightarrow>
                    (case step_state step of
                       Callee_Terminal out \<Rightarrow> (Done (Ok out), [])
                     | _ \<Rightarrow> (Done (Ok Outcome_PeerLost), []))
                | Err _ \<Rightarrow> (Done (Err CallError_Illegal), [])))
      | Err err \<Rightarrow> (Done (Err err), [])
      | Ok msg \<Rightarrow>
          (case callee_step state (Callee_Recv msg) of
             Ok step \<Rightarrow>
               (case step_emit step of
                  None \<Rightarrow> callee_wait_terminal (step_state step) ignore sels
                | Some emit \<Rightarrow>
                    (case await_network w of
                       Err err \<Rightarrow>
                         (Done (Err err), Act_Write emit #
                            (case err of CallError_Frame fe \<Rightarrow> close_on_frame_err fe | _ \<Rightarrow> []))
                     | Ok _ \<Rightarrow>
                         (case callee_wait_terminal (step_state step) ignore sels of
                            (r, acts) \<Rightarrow> (r, Act_Write emit # acts))))
           | Err _ \<Rightarrow> (Done (Err CallError_Illegal), [close_with CloseCode_ProtocolViolation])))"

text \<open>A silent callee never polls its reads: such an answer is passed over.\<close>

definition handle_authorized_submit ::
  "callee_behavior \<Rightarrow> write_answer list \<Rightarrow> callee_select list \<Rightarrow> linger option \<Rightarrow> authorized_submit
     \<Rightarrow> call_record_guard \<Rightarrow> call_task \<times> call_record_guard \<times> wire_action list" where
  "handle_authorized_submit behavior ws sels lng submit g =
     (case (as_deadline submit, as_task submit) of
        (Some dl, Some t) \<Rightarrow>
          (let g = set_task g t in
           case emit_stub Callee_Offered (stub_messages behavior) ws of
             (Done (Ok state), acts) \<Rightarrow>
               (case callee_wait_terminal state (behavior = SilentHang) sels of
                  (Done (Ok out), acts') \<Rightarrow>
                    (case lng of
                       None \<Rightarrow> (Waiting, g, acts @ acts' @ [Act_Finish])
                     | Some Linger_Closed \<Rightarrow> (Done (Ok out), g, acts @ acts' @ [Act_Finish])
                     | Some _ \<Rightarrow>
                         (Done (Ok out), g,
                          acts @ acts' @ [Act_Finish, close_with CloseCode_Normal]))
                | (r, acts') \<Rightarrow> (r, g, acts @ acts'))
           | (Done (Err e), acts) \<Rightarrow> (Done (Err e), g, acts)
           | (Waiting, acts) \<Rightarrow> (Waiting, g, acts)
           | (Panicked, acts) \<Rightarrow> (Panicked, g, acts))
      | _ \<Rightarrow> (Panicked, g, []))"

definition AuthError_to_reason :: "auth_error \<Rightarrow> string" where
  "AuthError_to_reason err =
     (case err of
        AuthError_Denied _ \<Rightarrow> ''submit denied by allowlist''
      | AuthError_TokenUnauthorized \<Rightarrow> ''biscuit token unauthorized''
      | AuthError_NotSubmit \<Rightarrow> ''not a Submit message''
      | AuthError_NotHeaderOnly \<Rightarrow> ''Submit already has a body; verify requires header-only'')"

text \<open>
  The refusal is written without a budget and its result is ignored: a missing answer is a write
  that has not returned.
\<close>

definition callee_loop ::
  "(bytes \<Rightarrow> message option) \<Rightarrow> ('pk, 'tok, 'az) biscuit_lib \<Rightarrow> 's spent_ops \<Rightarrow> node_id
     \<Rightarrow> ('pk, 's) policy \<Rightarrow> system_time \<Rightarrow> callee_behavior \<Rightarrow> first_select option
     \<Rightarrow> write_answer list \<Rightarrow> callee_select list \<Rightarrow> linger option \<Rightarrow> call_record_guard
     \<Rightarrow> (call_task \<times> call_record_guard \<times> wire_action list) \<times> ('pk, 's) policy" where
  "callee_loop from_slice lib ops peer p now behavior first ws sels lng g =
     (case first of
        None \<Rightarrow> ((Waiting, g, []), p)
      | Some FSel_Cancelled \<Rightarrow> ((Done (Err CallError_Cancelled), g, []), p)
      | Some FSel_Closed \<Rightarrow> ((Done (Ok Outcome_PeerLost), g, []), p)
      | Some (FSel_Frame answer) \<Rightarrow>
          (case await_network answer of
             Err (CallError_Frame err) \<Rightarrow>
               ((Done (Err (CallError_Frame err)), g, close_on_frame_err err), p)
           | Err CallError_NetworkTimeout \<Rightarrow>
               ((Done (Ok (Outcome_Closed CloseCode_Timeout)), g, [close_with CloseCode_Timeout]), p)
           | Err err \<Rightarrow> ((Done (Err err), g, []), p)
           | Ok frame \<Rightarrow>
               (case split_frame from_slice frame of
                  Err err \<Rightarrow>
                    ((Done (Err (CallError_Frame (FrameIoError_Codec err))), g,
                      close_on_frame_err (FrameIoError_Codec err)), p)
                | Ok (header, body) \<Rightarrow>
                    (case authorize_submit_header lib ops header p peer now of
                       (Panics, p) \<Rightarrow> ((Panicked, g, []), p)
                     | (Returns (Err err), p) \<Rightarrow>
                         if ws = [] then ((Waiting, g, []), p)
                         else ((Done (Err CallError_Unauthorized),
                                set_authorization g (AuthOutcome_Denied (AuthError_to_reason err)),
                                [Act_Write (Message_Failed FailureCode_Unauthorized), Act_Finish,
                                 close_with CloseCode_Normal]), p)
                     | (Returns (Ok authorized), p) \<Rightarrow>
                         (let authorized = as_with_body authorized body;
                              g = set_authorization g (AuthOutcome_Allowed (as_rule authorized)) in
                          (handle_authorized_submit behavior ws sels lng authorized g, p))))))"

text \<open>
  What becomes of the policy: the first frame's header is authorized against it, and that is the
  only time the task touches it. The clock reading is the one the loop made before it waited.
\<close>

definition authorize_first ::
  "(bytes \<Rightarrow> message option) \<Rightarrow> ('pk, 'tok, 'az) biscuit_lib \<Rightarrow> 's spent_ops \<Rightarrow> node_id
     \<Rightarrow> ('pk, 's) policy \<Rightarrow> system_time \<Rightarrow> first_select option
     \<Rightarrow> (authorized_submit, auth_error) result returns option \<times> ('pk, 's) policy" where
  "authorize_first from_slice lib ops peer p now first =
     (case first of
        Some (FSel_Frame (Some (Ok frame))) \<Rightarrow>
          (case split_frame from_slice frame of
             Ok (header, body) \<Rightarrow>
               (case authorize_submit_header lib ops header p peer now of (v, p) \<Rightarrow> (Some v, p))
           | Err _ \<Rightarrow> (None, p))
      | _ \<Rightarrow> (None, p))"

definition callee_body ::
  "(bytes \<Rightarrow> message option) \<Rightarrow> ('pk, 'tok, 'az) biscuit_lib \<Rightarrow> 's spent_ops \<Rightarrow> system_time \<Rightarrow> nat
     \<Rightarrow> node_id \<Rightarrow> ('pk, 's) policy \<Rightarrow> system_time \<Rightarrow> callee_behavior \<Rightarrow> stream_answer
     \<Rightarrow> first_select option \<Rightarrow> write_answer list \<Rightarrow> callee_select list \<Rightarrow> linger option
     \<Rightarrow> (call_task \<times> call_record_guard \<times> wire_action list) \<times> ('pk, 's) policy" where
  "callee_body from_slice lib ops started start peer p now behavior accepted first ws sels lng =
     (let record = CallRecordGuard_new started start Direction_Inbound peer
            (AuthOutcome_Allowed AuthRule_Allowlist) in
      if \<not> verify_peer p peer
      then ((Done (Err CallError_Unauthorized),
             set_outcome (set_authorization record (AuthOutcome_Denied ''not on allowlist''))
               (Outcome_Closed CloseCode_Normal),
             [close_with CloseCode_Normal]), p)
      else case accepted of
        Stream_Failed e _ \<Rightarrow>
          (let err = CallError_StreamSetup e in
           ((Done (Err err), set_outcome record (outcome_from_call_error err), []), p))
      | Stream_Elapsed _ \<Rightarrow>
          (let err = CallError_StreamSetup ''accept_bi timed out'' in
           ((Done (Err err), set_outcome record (outcome_from_call_error err), []), p))
      | Stream_Opened \<Rightarrow>
          (case callee_loop from_slice lib ops peer p now behavior first ws sels lng record of
             ((Done result, record, acts), p) \<Rightarrow>
               ((Done result, observe_result record result, acts), p)
           | ((r, record, acts), p) \<Rightarrow> ((r, record, acts), p)))"

definition run_callee_with ::
  "('snk \<Rightarrow> call_record \<Rightarrow> 'snk) \<Rightarrow> conn_view \<Rightarrow> nat \<Rightarrow> 'snk \<Rightarrow> (bytes \<Rightarrow> message option)
     \<Rightarrow> ('pk, 'tok, 'az) biscuit_lib \<Rightarrow> 's spent_ops \<Rightarrow> system_time \<Rightarrow> nat \<Rightarrow> node_id
     \<Rightarrow> ('pk, 's) policy \<Rightarrow> system_time \<Rightarrow> callee_behavior \<Rightarrow> stream_answer \<Rightarrow> first_select option
     \<Rightarrow> write_answer list \<Rightarrow> callee_select list \<Rightarrow> linger option
     \<Rightarrow> (call_task \<times> wire_action list \<times> 'snk) \<times> ('pk, 's) policy" where
  "run_callee_with emit view t sink from_slice lib ops started start peer p now behavior accepted
     first ws sels lng =
     (case callee_body from_slice lib ops started start peer p now behavior accepted first ws sels lng of
        (r, p) \<Rightarrow> (drop_guard emit view t sink r, p))"

definition run_callee ::
  "('snk \<Rightarrow> call_record \<Rightarrow> 'snk) \<Rightarrow> conn_view \<Rightarrow> nat \<Rightarrow> 'snk \<Rightarrow> (bytes \<Rightarrow> message option)
     \<Rightarrow> ('pk, 'tok, 'az) biscuit_lib \<Rightarrow> 's spent_ops \<Rightarrow> system_time \<Rightarrow> nat \<Rightarrow> node_id
     \<Rightarrow> ('pk, 's) policy \<Rightarrow> system_time \<Rightarrow> stream_answer \<Rightarrow> first_select option
     \<Rightarrow> write_answer list \<Rightarrow> callee_select list \<Rightarrow> linger option
     \<Rightarrow> (call_task \<times> wire_action list \<times> 'snk) \<times> ('pk, 's) policy" where
  "run_callee emit view t sink from_slice lib ops started start peer p now accepted first ws sels lng =
     run_callee_with emit view t sink from_slice lib ops started start peer p now StubComplete
       accepted first ws sels lng"

end
