(* ===== verification/Chan_Harness.thy ===== *)
theory Chan_Harness
  imports Call_Protocol Call_Driver
begin

text \<open>
  The in-memory composition of a caller and a callee, \<open>drive_chan_call\<close> of
  src/crates/uat-node/src/call.rs: two tasks over two unbounded channels with tokio's paused clock.
  Each task is a function of the branch its \<open>select!\<close> takes; the system lets the tasks run in any
  order, and time advances, as the paused clock does, only when no task can go on.
\<close>

section \<open>The caller's task\<close>

datatype timer_event = TimerEvent_CalleeDeadlineFired | TimerEvent_CallerGraceFired

text \<open>A finished branch: the timer, the requested cancel (sent, or its sender dropped), a received
  message or the end of the channel, the notification that the call is closed.\<close>

datatype chan_answer = Chan_Timer | Chan_Cancel bool | Chan_Recv "message option" | Chan_Closed

text \<open>The last parameter of a loop is when its timer fires.\<close>

datatype caller_task =
    CT_Start
  | CT_Loop caller_state request_cancel millis
  | CT_Panicked
  | CT_Done "(outcome, call_error) result"

definition caller_at :: "caller_state \<Rightarrow> request_cancel \<Rightarrow> millis \<Rightarrow> caller_task" where
  "caller_at state rc t =
     (case state of Caller_Terminal out \<Rightarrow> CT_Done (Ok out) | _ \<Rightarrow> CT_Loop state rc t)"

definition drive_caller_start ::
  "message \<Rightarrow> request_cancel \<Rightarrow> bool \<Rightarrow> millis \<Rightarrow> caller_task \<times> message list" where
  "drive_caller_start submit rc callee_gone now =
     (case submit of
        Message_Submit _ deadline _ _ _ \<Rightarrow>
          (case caller_step Caller_Dialing (Caller_Send submit) of
             Err _ \<Rightarrow> (CT_Done (Err CallError_Illegal), [])
           | Ok step \<Rightarrow>
               if callee_gone then (CT_Done (Err (CallError_Connection ''callee gone'')), [])
               else (caller_at (step_state step) rc (now + caller_budget deadline), [submit]))
      | _ \<Rightarrow> (CT_Done (Err CallError_Illegal), []))"

definition caller_chan_lost :: "caller_state \<Rightarrow> caller_task" where
  "caller_chan_lost state =
     (case caller_step state (Caller_ConnLost CloseCode_Normal) of
        Err _ \<Rightarrow> CT_Done (Err CallError_Illegal)
      | Ok step \<Rightarrow>
          (case step_state step of
             Caller_Terminal out \<Rightarrow> CT_Done (Ok out)
           | _ \<Rightarrow> CT_Done (Ok Outcome_PeerLost)))"

text \<open>
  One iteration: the task it goes on as, what it sends, the timer events. Polling a completed
  receiver of the cancel request panics, and only the timer is polled before it.
\<close>

definition drive_caller_select ::
  "caller_state \<Rightarrow> request_cancel \<Rightarrow> millis \<Rightarrow> chan_answer \<Rightarrow> caller_task \<times> message list \<times> timer_event list"
where
  "drive_caller_select state rc t a =
     (case a of
        Chan_Timer \<Rightarrow>
          (case caller_step state Caller_Timeout of
             Err _ \<Rightarrow> (CT_Done (Err CallError_Illegal), [], [TimerEvent_CallerGraceFired])
           | Ok step \<Rightarrow>
               (case step_state step of
                  Caller_Terminal out \<Rightarrow> (CT_Done (Ok out), [], [TimerEvent_CallerGraceFired])
                | _ \<Rightarrow>
                    (CT_Done (Ok (Outcome_Closed CloseCode_Timeout)), [], [TimerEvent_CallerGraceFired])))
      | _ \<Rightarrow>
          if rc = RC_Completed then (CT_Panicked, [], [])
          else case a of
            Chan_Cancel sent \<Rightarrow>
              if rc = RC_None then (CT_Loop state rc t, [], [])
              else if \<not> sent then (CT_Loop state RC_Completed t, [], [])
              else (case caller_step state (Caller_Send Message_Cancel) of
                      Err _ \<Rightarrow> (CT_Done (Err CallError_Illegal), [], [])
                    | Ok step \<Rightarrow> (caller_at (step_state step) RC_None t, [Message_Cancel], []))
          | Chan_Recv (Some msg) \<Rightarrow>
              (case caller_step state (Caller_Recv msg) of
                 Err _ \<Rightarrow> (CT_Done (Err CallError_Illegal), [], [])
               | Ok step \<Rightarrow> (caller_at (step_state step) rc t, [], []))
          | _ \<Rightarrow> (caller_chan_lost state, [], []))"

section \<open>The callee's task\<close>

datatype callee_task =
    ET_Start
  | ET_Stub callee_state "message list" millis
  | ET_Loop callee_state millis
  | ET_Done "(outcome, call_error) result"

text \<open>After the stub's remaining messages comes the loop, which a terminal state leaves.\<close>

definition callee_at :: "callee_state \<Rightarrow> message list \<Rightarrow> millis \<Rightarrow> callee_task" where
  "callee_at state ms t =
     (if ms \<noteq> [] then ET_Stub state ms t
      else case state of Callee_Terminal out \<Rightarrow> ET_Done (Ok out) | _ \<Rightarrow> ET_Loop state t)"

definition drive_callee_start :: "callee_behavior \<Rightarrow> millis \<Rightarrow> message option \<Rightarrow> callee_task" where
  "drive_callee_start behavior now first =
     (case first of
        None \<Rightarrow> ET_Done (Err (CallError_Connection ''caller gone''))
      | Some (Message_Submit _ deadline _ _ _) \<Rightarrow>
          callee_at Callee_Offered (stub_messages behavior) (now + callee_budget deadline)
      | Some _ \<Rightarrow> ET_Done (Err CallError_Illegal))"

definition drive_callee_stub ::
  "callee_state \<Rightarrow> message \<Rightarrow> message list \<Rightarrow> millis \<Rightarrow> bool \<Rightarrow> callee_task \<times> message list" where
  "drive_callee_stub state msg ms t caller_gone =
     (case callee_step state (Callee_Send msg) of
        Err _ \<Rightarrow> (ET_Done (Err CallError_Illegal), [])
      | Ok step \<Rightarrow>
          if caller_gone then (ET_Done (Err (CallError_Connection ''caller gone'')), [])
          else (callee_at (step_state step) ms t, [msg]))"

definition callee_chan_lost :: "callee_state \<Rightarrow> callee_task" where
  "callee_chan_lost state =
     (case callee_step state (Callee_ConnLost CloseCode_Normal) of
        Err _ \<Rightarrow> ET_Done (Err CallError_Illegal)
      | Ok step \<Rightarrow>
          (case step_state step of
             Callee_Terminal out \<Rightarrow> ET_Done (Ok out)
           | _ \<Rightarrow> ET_Done (Ok Outcome_PeerLost)))"

definition drive_callee_select ::
  "callee_state \<Rightarrow> millis \<Rightarrow> chan_answer \<Rightarrow> callee_task \<times> message list \<times> timer_event list" where
  "drive_callee_select state t a =
     (case a of
        Chan_Timer \<Rightarrow>
          (case callee_step state Callee_Timeout of
             Err _ \<Rightarrow> (ET_Done (Err CallError_Illegal), [], [TimerEvent_CalleeDeadlineFired])
           | Ok step \<Rightarrow>
               (case step_state step of
                  Callee_Terminal out \<Rightarrow> ET_Done (Ok out)
                | _ \<Rightarrow> ET_Done (Err CallError_Illegal),
                emitted step, [TimerEvent_CalleeDeadlineFired]))
      | Chan_Recv (Some msg) \<Rightarrow>
          (case callee_step state (Callee_Recv msg) of
             Err _ \<Rightarrow> (ET_Done (Err CallError_Illegal), [], [])
           | Ok step \<Rightarrow> (callee_at (step_state step) [] t, emitted step, []))
      | _ \<Rightarrow> (callee_chan_lost state, [], []))"

section \<open>The composition\<close>

text \<open>
  A task that has finished dropped both its ends: what is sent to it is lost, and its peer reads
  the end of the channel once the queue is empty. Nobody notifies \<open>closed\<close>. The result awaits the
  caller first; \<open>join_err\<close> is the text of a task that panicked.
\<close>

fun caller_finished :: "caller_task \<Rightarrow> bool" where
  "caller_finished (CT_Done _) = True"
| "caller_finished CT_Panicked = True"
| "caller_finished _ = False"

fun callee_finished :: "callee_task \<Rightarrow> bool" where
  "callee_finished (ET_Done _) = True"
| "callee_finished _ = False"

record chan_sys =
  cs_caller :: caller_task
  cs_callee :: callee_task
  cs_c2s :: "message list"
  cs_s2c :: "message list"
  cs_now :: millis
  cs_events :: "timer_event list"

definition chan_init :: chan_sys where
  "chan_init = \<lparr>cs_caller = CT_Start, cs_callee = ET_Start, cs_c2s = [], cs_s2c = [], cs_now = 0,
     cs_events = []\<rparr>"

definition drive_chan_call ::
  "string \<Rightarrow> chan_sys \<Rightarrow> (outcome \<times> outcome, call_error) result option" where
  "drive_chan_call join_err sys =
     (case cs_caller sys of
        CT_Panicked \<Rightarrow> Some (Err (CallError_Connection join_err))
      | CT_Done c \<Rightarrow>
          (case cs_callee sys of
             ET_Done e \<Rightarrow> Some (and_then c (\<lambda>c. and_then e (\<lambda>e. Ok (c, e))))
           | _ \<Rightarrow> None)
      | _ \<Rightarrow> None)"

definition chan_push :: "bool \<Rightarrow> message list \<Rightarrow> message list \<Rightarrow> message list" where
  "chan_push gone q ms = (if gone then q else q @ ms)"

datatype chan_choice = Ch_Timer | Ch_Cancel bool | Ch_Recv

text \<open>Which branch can complete; an elapsed timer is polled before the others (\<open>biased\<close>).\<close>

definition chan_ready ::
  "millis \<Rightarrow> millis \<Rightarrow> bool \<Rightarrow> message list \<Rightarrow> chan_choice \<Rightarrow> (chan_answer \<times> message list) option" where
  "chan_ready now t gone q ch =
     (case ch of
        Ch_Timer \<Rightarrow> if t \<le> now then Some (Chan_Timer, q) else None
      | Ch_Cancel sent \<Rightarrow> if t \<le> now then None else Some (Chan_Cancel sent, q)
      | Ch_Recv \<Rightarrow>
          if t \<le> now then None
          else case q of
            m # q \<Rightarrow> Some (Chan_Recv (Some m), q)
          | [] \<Rightarrow> if gone then Some (Chan_Recv None, []) else None)"

datatype chan_event =
    Ev_Caller_Start | Ev_Caller chan_choice | Ev_Callee_Start | Ev_Callee_Stub | Ev_Callee chan_choice
  | Ev_Tick millis

text \<open>The paused clock advances when every task waits, and never past a timer.\<close>

definition chan_idle :: "callee_behavior \<Rightarrow> chan_sys \<Rightarrow> millis \<Rightarrow> bool" where
  "chan_idle behavior sys next \<longleftrightarrow>
     \<not> (caller_finished (cs_caller sys) \<and> callee_finished (cs_callee sys)) \<and>
     (case cs_caller sys of
        CT_Start \<Rightarrow> False
      | CT_Loop _ _ t \<Rightarrow> next \<le> t \<and> cs_s2c sys = [] \<and> \<not> callee_finished (cs_callee sys)
      | _ \<Rightarrow> True) \<and>
     (case cs_callee sys of
        ET_Start \<Rightarrow> cs_c2s sys = [] \<and> \<not> caller_finished (cs_caller sys)
      | ET_Stub _ _ _ \<Rightarrow> False
      | ET_Loop _ t \<Rightarrow>
          next \<le> t \<and> (behavior = SilentHang \<or> cs_c2s sys = [] \<and> \<not> caller_finished (cs_caller sys))
      | ET_Done _ \<Rightarrow> True)"

fun chan_step ::
  "message \<Rightarrow> callee_behavior \<Rightarrow> request_cancel \<Rightarrow> chan_event \<Rightarrow> chan_sys \<Rightarrow> chan_sys" where
  "chan_step submit behavior rc Ev_Caller_Start sys =
     (case cs_caller sys of
        CT_Start \<Rightarrow>
          (case drive_caller_start submit rc (callee_finished (cs_callee sys)) (cs_now sys) of
             (task, sent) \<Rightarrow> sys\<lparr>cs_caller := task, cs_c2s := cs_c2s sys @ sent\<rparr>)
      | _ \<Rightarrow> sys)"
| "chan_step submit behavior rc (Ev_Caller ch) sys =
     (case cs_caller sys of
        CT_Loop state rc t \<Rightarrow>
          (case chan_ready (cs_now sys) t (callee_finished (cs_callee sys)) (cs_s2c sys) ch of
             None \<Rightarrow> sys
           | Some (a, q) \<Rightarrow>
               (case drive_caller_select state rc t a of
                  (task, sent, evs) \<Rightarrow>
                    sys\<lparr>cs_caller := task,
                        cs_c2s := chan_push (callee_finished (cs_callee sys)) (cs_c2s sys) sent,
                        cs_s2c := q, cs_events := cs_events sys @ evs\<rparr>))
      | _ \<Rightarrow> sys)"
| "chan_step submit behavior rc Ev_Callee_Start sys =
     (case cs_callee sys of
        ET_Start \<Rightarrow>
          (case cs_c2s sys of
             m # q \<Rightarrow>
               sys\<lparr>cs_callee := drive_callee_start behavior (cs_now sys) (Some m), cs_c2s := q\<rparr>
           | [] \<Rightarrow>
               if caller_finished (cs_caller sys)
               then sys\<lparr>cs_callee := drive_callee_start behavior (cs_now sys) None\<rparr> else sys)
      | _ \<Rightarrow> sys)"
| "chan_step submit behavior rc Ev_Callee_Stub sys =
     (case cs_callee sys of
        ET_Stub state (m # ms) t \<Rightarrow>
          (case drive_callee_stub state m ms t (caller_finished (cs_caller sys)) of
             (task, sent) \<Rightarrow> sys\<lparr>cs_callee := task, cs_s2c := cs_s2c sys @ sent\<rparr>)
      | _ \<Rightarrow> sys)"
| "chan_step submit behavior rc (Ev_Callee ch) sys =
     (case cs_callee sys of
        ET_Loop state t \<Rightarrow>
          if (case ch of Ch_Timer \<Rightarrow> False | Ch_Cancel _ \<Rightarrow> True | Ch_Recv \<Rightarrow> behavior = SilentHang) then sys
          else (case chan_ready (cs_now sys) t (caller_finished (cs_caller sys)) (cs_c2s sys) ch of
             None \<Rightarrow> sys
           | Some (a, q) \<Rightarrow>
               (case drive_callee_select state t a of
                  (task, sent, evs) \<Rightarrow>
                    sys\<lparr>cs_callee := task,
                        cs_s2c := chan_push (caller_finished (cs_caller sys)) (cs_s2c sys) sent,
                        cs_c2s := q, cs_events := cs_events sys @ evs\<rparr>))
      | _ \<Rightarrow> sys)"
| "chan_step submit behavior rc (Ev_Tick d) sys =
     (if 0 < d \<and> chan_idle behavior sys (cs_now sys + d) then sys\<lparr>cs_now := cs_now sys + d\<rparr> else sys)"

inductive chan_reach :: "message \<Rightarrow> callee_behavior \<Rightarrow> request_cancel \<Rightarrow> chan_sys \<Rightarrow> bool"
  for submit behavior rc where
  spawned: "chan_reach submit behavior rc chan_init"
| runs: "chan_reach submit behavior rc sys \<Longrightarrow>
    chan_reach submit behavior rc (chan_step submit behavior rc ev sys)"

section \<open>The composition follows the protocol\<close>

text \<open>
  The simulation: what a task's state says about its side of an abstract configuration of
  \<open>Call_Protocol\<close>. A finished task says how it ended; a queue is the abstract one as long as its
  reader runs.
\<close>

fun caller_sim :: "caller_task \<Rightarrow> caller_state \<Rightarrow> bool" where
  "caller_sim CT_Start s \<longleftrightarrow> s = Caller_Dialing"
| "caller_sim (CT_Loop st rc t) s \<longleftrightarrow> s = st \<and> \<not> caller_is_terminal st \<and> st \<noteq> Caller_Dialing \<and>
     (st = Caller_Canceling \<longrightarrow> rc = RC_None)"
| "caller_sim CT_Panicked s \<longleftrightarrow> True"
| "caller_sim (CT_Done (Ok out)) s \<longleftrightarrow> s = Caller_Terminal out"
| "caller_sim (CT_Done (Err e)) s \<longleftrightarrow> e \<noteq> CallError_Illegal"

fun callee_sim :: "callee_behavior \<Rightarrow> callee_task \<Rightarrow> callee_state option \<Rightarrow> bool" where
  "callee_sim b ET_Start s \<longleftrightarrow> s = None"
| "callee_sim b (ET_Stub st ms t) s \<longleftrightarrow> s = Some st \<and> ms \<noteq> [] \<and>
     (st = Callee_Offered \<and> ms = stub_messages b \<or> st = Callee_Working \<and> ms = tl (stub_messages b))"
| "callee_sim b (ET_Loop st t) s \<longleftrightarrow> s = Some st \<and> \<not> callee_is_terminal st"
| "callee_sim b (ET_Done (Ok out)) s \<longleftrightarrow> s = Some (Callee_Terminal out)"
| "callee_sim b (ET_Done (Err e)) s \<longleftrightarrow> e \<noteq> CallError_Illegal \<and> (\<forall>out. s \<noteq> Some (Callee_Terminal out))"

definition chan_sim :: "callee_behavior \<Rightarrow> chan_sys \<Rightarrow> call_config \<Rightarrow> bool" where
  "chan_sim b sys c \<longleftrightarrow>
     caller_sim (cs_caller sys) (caller_st c) \<and> callee_sim b (cs_callee sys) (callee_st c) \<and>
     (\<not> callee_finished (cs_callee sys) \<longrightarrow> cs_c2s sys = to_callee c) \<and>
     (\<not> caller_finished (cs_caller sys) \<longrightarrow> cs_s2c sys = to_caller c)"

lemma caller_sim_at:
  "caller_sim (caller_at st rc t) st \<longleftrightarrow>
     caller_is_terminal st \<or> st \<noteq> Caller_Dialing \<and> (st = Caller_Canceling \<longrightarrow> rc = RC_None)"
  by (cases st) (simp_all add: caller_at_def)

lemma callee_sim_at_loop: "callee_sim b (callee_at st [] t) (Some st)"
  by (cases st) (simp_all add: callee_at_def)

lemma caller_finished_at [simp]: "caller_finished (caller_at st rc t) = caller_is_terminal st"
  by (cases st) (simp_all add: caller_at_def)

lemma callee_finished_at [simp]: "callee_finished (callee_at st ms t) \<longleftrightarrow> ms = [] \<and> callee_is_terminal st"
  by (cases st) (simp_all add: callee_at_def)

lemma caller_chan_lost_eq:
  "\<not> caller_is_terminal st \<Longrightarrow> caller_chan_lost st = CT_Done (Ok Outcome_PeerLost)"
  by (cases st) (simp_all add: caller_chan_lost_def step_simps conn_lost_outcome_caller_def)

lemma callee_chan_lost_eq:
  "\<not> callee_is_terminal st \<Longrightarrow> callee_chan_lost st = ET_Done (Ok Outcome_PeerLost)"
  by (cases st) (simp_all add: callee_chan_lost_def step_simps conn_lost_outcome_callee_def)

text \<open>What the protocol guarantees a task that reads.\<close>

lemma caller_reads_legal:
  assumes "call_reachable c" and "to_caller c = m # q" and "\<not> caller_is_terminal (caller_st c)"
  obtains st where "caller_step (caller_st c) (Caller_Recv m) = Ok st"
    and "step_state st \<noteq> Caller_Dialing" and "step_state st = Caller_Canceling \<Longrightarrow> caller_st c = Caller_Canceling"
proof -
  from call_reachable_inv [OF assms(1)] assms(2,3)
  obtain st where st: "caller_step (caller_st c) (Caller_Recv m) = Ok st"
    by (auto simp: call_inv_nonterminal and_then_Ok_iff)
  then have "step_state st \<noteq> Caller_Dialing" "step_state st = Caller_Canceling \<Longrightarrow> caller_st c = Caller_Canceling"
    by (cases "caller_st c"; cases m; auto simp: step_simps)+
  with st that show thesis by blast
qed

lemma callee_reads_legal:
  assumes "call_reachable c" and "to_callee c = m # q"
  shows "callee_st c = None \<Longrightarrow> is_Submit m"
    and "callee_st c = Some s \<Longrightarrow> \<not> callee_is_terminal s \<Longrightarrow> \<exists>st. callee_step s (Callee_Recv m) = Ok st"
proof -
  from call_reachable_inv [OF assms(1)] have link: "\<exists>v. link (callee_st c) v (to_callee c)"
    by (cases "caller_st c") (auto simp: call_inv_def)
  show "is_Submit m" if "callee_st c = None" using link that assms(2) by auto
  show "\<exists>st. callee_step s (Callee_Recv m) = Ok st" if "callee_st c = Some s" "\<not> callee_is_terminal s"
    using link that assms(2) callee_recv_link by fastforce
qed

text \<open>Each event is a step of the protocol or leaves the configuration as it is.\<close>

definition chan_covered :: "callee_behavior \<Rightarrow> chan_sys \<Rightarrow> bool" where
  "chan_covered b sys \<longleftrightarrow> (\<exists>c. call_reachable c \<and> chan_sim b sys c)"

lemma chan_coveredI: "call_reachable c \<Longrightarrow> chan_sim b sys c \<Longrightarrow> chan_covered b sys"
  by (auto simp: chan_covered_def)

lemma covered_caller_start:
  assumes sim: "chan_sim b sys c" and reach: "call_reachable c"
    and submit: "is_Submit submit" and rc: "rc \<noteq> RC_Completed"
  shows "chan_covered b (chan_step submit b rc Ev_Caller_Start sys)"
proof (cases "cs_caller sys")
  case CT_Start
  from submit obtain t d ct cr body where m: "submit = Message_Submit t d ct cr body"
    by (cases submit) auto
  note start = CT_Start sim [unfolded chan_sim_def] m
  show ?thesis
  proof (cases "callee_finished (cs_callee sys)")
    case True
    with start show ?thesis
      by (intro chan_coveredI [OF reach]) (simp add: chan_sim_def drive_caller_start_def step_simps)
  next
    case False
    from start have "caller_step (caller_st c) (Caller_Send submit) = Ok (Step_go Caller_Submitted)"
      by (simp add: step_simps)
    note go = call_reachable.step [OF reach call_step.caller_sends [OF this]]
    from False start show ?thesis
      by (intro chan_coveredI [OF go])
        (simp add: chan_sim_def drive_caller_start_def step_simps caller_sim_at)
  qed
qed (use sim reach in \<open>auto intro: chan_coveredI\<close>)

text \<open>The system after an iteration of the caller's, and of the callee's loop.\<close>

definition caller_went :: "caller_task \<times> message list \<times> timer_event list \<Rightarrow> message list \<Rightarrow> chan_sys \<Rightarrow> chan_sys" where
  "caller_went r q sys =
     (case r of (task, sent, evs) \<Rightarrow>
        sys\<lparr>cs_caller := task, cs_c2s := chan_push (callee_finished (cs_callee sys)) (cs_c2s sys) sent,
            cs_s2c := q, cs_events := cs_events sys @ evs\<rparr>)"

definition callee_went :: "callee_task \<times> message list \<times> timer_event list \<Rightarrow> message list \<Rightarrow> chan_sys \<Rightarrow> chan_sys" where
  "callee_went r q sys =
     (case r of (task, sent, evs) \<Rightarrow>
        sys\<lparr>cs_callee := task, cs_s2c := chan_push (caller_finished (cs_caller sys)) (cs_s2c sys) sent,
            cs_c2s := q, cs_events := cs_events sys @ evs\<rparr>)"

lemma chan_ready_cases:
  assumes "chan_ready now t gone q ch = Some (a, q')"
  obtains "a = Chan_Timer" "q' = q" "t \<le> now" "ch = Ch_Timer"
    | sent where "a = Chan_Cancel sent" "q' = q" "now < t" "ch = Ch_Cancel sent"
    | m where "a = Chan_Recv (Some m)" "q = m # q'" "now < t" "ch = Ch_Recv"
    | "a = Chan_Recv None" "q' = []" "q = []" "gone" "now < t" "ch = Ch_Recv"
  using assms
  by (auto simp: chan_ready_def split: chan_choice.splits if_splits list.splits)

lemma covered_caller_timer:
  assumes sim: "chan_sim b sys c" and reach: "call_reachable c" and "cs_caller sys = CT_Loop st rc t"
  shows "chan_covered b (caller_went (drive_caller_select st rc t Chan_Timer) (cs_s2c sys) sys)"
proof -
  from sim assms(3) have st: "caller_st c = st" "\<not> caller_is_terminal st" by (auto simp: chan_sim_def)
  then have "caller_step (caller_st c) Caller_Timeout = Ok (Step_go (Caller_Terminal (Outcome_Closed CloseCode_Timeout)))"
    by (simp add: step_simps)
  note go = call_reachable.step [OF reach call_step.caller_times_out [OF this]]
  from sim st show ?thesis
    by (intro chan_coveredI [OF go])
      (simp add: chan_sim_def caller_went_def drive_caller_select_def step_simps chan_push_def)
qed

lemma covered_caller_cancel:
  assumes sim: "chan_sim b sys c" and reach: "call_reachable c" and loop: "cs_caller sys = CT_Loop st rc t"
    and rc: "rc \<noteq> RC_Completed"
  shows "chan_covered b (caller_went (drive_caller_select st rc t (Chan_Cancel sent)) (cs_s2c sys) sys)"
proof -
  from sim loop have st: "caller_st c = st" "\<not> caller_is_terminal st" "st \<noteq> Caller_Dialing"
      "st = Caller_Canceling \<longrightarrow> rc = RC_None"
    by (auto simp: chan_sim_def)
  show ?thesis
  proof (cases "rc = RC_None \<or> \<not> sent")
    case True
    with rc sim loop st show ?thesis
      by (intro chan_coveredI [OF reach])
        (auto simp: chan_sim_def caller_went_def drive_caller_select_def chan_push_def)
  next
    case False
    with rc st have "st \<in> {Caller_Submitted, Caller_Working, Caller_AwaitingInput}"
      by (cases st; cases rc) auto
    with st have send: "caller_step st (Caller_Send Message_Cancel) = Ok (Step_go Caller_Canceling)"
      by (auto simp: step_simps)
    note go = call_reachable.step [OF reach call_step.caller_sends [of c, unfolded st(1), OF send]]
    from False rc sim loop st send show ?thesis
      by (intro chan_coveredI [OF go])
        (auto simp: chan_sim_def caller_went_def drive_caller_select_def chan_push_def caller_sim_at)
  qed
qed

lemma covered_caller_recv:
  assumes sim: "chan_sim b sys c" and reach: "call_reachable c" and loop: "cs_caller sys = CT_Loop st rc t"
    and rc: "rc \<noteq> RC_Completed" and q: "cs_s2c sys = m # q"
  shows "chan_covered b (caller_went (drive_caller_select st rc t (Chan_Recv (Some m))) q sys)"
proof -
  from sim loop q have st: "caller_st c = st" "\<not> caller_is_terminal st" "st = Caller_Canceling \<longrightarrow> rc = RC_None"
    and tc: "to_caller c = m # q"
    by (auto simp: chan_sim_def)
  from st have "\<not> caller_is_terminal (caller_st c)" by simp
  from caller_reads_legal [OF reach tc this] obtain s' where s': "caller_step st (Caller_Recv m) = Ok s'"
    "step_state s' \<noteq> Caller_Dialing" "step_state s' = Caller_Canceling \<Longrightarrow> st = Caller_Canceling"
    unfolding st(1) by blast
  note go = call_reachable.step [OF reach call_step.caller_receives [of c, unfolded st(1), OF tc s'(1)]]
  from rc sim st s' show ?thesis
    by (intro chan_coveredI [OF go])
      (auto simp: chan_sim_def caller_went_def drive_caller_select_def chan_push_def caller_sim_at)
qed

lemma covered_caller_end:
  assumes sim: "chan_sim b sys c" and reach: "call_reachable c" and loop: "cs_caller sys = CT_Loop st rc t"
    and rc: "rc \<noteq> RC_Completed"
  shows "chan_covered b (caller_went (drive_caller_select st rc t (Chan_Recv None)) q sys)"
proof -
  from sim loop have st: "caller_st c = st" "\<not> caller_is_terminal st" by (auto simp: chan_sim_def)
  then have "caller_step (caller_st c) (Caller_ConnLost CloseCode_Normal) = Ok (Step_go (Caller_Terminal Outcome_PeerLost))"
    by (simp add: step_simps conn_lost_outcome_caller_def)
  note go = call_reachable.step [OF reach call_step.caller_loses [OF this]]
  from sim st(2) rc show ?thesis
    by (intro chan_coveredI [OF go])
      (simp add: chan_sim_def caller_went_def drive_caller_select_def chan_push_def caller_chan_lost_eq)
qed

lemma covered_caller_panic:
  assumes sim: "chan_sim b sys c" and reach: "call_reachable c" and "a \<noteq> Chan_Timer"
  shows "chan_covered b (caller_went (drive_caller_select st RC_Completed t a) q sys)"
  using assms
  by (intro chan_coveredI [OF reach])
    (cases a; simp add: chan_sim_def caller_went_def drive_caller_select_def chan_push_def)

lemma covered_caller:
  assumes sim: "chan_sim b sys c" and reach: "call_reachable c"
  shows "chan_covered b (chan_step submit b rc0 (Ev_Caller ch) sys)"
proof (cases "cs_caller sys")
  case loop: (CT_Loop st rc t)
  show ?thesis
  proof (cases "chan_ready (cs_now sys) t (callee_finished (cs_callee sys)) (cs_s2c sys) ch")
    case None
    with loop chan_coveredI [OF reach sim] show ?thesis by simp
  next
    case (Some aq)
    obtain a q where aq: "aq = (a, q)" by (cases aq)
    note ready = Some [unfolded aq]
    have "chan_covered b (caller_went (drive_caller_select st rc t a) q sys)"
    proof (cases "rc = RC_Completed \<and> a \<noteq> Chan_Timer")
      case True
      with covered_caller_panic [OF sim reach] show ?thesis by simp
    next
      case False
      with ready covered_caller_timer [OF sim reach loop] covered_caller_cancel [OF sim reach loop]
        covered_caller_recv [OF sim reach loop] covered_caller_end [OF sim reach loop]
      show ?thesis by (elim chan_ready_cases) auto
    qed
    with loop ready show ?thesis by (simp add: caller_went_def)
  qed
qed (use chan_coveredI [OF reach sim] in simp_all)

lemma covered_callee_start:
  assumes sim: "chan_sim b sys c" and reach: "call_reachable c"
  shows "chan_covered b (chan_step submit b rc Ev_Callee_Start sys)"
proof (cases "cs_callee sys")
  case ET_Start
  with sim have e: "callee_st c = None" and q: "cs_c2s sys = to_callee c" by (auto simp: chan_sim_def)
  show ?thesis
  proof (cases "cs_c2s sys")
    case Nil
    with ET_Start sim show ?thesis
      by (intro chan_coveredI [OF reach]) (auto simp: chan_sim_def drive_callee_start_def)
  next
    case (Cons m ms)
    with q have tc: "to_callee c = m # ms" by simp
    have sub: "is_Submit m" by (rule callee_reads_legal(1) [OF reach tc e])
    then obtain t d ct cr body where m: "m = Message_Submit t d ct cr body" by (cases m) auto
    note go = call_reachable.step [OF reach call_step.callee_gets_submit [OF e tc sub]]
    have "chan_step submit b rc Ev_Callee_Start sys = sys\<lparr>cs_callee :=
        ET_Stub Callee_Offered (stub_messages b) (cs_now sys + callee_budget d), cs_c2s := ms\<rparr>"
      using m ET_Start Cons
      by (cases b) (simp_all add: drive_callee_start_def callee_at_def stub_messages_def)
    with sim show ?thesis
      by (intro chan_coveredI [OF go]) (cases b; simp add: chan_sim_def stub_messages_def)
  qed
qed (use chan_coveredI [OF reach sim] in simp_all)

lemma stub_step:
  assumes "st = Callee_Offered \<and> m # ms = stub_messages b \<or> st = Callee_Working \<and> m # ms = tl (stub_messages b)"
  shows "\<exists>st'. callee_step st (Callee_Send m) = Ok (Step_go st') \<and>
    callee_sim b (callee_at st' ms t) (Some st')"
  using assms
  by (cases b) (auto simp: stub_messages_def step_simps callee_at_def)

lemma covered_callee_stub:
  assumes sim: "chan_sim b sys c" and reach: "call_reachable c"
  shows "chan_covered b (chan_step submit b rc Ev_Callee_Stub sys)"
proof (cases "\<exists>st m ms t. cs_callee sys = ET_Stub st (m # ms) t")
  case True
  then obtain st m ms t where stub: "cs_callee sys = ET_Stub st (m # ms) t" by blast
  with sim have e: "callee_st c = Some st"
    and stage: "st = Callee_Offered \<and> m # ms = stub_messages b \<or> st = Callee_Working \<and> m # ms = tl (stub_messages b)"
    by (auto simp: chan_sim_def)
  from stub_step [OF stage] obtain st' where st': "callee_step st (Callee_Send m) = Ok (Step_go st')"
    "callee_sim b (callee_at st' ms t) (Some st')" by blast
  show ?thesis
  proof (cases "caller_finished (cs_caller sys)")
    case True
    from stage have "\<not> callee_is_terminal st" by auto
    with True stub sim st'(1) e show ?thesis
      by (intro chan_coveredI [OF reach]) (auto simp: chan_sim_def drive_callee_stub_def)
  next
    case False
    note go = call_reachable.step [OF reach call_step.callee_sends [OF e st'(1)]]
    from False stub sim st' show ?thesis
      by (intro chan_coveredI [OF go]) (auto simp: chan_sim_def drive_callee_stub_def)
  qed
next
  case False
  then have "chan_step submit b rc Ev_Callee_Stub sys = sys"
    by (auto split: callee_task.splits list.splits)
  with chan_coveredI [OF reach sim] show ?thesis by simp
qed

lemma covered_callee_timer:
  assumes sim: "chan_sim b sys c" and reach: "call_reachable c" and loop: "cs_callee sys = ET_Loop st t"
  shows "chan_covered b (callee_went (drive_callee_select st t Chan_Timer) (cs_c2s sys) sys)"
proof -
  from sim loop have st: "callee_st c = Some st" "\<not> callee_is_terminal st" by (auto simp: chan_sim_def)
  let ?out = "Callee_Terminal (Outcome_Failed FailureCode_DeadlineExceeded)"
  from st(2) have step: "callee_step st Callee_Timeout =
      Ok (Step_emit ?out (Message_Failed FailureCode_DeadlineExceeded))"
    by (simp add: step_simps)
  note go = call_reachable.step [OF reach call_step.callee_times_out [OF st(1) step]]
  from sim st step show ?thesis
    by (intro chan_coveredI [OF go])
      (simp add: chan_sim_def callee_went_def drive_callee_select_def chan_push_def)
qed

lemma covered_callee_recv:
  assumes sim: "chan_sim b sys c" and reach: "call_reachable c" and loop: "cs_callee sys = ET_Loop st t"
    and q: "cs_c2s sys = m # q"
  shows "chan_covered b (callee_went (drive_callee_select st t (Chan_Recv (Some m))) q sys)"
proof -
  from sim loop q have st: "callee_st c = Some st" "\<not> callee_is_terminal st" and tc: "to_callee c = m # q"
    by (auto simp: chan_sim_def)
  from callee_reads_legal(2) [OF reach tc st] obtain s' where s': "callee_step st (Callee_Recv m) = Ok s'"
    by blast
  note go = call_reachable.step [OF reach call_step.callee_receives [OF st(1) tc s']]
  from sim st s' show ?thesis
    by (intro chan_coveredI [OF go])
      (simp add: chan_sim_def callee_went_def drive_callee_select_def chan_push_def callee_sim_at_loop)
qed

lemma covered_callee_end:
  assumes sim: "chan_sim b sys c" and reach: "call_reachable c" and loop: "cs_callee sys = ET_Loop st t"
  shows "chan_covered b (callee_went (drive_callee_select st t (Chan_Recv None)) q sys)"
proof -
  from sim loop have st: "callee_st c = Some st" "\<not> callee_is_terminal st" by (auto simp: chan_sim_def)
  from st(2) have step: "callee_step st (Callee_ConnLost CloseCode_Normal) =
      Ok (Step_go (Callee_Terminal Outcome_PeerLost))"
    by (simp add: step_simps conn_lost_outcome_callee_def)
  note go = call_reachable.step [OF reach call_step.callee_loses [OF st(1) step]]
  from sim st(2) show ?thesis
    by (intro chan_coveredI [OF go])
      (simp add: chan_sim_def callee_went_def drive_callee_select_def chan_push_def callee_chan_lost_eq)
qed

lemma covered_callee:
  assumes sim: "chan_sim b sys c" and reach: "call_reachable c"
  shows "chan_covered b (chan_step submit b rc (Ev_Callee ch) sys)"
proof (cases "cs_callee sys")
  case loop: (ET_Loop st t)
  show ?thesis
  proof (cases "chan_ready (cs_now sys) t (caller_finished (cs_caller sys)) (cs_c2s sys) ch")
    case None
    with loop chan_coveredI [OF reach sim] show ?thesis by simp
  next
    case (Some aq)
    obtain a q where aq: "aq = (a, q)" by (cases aq)
    note ready = Some [unfolded aq]
    have "chan_covered b (callee_went (drive_callee_select st t a) q sys)" if "\<forall>x. ch \<noteq> Ch_Cancel x"
      using ready that covered_callee_timer [OF sim reach loop] covered_callee_recv [OF sim reach loop]
        covered_callee_end [OF sim reach loop]
      by (elim chan_ready_cases) auto
    with loop ready chan_coveredI [OF reach sim] show ?thesis
      by (cases ch) (auto simp: callee_went_def)
  qed
qed (use chan_coveredI [OF reach sim] in simp_all)

lemma chan_reach_covered:
  assumes "is_Submit submit" and "rc \<noteq> RC_Completed" and "chan_reach submit b rc sys"
  shows "chan_covered b sys"
  using assms(3)
proof (induction rule: chan_reach.induct)
  case spawned
  show ?case
    by (rule chan_coveredI [OF call_reachable.start]) (simp add: chan_sim_def chan_init_def call_init_def)
next
  case (runs sys ev)
  then obtain c where c: "chan_sim b sys c" "call_reachable c" by (auto simp: chan_covered_def)
  show ?case
  proof (cases ev)
    case (Ev_Tick d)
    with c show ?thesis by (intro chan_coveredI [OF c(2)]) (simp add: chan_sim_def)
  qed (simp_all only: covered_caller_start [OF c assms(1,2)] covered_caller [OF c] covered_callee_start [OF c]
      covered_callee_stub [OF c] covered_callee [OF c])
qed

section \<open>Agreement\<close>

text \<open>
  C20: The in-memory call keeps the protocol's promises on every schedule. Started with a Submit, with or
  without a cancel request, whatever branches the two tasks take in whatever order: neither task
  ever ends with an illegal transition; when the caller ended Completed, Failed or Canceled, the
  callee task has returned that very outcome; and when the composition returns two outcomes, the
  caller's is the callee's or a loss or a timeout that the caller saw alone.
\<close>

theorem in_memory_call_agrees:
  assumes "chan_reach submit b rc sys" and "is_Submit submit" and "rc \<noteq> RC_Completed"
  shows "cs_caller sys \<noteq> CT_Done (Err CallError_Illegal) \<and> cs_callee sys \<noteq> ET_Done (Err CallError_Illegal) \<and>
    (cs_caller sys = CT_Done (Ok out) \<and> wire_outcome out \<longrightarrow> cs_callee sys = ET_Done (Ok out)) \<and>
    (drive_chan_call join_err sys = Some (Ok (x, y)) \<and> wire_outcome x \<longrightarrow> y = x)"
proof -
  from chan_reach_covered [OF assms(2,3,1)] obtain c where sim: "chan_sim b sys c" and "call_reachable c"
    by (auto simp: chan_covered_def)
  from call_reachable_inv [OF this(2)] have inv: "call_inv c" .
  have agree: "cs_callee sys = ET_Done (Ok out)" if "cs_caller sys = CT_Done (Ok out)" "wire_outcome out" for out
  proof -
    from sim that inv have "callee_st c = Some (Callee_Terminal out)"
      by (auto simp: chan_sim_def call_inv_terminal)
    with sim show ?thesis
      by (cases "(b, cs_callee sys, callee_st c)" rule: callee_sim.cases) (auto simp: chan_sim_def)
  qed
  then show ?thesis
    using sim by (auto simp: chan_sim_def drive_chan_call_def and_then_Ok_iff
        split: caller_task.splits callee_task.splits)
qed

section \<open>The deadline comes first\<close>

text \<open>Where the paused clock stands: the callee's timer is at the deadline, the caller's is the grace later.\<close>

definition chan_timed :: "millis \<Rightarrow> chan_sys \<Rightarrow> bool" where
  "chan_timed D sys \<longleftrightarrow>
     cs_now sys \<le> D \<and> TimerEvent_CallerGraceFired \<notin> set (cs_events sys) \<and>
     (case cs_caller sys of
        CT_Start \<Rightarrow> cs_now sys = 0 \<and> cs_callee sys = ET_Start \<and> cs_c2s sys = []
      | CT_Loop st rc t \<Rightarrow> t = D + 5000 \<and> \<not> caller_is_terminal st
      | _ \<Rightarrow> True) \<and>
     (case cs_callee sys of
        ET_Start \<Rightarrow> cs_now sys = 0 \<and>
          (\<forall>m\<in>set (cs_c2s sys). \<forall>t d ct cr body. m = Message_Submit t d ct cr body \<longrightarrow> callee_budget d = D) \<and>
          (cs_caller sys = CT_Start \<or> caller_finished (cs_caller sys) \<or> cs_c2s sys \<noteq> [])
      | ET_Stub st ms t \<Rightarrow> cs_now sys = 0 \<and> t = D \<and> ms \<noteq> []
      | ET_Loop st t \<Rightarrow> t = D \<and> \<not> callee_is_terminal st
      | ET_Done _ \<Rightarrow> True)"

lemma chan_timed_init: "chan_timed D chan_init"
  by (simp add: chan_timed_def chan_init_def)

lemma caller_at_timed: "caller_at st rc t = CT_Loop st' rc' t' \<longleftrightarrow> st' = st \<and> rc' = rc \<and> t' = t \<and> \<not> caller_is_terminal st"
  by (cases st) (auto simp: caller_at_def)

lemma caller_at_not_start [simp]: "caller_at st rc t \<noteq> CT_Start"
  by (cases st) (simp_all add: caller_at_def)

lemma caller_select_timed:
  assumes "\<not> caller_is_terminal st" and "a \<noteq> Chan_Timer"
    and "drive_caller_select st rc t a = (task, sent, evs)"
  shows "evs = []" and "sent \<in> {[], [Message_Cancel]}" and "task \<noteq> CT_Start"
    and "task = CT_Loop st' rc' t' \<Longrightarrow> t' = t \<and> \<not> caller_is_terminal st'"
  using assms
  by (auto simp: drive_caller_select_def caller_at_timed caller_chan_lost_eq
      split: chan_answer.splits if_splits sum.splits option.splits)

lemma chan_timed_caller:
  assumes inv: "chan_timed D sys"
  shows "chan_timed D (chan_step submit b rc0 (Ev_Caller ch) sys)"
proof (cases "cs_caller sys")
  case loop: (CT_Loop st rc t)
  show ?thesis
  proof (cases "chan_ready (cs_now sys) t (callee_finished (cs_callee sys)) (cs_s2c sys) ch")
    case None
    with loop inv show ?thesis by simp
  next
    case (Some aq)
    obtain a q where aq: "aq = (a, q)" by (cases aq)
    obtain task sent evs where r: "drive_caller_select st rc t a = (task, sent, evs)" by (metis prod_cases3)
    from inv loop have t: "t = D + 5000" "cs_now sys \<le> D" and st: "\<not> caller_is_terminal st"
      by (simp_all add: chan_timed_def)
    with Some aq have "a \<noteq> Chan_Timer" by (auto elim!: chan_ready_cases)
    note timed = caller_select_timed [OF st this r]
    have "chan_step submit b rc0 (Ev_Caller ch) sys = caller_went (task, sent, evs) q sys"
      using loop Some aq r by (simp add: caller_went_def)
    with inv loop timed(1,2) timed(3) timed(4) t show ?thesis
      by (cases task; cases "cs_callee sys")
        (auto simp: chan_timed_def caller_went_def chan_push_def)
  qed
qed (use inv in simp_all)

lemma chan_timed_callee_at:
  "(case callee_at st ms t of
      ET_Start \<Rightarrow> P | ET_Stub st ms t \<Rightarrow> Q ms t | ET_Loop st t \<Rightarrow> R st t | ET_Done r \<Rightarrow> True) \<longleftrightarrow>
   (if ms \<noteq> [] then Q ms t else callee_is_terminal st \<or> R st t)"
  by (cases st) (simp_all add: callee_at_def)

lemma chan_timed_callee_start:
  assumes inv: "chan_timed D sys"
  shows "chan_timed D (chan_step submit b rc Ev_Callee_Start sys)"
proof (cases "cs_callee sys")
  case ET_Start
  show ?thesis
  proof (cases "cs_c2s sys")
    case Nil
    with ET_Start inv show ?thesis by (auto simp: chan_timed_def drive_callee_start_def split: caller_task.splits)
  next
    case (Cons m q)
    have "stub_messages b \<noteq> []" by (cases b) (simp_all add: stub_messages_def)
    with Cons ET_Start inv show ?thesis
      by (cases m) (auto simp: chan_timed_def drive_callee_start_def callee_at_def split: caller_task.splits)
  qed
qed (use inv in simp_all)

lemma chan_timed_callee_stub:
  assumes inv: "chan_timed D sys"
  shows "chan_timed D (chan_step submit b rc Ev_Callee_Stub sys)"
proof (cases "\<exists>st m ms t. cs_callee sys = ET_Stub st (m # ms) t")
  case True
  then obtain st m ms t where stub: "cs_callee sys = ET_Stub st (m # ms) t" by blast
  obtain task sent where r: "drive_callee_stub st m ms t (caller_finished (cs_caller sys)) = (task, sent)"
    by (metis surj_pair)
  then have "(\<exists>e. task = ET_Done e) \<or> (\<exists>st'. task = callee_at st' ms t)"
    by (auto simp: drive_callee_stub_def split: sum.splits if_splits)
  with inv stub r show ?thesis
    by (auto simp: chan_timed_def chan_timed_callee_at split: caller_task.splits)
next
  case False
  then have "chan_step submit b rc Ev_Callee_Stub sys = sys"
    by (auto split: callee_task.splits list.splits)
  with inv show ?thesis by simp
qed

lemma chan_timed_callee:
  assumes inv: "chan_timed D sys"
  shows "chan_timed D (chan_step submit b rc (Ev_Callee ch) sys)"
proof (cases "cs_callee sys")
  case loop: (ET_Loop st t)
  show ?thesis
  proof (cases "chan_ready (cs_now sys) t (caller_finished (cs_caller sys)) (cs_c2s sys) ch")
    case None
    with loop inv show ?thesis by simp
  next
    case (Some aq)
    obtain a q where aq: "aq = (a, q)" by (cases aq)
    obtain task sent evs where r: "drive_callee_select st t a = (task, sent, evs)" by (metis prod_cases3)
    then have "(\<exists>e. task = ET_Done e) \<or> (\<exists>st'. task = callee_at st' [] t)"
      and "TimerEvent_CallerGraceFired \<notin> set evs"
      by (auto simp: drive_callee_select_def callee_chan_lost_def
          split: chan_answer.splits option.splits sum.splits callee_state.splits)
    moreover have "chan_step submit b rc (Ev_Callee ch) sys \<in> {sys, callee_went (task, sent, evs) q sys}"
      using loop Some aq r by (simp add: callee_went_def)
    ultimately show ?thesis
      using inv loop
      by (auto simp: chan_timed_def chan_timed_callee_at callee_went_def split: caller_task.splits)
  qed
qed (use inv in simp_all)

lemma chan_timed_start:
  assumes inv: "chan_timed D sys" and submit: "submit = Message_Submit t d ct cr body" and D: "D = callee_budget d"
  shows "chan_timed D (chan_step submit b rc Ev_Caller_Start sys)"
proof (cases "cs_caller sys")
  case CT_Start
  with inv show ?thesis
    by (simp add: chan_timed_def drive_caller_start_def submit D step_simps caller_at_def caller_budget_eq)
qed (use inv in simp_all)

lemma chan_timed_tick:
  assumes inv: "chan_timed D sys"
  shows "chan_timed D (chan_step submit b rc (Ev_Tick n) sys)"
  using inv
  by (cases "cs_caller sys"; cases "cs_callee sys") (auto simp: chan_timed_def chan_idle_def)

lemma chan_reach_timed:
  assumes "chan_reach submit b rc sys" and "submit = Message_Submit t d ct cr body"
  shows "chan_timed (callee_budget d) sys"
  using assms(1)
proof (induction rule: chan_reach.induct)
  case spawned
  show ?case by (rule chan_timed_init)
next
  case (runs sys ev)
  then show ?case
    by (cases ev) (simp_all only: chan_timed_start [OF _ assms(2) refl] chan_timed_caller
        chan_timed_callee_start chan_timed_callee_stub chan_timed_callee chan_timed_tick)
qed

text \<open>
  What is left to happen: the time to the deadline, what each task may still do, what is queued.
\<close>

fun caller_weight :: "caller_task \<Rightarrow> nat" where
  "caller_weight CT_Start = 40"
| "caller_weight (CT_Loop st RC_Waiting t) = 20"
| "caller_weight (CT_Loop st _ t) = 1"
| "caller_weight _ = 0"

fun callee_weight :: "callee_task \<Rightarrow> nat" where
  "callee_weight ET_Start = 20"
| "callee_weight (ET_Stub st ms t) = 3 * length ms + 2"
| "callee_weight (ET_Loop st t) = 2"
| "callee_weight (ET_Done r) = 0"

definition chan_left :: "millis \<Rightarrow> chan_sys \<Rightarrow> nat" where
  "chan_left D sys = (D - cs_now sys) + caller_weight (cs_caller sys) + callee_weight (cs_callee sys) +
     length (cs_c2s sys) + length (cs_s2c sys)"

lemma weight_pos: "caller_weight (CT_Loop st rc t) > 0" "caller_weight (CT_Loop st rc t) \<le> 20"
  by (cases rc; simp)+

lemma caller_weight_at: "caller_weight (caller_at st rc t) \<le> caller_weight (CT_Loop st' rc t')"
  by (cases rc; cases st) (simp_all add: caller_at_def)

lemma callee_weight_at: "callee_weight (callee_at st ms t) \<le> 3 * length ms + 2"
  by (cases st) (simp_all add: callee_at_def)

lemma caller_select_left:
  assumes st: "\<not> caller_is_terminal st" and "a \<noteq> Chan_Timer"
    and "drive_caller_select st rc t a = (task, sent, evs)"
  shows "caller_weight task + length sent < caller_weight (CT_Loop st rc t) \<or>
    (\<exists>m. a = Chan_Recv (Some m)) \<and> sent = [] \<and> caller_weight task \<le> caller_weight (CT_Loop st rc t) \<or>
    (\<exists>x. a = Chan_Cancel x) \<and> (task, sent, evs) = (CT_Loop st rc t, [], [])"
proof -
  have none: "caller_weight (caller_at s RC_None t) < 19" for s
    using caller_weight_at [of s RC_None t s t] by simp
  have same: "caller_weight (caller_at s RC_None t) \<le> Suc 0" "caller_weight (caller_at s RC_Waiting t) \<le> 20" for s
    using caller_weight_at [of s RC_None t s t] caller_weight_at [of s RC_Waiting t s t] by simp_all
  show ?thesis
    using assms(2,3)
    by (cases rc)
      (auto simp: drive_caller_select_def caller_chan_lost_eq [OF st] none same
        split: chan_answer.splits if_splits sum.splits option.splits)
qed

lemma chan_push_length: "length (chan_push gone q ms) \<le> length q + length ms"
  by (simp add: chan_push_def)

lemma chan_left_caller:
  assumes inv: "chan_timed D sys" and "chan_step submit b rc0 (Ev_Caller ch) sys \<noteq> sys"
  shows "chan_left D (chan_step submit b rc0 (Ev_Caller ch) sys) < chan_left D sys"
proof (cases "cs_caller sys")
  case loop: (CT_Loop st rc t)
  with assms(2) obtain a q where ready:
    "chan_ready (cs_now sys) t (callee_finished (cs_callee sys)) (cs_s2c sys) ch = Some (a, q)"
    by (cases "chan_ready (cs_now sys) t (callee_finished (cs_callee sys)) (cs_s2c sys) ch") auto
  obtain task sent evs where r: "drive_caller_select st rc t a = (task, sent, evs)" by (metis prod_cases3)
  from inv loop have t: "t = D + 5000" "cs_now sys \<le> D" and st: "\<not> caller_is_terminal st"
    by (simp_all add: chan_timed_def)
  with ready have "a \<noteq> Chan_Timer" by (auto elim!: chan_ready_cases)
  note left = caller_select_left [OF st this r]
  have step: "chan_step submit b rc0 (Ev_Caller ch) sys = caller_went (task, sent, evs) q sys"
    using loop ready r by (simp add: caller_went_def)
  have queue: "length q \<le> length (cs_s2c sys)" "a = Chan_Recv (Some m) \<Longrightarrow> length q < length (cs_s2c sys)" for m
    using ready by (auto elim!: chan_ready_cases)
  have "\<not> ((\<exists>x. a = Chan_Cancel x) \<and> (task, sent, evs) = (CT_Loop st rc t, [], []))"
    using assms(2) step loop ready by (auto simp: caller_went_def chan_push_def elim!: chan_ready_cases)
  with left queue loop show ?thesis
    using chan_push_length [of "callee_finished (cs_callee sys)" "cs_c2s sys" sent]
    unfolding step by (auto simp: caller_went_def chan_left_def)
qed (use assms(2) in simp_all)

lemma callee_recv_emits_last:
  "callee_step st (Callee_Recv msg) = Ok step \<Longrightarrow> step_emit step = Some m \<Longrightarrow>
     callee_is_terminal (step_state step)"
  by (cases st) (auto simp: step_simps split: message.splits if_splits)

lemma callee_weight_loop: "callee_weight (callee_at s [] t) = (if callee_is_terminal s then 0 else 2)"
  by (cases s) (simp_all add: callee_at_def)

lemma callee_select_left:
  assumes r: "drive_callee_select st t a = (task, sent, evs)" and st: "\<not> callee_is_terminal st"
  shows "callee_weight task + length sent < 2 \<or>
    (\<exists>m. a = Chan_Recv (Some m)) \<and> sent = [] \<and> callee_weight task \<le> 2"
proof (cases "\<exists>m. a = Chan_Recv (Some m)")
  case True
  then obtain m where a: "a = Chan_Recv (Some m)" ..
  show ?thesis
  proof (cases "callee_step st (Callee_Recv m)")
    case (Inl e)
    with r a show ?thesis by (auto simp: drive_callee_select_def)
  next
    case (Inr step)
    then show ?thesis
      using r a callee_recv_emits_last [OF Inr]
      by (cases "step_emit step") (auto simp: drive_callee_select_def emitted_def callee_weight_loop split: if_splits)
  qed
next
  case False
  with r st show ?thesis
    by (cases a) (auto simp: drive_callee_select_def callee_chan_lost_eq callee_step_timeout split: option.splits)
qed

lemma chan_left_callee:
  assumes inv: "chan_timed D sys" and "chan_step submit b rc0 (Ev_Callee ch) sys \<noteq> sys"
  shows "chan_left D (chan_step submit b rc0 (Ev_Callee ch) sys) < chan_left D sys"
proof (cases "cs_callee sys")
  case loop: (ET_Loop st t)
  with assms(2) obtain a q where ready:
    "chan_ready (cs_now sys) t (caller_finished (cs_caller sys)) (cs_c2s sys) ch = Some (a, q)"
    by (cases "chan_ready (cs_now sys) t (caller_finished (cs_caller sys)) (cs_c2s sys) ch") auto
  obtain task sent evs where r: "drive_callee_select st t a = (task, sent, evs)" by (metis prod_cases3)
  from inv loop have "\<not> callee_is_terminal st" by (simp add: chan_timed_def)
  note left = callee_select_left [OF r this]
  have step: "chan_step submit b rc0 (Ev_Callee ch) sys = callee_went (task, sent, evs) q sys"
    using loop ready r assms(2) by (simp add: callee_went_def split: if_splits)
  have queue: "length q \<le> length (cs_c2s sys)" "a = Chan_Recv (Some m) \<Longrightarrow> length q < length (cs_c2s sys)" for m
    using ready by (auto elim!: chan_ready_cases)
  from left queue loop show ?thesis
    using chan_push_length [of "caller_finished (cs_caller sys)" "cs_s2c sys" sent]
    unfolding step by (auto simp: callee_went_def chan_left_def)
qed (use assms(2) in simp_all)

lemma chan_left_starts:
  assumes inv: "chan_timed D sys"
  shows "chan_step submit b rc Ev_Caller_Start sys \<noteq> sys \<Longrightarrow>
      chan_left D (chan_step submit b rc Ev_Caller_Start sys) < chan_left D sys"
    and "chan_step submit b rc Ev_Callee_Start sys \<noteq> sys \<Longrightarrow>
      chan_left D (chan_step submit b rc Ev_Callee_Start sys) < chan_left D sys"
proof -
  have start: "caller_weight (fst (drive_caller_start submit rc g n)) +
      length (snd (drive_caller_start submit rc g n)) < 40" for g n
  proof -
    have "caller_weight (CT_Loop Caller_Submitted rc t) < 39" for t by (cases rc) simp_all
    then show ?thesis by (cases submit) (simp_all add: drive_caller_start_def step_simps caller_at_def)
  qed
  show "chan_left D (chan_step submit b rc Ev_Caller_Start sys) < chan_left D sys"
    if "chan_step submit b rc Ev_Caller_Start sys \<noteq> sys"
    using that start [of "callee_finished (cs_callee sys)" "cs_now sys"]
    by (auto simp: chan_left_def split: caller_task.splits prod.splits)
  have w: "callee_weight (drive_callee_start b n m) < 20" for n m
    by (cases b) (auto simp: drive_callee_start_def callee_at_def stub_messages_def
        split: option.split message.split)
  have "callee_weight (drive_callee_start b n m) < 21" for n m using w [of n m] by simp
  with w show "chan_left D (chan_step submit b rc Ev_Callee_Start sys) < chan_left D sys"
    if "chan_step submit b rc Ev_Callee_Start sys \<noteq> sys"
    using that by (auto simp: chan_left_def less_SucI split: callee_task.splits list.splits if_splits)
qed

lemma chan_left_stub:
  assumes "chan_step submit b rc Ev_Callee_Stub sys \<noteq> sys"
  shows "chan_left D (chan_step submit b rc Ev_Callee_Stub sys) < chan_left D sys"
proof (cases "\<exists>st m ms t. cs_callee sys = ET_Stub st (m # ms) t")
  case True
  then obtain st m ms t where stub: "cs_callee sys = ET_Stub st (m # ms) t" by blast
  obtain task sent where r: "drive_callee_stub st m ms t (caller_finished (cs_caller sys)) = (task, sent)"
    by (metis surj_pair)
  have "callee_weight (callee_at st' ms t) < 4 + 3 * length ms" for st'
    using callee_weight_at [of st' ms t] by simp
  with r have "callee_weight task + length sent < 3 * length (m # ms) + 2"
    by (auto simp: drive_callee_stub_def split: sum.splits if_splits)
  with stub r show ?thesis by (simp add: chan_left_def)
next
  case False
  with assms show ?thesis by (auto split: callee_task.splits list.splits)
qed

lemma chan_left_tick:
  assumes "chan_timed D sys" and "chan_step submit b rc (Ev_Tick n) sys \<noteq> sys"
  shows "chan_left D (chan_step submit b rc (Ev_Tick n) sys) < chan_left D sys"
proof -
  from assms(2) have "0 < n" "chan_step submit b rc (Ev_Tick n) sys = sys\<lparr>cs_now := cs_now sys + n\<rparr>"
    by (auto split: if_splits)
  moreover from chan_timed_tick [OF assms(1), of submit b rc n] this(2) have "cs_now sys + n \<le> D"
    by (simp add: chan_timed_def)
  ultimately show ?thesis by (simp add: chan_left_def)
qed

lemma chan_left_step:
  assumes "chan_timed D sys" and "chan_step submit b rc ev sys \<noteq> sys"
  shows "chan_left D (chan_step submit b rc ev sys) < chan_left D sys"
  using assms
  by (cases ev) (simp_all only: chan_left_starts chan_left_caller chan_left_stub chan_left_callee
      chan_left_tick not_False_eq_True)

text \<open>Until both tasks have finished, something other than a cancel request can always happen.\<close>

lemma chan_caller_can:
  assumes inv: "chan_timed D sys" and loop: "cs_caller sys = CT_Loop st rc t"
    and ready: "cs_s2c sys \<noteq> [] \<or> callee_finished (cs_callee sys)"
  shows "chan_step submit b rc0 (Ev_Caller Ch_Recv) sys \<noteq> sys"
proof -
  from inv loop have t: "\<not> t \<le> cs_now sys" and st: "\<not> caller_is_terminal st" by (simp_all add: chan_timed_def)
  show ?thesis
  proof (cases "cs_s2c sys")
    case Nil
    obtain task sent evs where r: "drive_caller_select st rc t (Chan_Recv None) = (task, sent, evs)"
      by (metis prod_cases3)
    then have "task \<noteq> CT_Loop st rc t"
      by (auto simp: drive_caller_select_def caller_chan_lost_eq [OF st] split: if_splits)
    with Nil ready loop t r show ?thesis by (auto simp: chan_ready_def dest: arg_cong [of _ _ cs_caller])
  next
    case (Cons m q)
    with loop t show ?thesis
      by (auto simp: chan_ready_def split: prod.splits dest: arg_cong [of _ _ cs_s2c])
  qed
qed

lemma chan_callee_can:
  assumes inv: "chan_timed D sys" and loop: "cs_callee sys = ET_Loop st t" and ch: "ch \<in> {Ch_Timer, Ch_Recv}"
    and ready: "if t \<le> cs_now sys then ch = Ch_Timer
      else ch = Ch_Recv \<and> b \<noteq> SilentHang \<and> (cs_c2s sys \<noteq> [] \<or> caller_finished (cs_caller sys))"
  shows "chan_step submit b rc0 (Ev_Callee ch) sys \<noteq> sys"
proof -
  from inv loop have st: "\<not> callee_is_terminal st" by (simp add: chan_timed_def)
  show ?thesis
  proof (cases "t \<le> cs_now sys")
    case True
    with ready loop st show ?thesis
      by (auto simp: chan_ready_def drive_callee_select_def callee_step_timeout dest: arg_cong [of _ _ cs_callee])
  next
    case False
    with ready have ch: "ch = Ch_Recv" "b \<noteq> SilentHang" by simp_all
    show ?thesis
    proof (cases "cs_c2s sys")
      case Nil
      with False ready loop st ch show ?thesis
        by (auto simp: chan_ready_def drive_callee_select_def callee_chan_lost_eq dest: arg_cong [of _ _ cs_callee])
    next
      case (Cons m q)
      with False loop ch show ?thesis
        by (auto simp: chan_ready_def split: prod.splits dest: arg_cong [of _ _ cs_c2s])
    qed
  qed
qed

lemma chan_callee_goes:
  assumes inv: "chan_timed D sys" and "cs_caller sys \<noteq> CT_Start" and "\<not> callee_finished (cs_callee sys)"
  shows "(\<exists>ev\<in>{Ev_Callee_Start, Ev_Callee_Stub, Ev_Callee Ch_Timer, Ev_Callee Ch_Recv}.
      chan_step submit b rc0 ev sys \<noteq> sys) \<or>
    (\<exists>st t. cs_callee sys = ET_Loop st t \<and> cs_now sys < t \<and>
      (b = SilentHang \<or> cs_c2s sys = [] \<and> \<not> caller_finished (cs_caller sys)))"
proof (cases "cs_callee sys")
  case ET_Start
  have "drive_callee_start b n m \<noteq> ET_Start" for n m
    by (cases b) (auto simp: drive_callee_start_def callee_at_def stub_messages_def split: option.split message.split)
  with ET_Start assms have "chan_step submit b rc0 Ev_Callee_Start sys \<noteq> sys"
    by (auto simp: chan_timed_def dest!: arg_cong [of _ _ cs_callee] split: list.splits caller_task.splits)
  then show ?thesis by blast
next
  case (ET_Stub st ms t)
  with inv obtain m ms' where ms: "ms = m # ms'" by (cases ms) (auto simp: chan_timed_def)
  have "callee_at s ms' t \<noteq> ET_Stub st (m # ms') t" for s
    by (cases s) (auto simp: callee_at_def)
  then have "fst (drive_callee_stub st m ms' t g) \<noteq> ET_Stub st (m # ms') t" for g
    by (auto simp: drive_callee_stub_def split: sum.splits)
  with ET_Stub ms have "cs_callee (chan_step submit b rc0 Ev_Callee_Stub sys) \<noteq> cs_callee sys"
    by (auto split: prod.split) (metis fst_conv)
  then have "chan_step submit b rc0 Ev_Callee_Stub sys \<noteq> sys" by metis
  then show ?thesis by blast
next
  case (ET_Loop st t)
  with chan_callee_can [OF inv ET_Loop, of Ch_Timer b submit rc0] chan_callee_can [OF inv ET_Loop, of Ch_Recv b submit rc0]
  show ?thesis by (cases "t \<le> cs_now sys") auto
qed (use assms in simp)

lemma chan_progress:
  assumes inv: "chan_timed D sys" and submit: "is_Submit submit"
    and live: "\<not> (caller_finished (cs_caller sys) \<and> callee_finished (cs_callee sys))"
  shows "\<exists>ev. (\<forall>x. ev \<noteq> Ev_Caller (Ch_Cancel x)) \<and> chan_step submit b rc0 ev sys \<noteq> sys"
proof (cases "cs_caller sys = CT_Start")
  case True
  have "fst (drive_caller_start submit rc0 g n) \<noteq> CT_Start" for g n
    by (auto simp: drive_caller_start_def split: message.split sum.split)
  with True have "cs_caller (chan_step submit b rc0 Ev_Caller_Start sys) \<noteq> cs_caller sys"
    by (auto split: prod.split) (metis fst_conv)
  then have "chan_step submit b rc0 Ev_Caller_Start sys \<noteq> sys" by metis
  then show ?thesis by blast
next
  case started: False
  show ?thesis
  proof (cases "\<exists>st rc t. cs_caller sys = CT_Loop st rc t \<and> (cs_s2c sys \<noteq> [] \<or> callee_finished (cs_callee sys))")
    case True
    with chan_caller_can [OF inv] show ?thesis by blast
  next
    case False
    with live started have "\<not> callee_finished (cs_callee sys)" by (cases "cs_caller sys") auto
    from chan_callee_goes [OF inv started this, of submit b rc0] show ?thesis
    proof
      assume "\<exists>st t. cs_callee sys = ET_Loop st t \<and> cs_now sys < t \<and>
        (b = SilentHang \<or> cs_c2s sys = [] \<and> \<not> caller_finished (cs_caller sys))"
      then obtain st t where "cs_callee sys = ET_Loop st t" "cs_now sys < t"
        "b = SilentHang \<or> cs_c2s sys = [] \<and> \<not> caller_finished (cs_caller sys)" by blast
      with False inv started have "chan_idle b sys (cs_now sys + 1)"
        by (cases "cs_caller sys") (auto simp: chan_idle_def chan_timed_def)
      then have "cs_now (chan_step submit b rc0 (Ev_Tick 1) sys) \<noteq> cs_now sys" by simp
      then have "chan_step submit b rc0 (Ev_Tick 1) sys \<noteq> sys" by metis
      then show ?thesis by blast
    qed blast
  qed
qed

section \<open>The call returns\<close>

text \<open>A run: a schedule every event of which changes something.\<close>

fun chan_run ::
  "message \<Rightarrow> callee_behavior \<Rightarrow> request_cancel \<Rightarrow> chan_event list \<Rightarrow> chan_sys \<Rightarrow> chan_sys option" where
  "chan_run submit b rc [] sys = Some sys"
| "chan_run submit b rc (ev # evs) sys =
     (let sys' = chan_step submit b rc ev sys in
      if sys' = sys then None else chan_run submit b rc evs sys')"

lemma chan_run_reach:
  "chan_reach submit b rc sys \<Longrightarrow> chan_run submit b rc evs sys = Some sys' \<Longrightarrow> chan_reach submit b rc sys'"
  by (induction evs arbitrary: sys) (auto simp: Let_def intro: chan_reach.runs split: if_splits)

lemma chan_run_left:
  assumes "chan_reach submit b rc sys" and "submit = Message_Submit t d ct cr body"
    and "chan_run submit b rc evs sys = Some sys'"
  shows "length evs + chan_left (callee_budget d) sys' \<le> chan_left (callee_budget d) sys"
  using assms(1,3)
proof (induction evs arbitrary: sys)
  case (Cons ev evs)
  let ?next = "chan_step submit b rc ev sys"
  from Cons.prems(2) have "?next \<noteq> sys" and run: "chan_run submit b rc evs ?next = Some sys'"
    by (auto simp: Let_def split: if_splits)
  then have "chan_left (callee_budget d) ?next < chan_left (callee_budget d) sys"
    by (intro chan_left_step chan_reach_timed [OF Cons.prems(1) assms(2)])
  with Cons.IH [OF chan_reach.runs [OF Cons.prems(1)] run] show ?case by simp
qed simp

text \<open>
  C4: The in-memory call always returns, and by the callee's deadline. For every Submit, behaviour and
  cancel request, no schedule keeps it busy for more than its deadline in milliseconds and sixty events;
  as long as it has no result, something can happen that needs no cancel request; the clock never
  passes the deadline; and the caller's timer, five seconds later, never fires: the callee's
  \<open>DeadlineExceeded\<close> is always there first.
\<close>

theorem in_memory_call_returns:
  assumes "chan_run submit b rc evs chan_init = Some sys" and "submit = Message_Submit t d ct cr body"
  shows "length evs \<le> callee_budget d + 60 \<and> cs_now sys \<le> callee_budget d \<and>
    TimerEvent_CallerGraceFired \<notin> set (cs_events sys) \<and>
    (drive_chan_call join_err sys = None \<longrightarrow>
      (\<exists>ev. (\<forall>x. ev \<noteq> Ev_Caller (Ch_Cancel x)) \<and> chan_step submit b rc ev sys \<noteq> sys))"
proof -
  note reach = chan_run_reach [OF chan_reach.spawned assms(1)]
  note timed = chan_reach_timed [OF reach assms(2)]
  from chan_run_left [OF chan_reach.spawned assms(2,1)] have "length evs \<le> callee_budget d + 60"
    by (simp add: chan_left_def chan_init_def)
  moreover have "\<exists>ev. (\<forall>x. ev \<noteq> Ev_Caller (Ch_Cancel x)) \<and> chan_step submit b rc ev sys \<noteq> sys"
    if "drive_chan_call join_err sys = None"
  proof (rule chan_progress [OF timed])
    show "\<not> (caller_finished (cs_caller sys) \<and> callee_finished (cs_callee sys))"
      using that by (cases "cs_caller sys"; cases "cs_callee sys") (auto simp: drive_chan_call_def)
  qed (simp add: assms(2))
  ultimately show ?thesis using timed by (simp add: chan_timed_def)
qed

text \<open>A call that hangs after \<open>Accepted\<close>, for the witnesses.\<close>

lemma sample_hanging_run:
  "\<exists>sys. chan_run sample_submit HangAfterAccept RC_None
     [Ev_Caller_Start, Ev_Callee_Start, Ev_Callee_Stub, Ev_Caller Ch_Recv, Ev_Tick 1000,
      Ev_Callee Ch_Timer, Ev_Caller Ch_Recv] chan_init = Some sys \<and>
     drive_chan_call [] sys = Some (Ok (Outcome_Failed FailureCode_DeadlineExceeded,
       Outcome_Failed FailureCode_DeadlineExceeded))"
  by (simp add: Let_def chan_init_def sample_submit_def drive_caller_start_def step_simps caller_at_def
      drive_callee_start_def callee_at_def stub_messages_def drive_callee_stub_def chan_ready_def
      drive_caller_select_def chan_push_def chan_idle_def caller_budget_eq callee_budget_def
      unat_u32_u64 drive_callee_select_def drive_chan_call_def)

theorem in_memory_call_returns_witness:
  "\<exists>evs sys. chan_run sample_submit HangAfterAccept RC_None evs chan_init = Some sys \<and>
     length evs = 7 \<and> cs_now sys \<le> 1000 \<and> TimerEvent_CallerGraceFired \<notin> set (cs_events sys)"
proof -
  obtain evs sys where run: "chan_run sample_submit HangAfterAccept RC_None evs chan_init = Some sys"
    and len: "length evs = 7" using sample_hanging_run by fastforce
  from in_memory_call_returns [OF run sample_submit_def] len run show ?thesis
    by (auto simp: callee_budget_def unat_u32_u64)
qed

theorem in_memory_call_agrees_witness:
  "\<exists>sys. chan_reach sample_submit HangAfterAccept RC_None sys \<and>
     cs_callee sys = ET_Done (Ok (Outcome_Failed FailureCode_DeadlineExceeded))"
proof -
  obtain sys where run: "\<exists>evs. chan_run sample_submit HangAfterAccept RC_None evs chan_init = Some sys"
    and res: "drive_chan_call [] sys = Some (Ok (Outcome_Failed FailureCode_DeadlineExceeded,
      Outcome_Failed FailureCode_DeadlineExceeded))"
    using sample_hanging_run by blast
  then have reach: "chan_reach sample_submit HangAfterAccept RC_None sys"
    using chan_run_reach [OF chan_reach.spawned] by blast
  from res have "cs_caller sys = CT_Done (Ok (Outcome_Failed FailureCode_DeadlineExceeded))"
    by (auto simp: drive_chan_call_def and_then_Ok_iff split: caller_task.splits callee_task.splits)
  with in_memory_call_agrees [OF reach] reach show ?thesis by (auto simp: sample_submit_def)
qed

end
