(* ===== verification/Call_Tasks.thy ===== *)
theory Call_Tasks
  imports Call_Driver
begin

text \<open>
  What the call tasks of \<open>Call_Driver\<close> do: they follow the state machines of \<open>Call_State\<close>, they end
  when their timer does, an unauthorized peer gets one refusal, and every call that ends leaves one
  audit record that agrees with how it ended.
\<close>

section \<open>The caller follows the table\<close>

fun act_written :: "wire_action list \<Rightarrow> message list" where
  "act_written [] = []"
| "act_written (Act_Write m # acts) = m # act_written acts"
| "act_written (_ # acts) = act_written acts"

fun caller_sent :: "caller_event list \<Rightarrow> message list" where
  "caller_sent [] = []"
| "caller_sent (Caller_Send m # es) = m # caller_sent es"
| "caller_sent (_ # es) = caller_sent es"

lemma act_written_append [simp]: "act_written (a @ b) = act_written a @ act_written b"
  by (induction a rule: act_written.induct) simp_all

lemma act_written_close [simp]:
  "act_written (close_with c # acts) = act_written acts"
  "act_written (close_on_frame_err e) = []"
  by (simp_all add: close_with_def close_on_frame_err_def split: option.split)

text \<open>
  The events that the answers of the caller's \<open>select!\<close> stand for, in their order: what was read, the
  timer (the caller's own or the one of a read), the loss of the connection with its code, and the
  \<open>Cancel\<close> sent for the first request to cancel.
\<close>

fun select_events :: "request_cancel \<Rightarrow> caller_select list \<Rightarrow> caller_event list" where
  "select_events rc [] = []"
| "select_events rc (CSel_Cancelled # sels) = []"
| "select_events rc (CSel_Timer # sels) = Caller_Timeout # select_events rc sels"
| "select_events rc (CSel_Closed err # sels) =
     Caller_ConnLost (close_code_from_conn_err err) # select_events rc sels"
| "select_events rc (CSel_Cancel_Sent w # sels) =
     (if rc = RC_Waiting then [Caller_Send Message_Cancel] else []) @ select_events RC_None sels"
| "select_events rc (CSel_Cancel_Dropped # sels) =
     select_events (if rc = RC_Waiting then RC_Completed else rc) sels"
| "select_events rc (CSel_Read m # sels) =
     (case m of None \<Rightarrow> [Caller_Timeout] | Some (Ok msg) \<Rightarrow> [Caller_Recv msg] | Some (Err _) \<Rightarrow> []) @
     select_events rc sels"

text \<open>
  The table takes the events of the first answers to an outcome, with these messages sent.
\<close>

definition caller_explained ::
  "caller_state \<Rightarrow> request_cancel \<Rightarrow> caller_select list \<Rightarrow> outcome \<Rightarrow> message list \<Rightarrow> bool" where
  "caller_explained state rc sels out ms \<longleftrightarrow>
     (\<exists>n\<le>length sels. caller_run state (select_events rc (take n sels)) = Ok (Caller_Terminal out) \<and>
        caller_sent (select_events rc (take n sels)) = ms)"

lemma caller_explained_Cons:
  assumes "caller_explained state' rc' sels out ms"
    and "\<And>n. caller_run state (select_events rc (take (Suc n) (s # sels))) =
      caller_run state' (select_events rc' (take n sels))"
    and "\<And>n. caller_sent (select_events rc (take (Suc n) (s # sels))) =
      ms0 @ caller_sent (select_events rc' (take n sels))"
  shows "caller_explained state rc (s # sels) out (ms0 @ ms)"
proof -
  from assms(1) obtain n where n: "n \<le> length sels"
    "caller_run state' (select_events rc' (take n sels)) = Ok (Caller_Terminal out)"
    "caller_sent (select_events rc' (take n sels)) = ms"
    unfolding caller_explained_def by blast
  with assms(2,3) [of n] show ?thesis
    unfolding caller_explained_def by (intro exI [of _ "Suc n"]) simp
qed

lemma caller_explained_terminal: "caller_explained (Caller_Terminal out) rc sels out []"
  unfolding caller_explained_def by (rule exI [of _ 0]) simp

lemma caller_explained_last:
  "select_events rc [s] = [e] \<Longrightarrow> caller_step state e = Ok (Step_go (Caller_Terminal out)) \<Longrightarrow>
     caller_sent [e] = [] \<Longrightarrow> caller_explained state rc (s # sels) out []"
  unfolding caller_explained_def by (rule exI [of _ 1]) simp

lemma await_network_cases:
  "await_network a = Err e \<Longrightarrow> e = CallError_NetworkTimeout \<or> (\<exists>fe. e = CallError_Frame fe)"
  by (auto simp: await_network_def split: option.splits sum.splits)

text \<open>The equations of the loop for a state of the call, not split over the states.\<close>

lemma caller_open_states:
  "\<not> caller_is_terminal s \<Longrightarrow>
     s = Caller_Dialing \<or> s = Caller_Submitted \<or> s = Caller_Working \<or> s = Caller_AwaitingInput \<or>
     s = Caller_Canceling"
  by (cases s) simp_all

lemma caller_loop_open:
  assumes "\<not> caller_is_terminal state"
  shows "caller_select_loop state rc g [] = (Waiting, g, [])"
    and "caller_select_loop state rc g (CSel_Cancelled # sels) = (Done (Err CallError_Cancelled), g, [])"
    and "caller_select_loop state rc g (CSel_Timer # sels) =
      (Done (Ok (Outcome_Closed CloseCode_Timeout)), g, [close_with CloseCode_Timeout])"
    and "caller_select_loop state rc g (CSel_Closed err # sels) =
      (let code = close_code_from_conn_err err in
       (Done (Ok (if code = CloseCode_Normal then Outcome_PeerLost else Outcome_Closed code)),
        if code = CloseCode_RateLimited then clear_task g else g, []))"
    and "caller_select_loop state RC_Waiting g (CSel_Cancel_Sent w # sels) =
      (case caller_step state (Caller_Send Message_Cancel) of
         Ok step \<Rightarrow>
           (case await_network w of
              Ok _ \<Rightarrow>
                (case caller_select_loop (step_state step) RC_None g sels of
                   (r, g, acts) \<Rightarrow> (r, g, Act_Write Message_Cancel # acts))
            | Err err \<Rightarrow>
                (Done (Err err), g, Act_Write Message_Cancel #
                   (case err of CallError_Frame fe \<Rightarrow> close_on_frame_err fe | _ \<Rightarrow> [])))
       | Err _ \<Rightarrow> (Done (Err CallError_Illegal), g, [close_with CloseCode_ProtocolViolation]))"
    and "caller_select_loop state RC_None g (CSel_Cancel_Sent w # sels) =
      caller_select_loop state RC_None g sels"
    and "caller_select_loop state RC_Completed g (CSel_Cancel_Sent w # sels) = (Panicked, g, [])"
    and "caller_select_loop state RC_Waiting g (CSel_Cancel_Dropped # sels) =
      caller_select_loop state RC_Completed g sels"
    and "caller_select_loop state RC_None g (CSel_Cancel_Dropped # sels) =
      caller_select_loop state RC_None g sels"
    and "caller_select_loop state RC_Completed g (CSel_Cancel_Dropped # sels) = (Panicked, g, [])"
    and "caller_select_loop state RC_Completed g (CSel_Read m # sels) = (Panicked, g, [])"
    and "rc \<noteq> RC_Completed \<Longrightarrow> caller_select_loop state rc g (CSel_Read None # sels) =
      (Done (Ok (Outcome_Closed CloseCode_Timeout)), g, [close_with CloseCode_Timeout])"
    and "rc \<noteq> RC_Completed \<Longrightarrow> caller_select_loop state rc g (CSel_Read (Some (Err fe)) # sels) =
      (Done (Err (CallError_Frame fe)), g, close_on_frame_err fe)"
    and "rc \<noteq> RC_Completed \<Longrightarrow> caller_select_loop state rc g (CSel_Read (Some (Ok msg)) # sels) =
      (case caller_step state (Caller_Recv msg) of
         Ok step \<Rightarrow> caller_select_loop (step_state step) rc g sels
       | Err _ \<Rightarrow> (Done (Err CallError_Illegal), g, [close_with CloseCode_ProtocolViolation]))"
  using caller_open_states [OF assms]
  by (auto simp: caller_step_timeout caller_step_conn_lost conn_lost_outcome_caller_def Let_def
      await_network_def)

lemma answer_cases [case_names elapsed failed message]:
  obtains "m = None" | fe where "m = Some (Err fe)" | msg where "m = Some (Ok msg)"
  by (metis option.exhaust sum.exhaust)

text \<open>Induction over the answers, with the states of the call kept together.\<close>

lemma caller_loop_induct [case_names terminal empty cancelled timer closed sent dropped read]:
  assumes "\<And>out rc g sels. P (Caller_Terminal out) rc g sels"
    and "\<And>state rc g. \<not> caller_is_terminal state \<Longrightarrow> P state rc g []"
    and "\<And>state rc g sels. \<not> caller_is_terminal state \<Longrightarrow> P state rc g (CSel_Cancelled # sels)"
    and "\<And>state rc g sels. \<not> caller_is_terminal state \<Longrightarrow> P state rc g (CSel_Timer # sels)"
    and "\<And>state rc g err sels. \<not> caller_is_terminal state \<Longrightarrow> P state rc g (CSel_Closed err # sels)"
    and "\<And>state rc g w sels. \<not> caller_is_terminal state \<Longrightarrow> (\<And>state' rc'. P state' rc' g sels) \<Longrightarrow>
      P state rc g (CSel_Cancel_Sent w # sels)"
    and "\<And>state rc g sels. \<not> caller_is_terminal state \<Longrightarrow> (\<And>rc'. P state rc' g sels) \<Longrightarrow>
      P state rc g (CSel_Cancel_Dropped # sels)"
    and "\<And>state rc g m sels. \<not> caller_is_terminal state \<Longrightarrow> (\<And>state'. P state' rc g sels) \<Longrightarrow>
      P state rc g (CSel_Read m # sels)"
  shows "P state rc g sels"
proof (induction sels arbitrary: state rc)
  case Nil
  show ?case using assms(1,2) by (cases "caller_is_terminal state") (auto simp: caller_terminal_iff)
next
  case (Cons s sels)
  show ?case
  proof (cases "caller_is_terminal state")
    case True
    then show ?thesis using assms(1) by (auto simp: caller_terminal_iff)
  next
    case False
    then show ?thesis using assms(3-8) Cons.IH by (cases s) simp_all
  qed
qed

lemma caller_loop_explained:
  assumes "caller_select_loop state rc g sels = (Done (Ok out), g', acts)"
  shows "caller_explained state rc sels out (act_written acts)"
  using assms
proof (induction state rc g sels arbitrary: acts rule: caller_loop_induct)
  case (terminal out' rc g sels)
  then show ?case using caller_explained_terminal by auto
next
  case (empty state rc g)
  then show ?case by (simp add: caller_loop_open)
next
  case (cancelled state rc g sels)
  then show ?case by (simp add: caller_loop_open)
next
  case (timer state rc g sels)
  then show ?case
    using caller_explained_last [of rc CSel_Timer Caller_Timeout state out sels]
    by (auto simp: caller_loop_open caller_step_timeout)
next
  case (closed state rc g err sels)
  then show ?case
    using caller_explained_last [of rc "CSel_Closed err" "Caller_ConnLost (close_code_from_conn_err err)" state out sels]
    by (auto simp: caller_loop_open Let_def caller_step_conn_lost conn_lost_outcome_caller_def split: if_splits)
next
  case (sent state rc g w sels)
  show ?case
  proof (cases rc)
    case RC_None
    then have "caller_explained state RC_None sels out (act_written acts)"
      using sent by (simp add: caller_loop_open)
    from caller_explained_Cons [OF this, of state rc "CSel_Cancel_Sent w" "[]"] RC_None show ?thesis by simp
  next
    case RC_Waiting
    with sent.prems sent.hyps obtain step acts0
      where st: "caller_step state (Caller_Send Message_Cancel) = Ok step"
        and run: "caller_select_loop (step_state step) RC_None g sels = (Done (Ok out), g', acts0)"
        and acts: "acts = Act_Write Message_Cancel # acts0"
      by (auto simp: caller_loop_open split: sum.splits prod.splits)
    from caller_explained_Cons [OF sent.IH [OF run], of state rc "CSel_Cancel_Sent w" "[Message_Cancel]"]
    show ?thesis using acts st RC_Waiting by simp
  next
    case RC_Completed
    then show ?thesis using sent by (simp add: caller_loop_open)
  qed
next
  case (dropped state rc g sels)
  then show ?case
  proof (cases rc)
    case RC_None
    then have "caller_explained state RC_None sels out (act_written acts)"
      using dropped by (simp add: caller_loop_open)
    from caller_explained_Cons [OF this, of state rc CSel_Cancel_Dropped "[]"] RC_None show ?thesis by simp
  next
    case RC_Waiting
    then have "caller_explained state RC_Completed sels out (act_written acts)"
      using dropped by (simp add: caller_loop_open)
    from caller_explained_Cons [OF this, of state rc CSel_Cancel_Dropped "[]"] RC_Waiting show ?thesis by simp
  qed (simp add: caller_loop_open)
next
  case (read state rc g m sels)
  show ?case
  proof (cases "rc = RC_Completed")
    case True
    then show ?thesis using read by (simp add: caller_loop_open)
  next
    case rc: False
    show ?thesis
    proof (cases m rule: answer_cases)
      case elapsed
      then show ?thesis
        using read rc caller_explained_last [of rc "CSel_Read m" Caller_Timeout state out sels]
        by (auto simp: caller_loop_open caller_step_timeout)
    next
      case (failed fe)
      then show ?thesis using read rc by (simp add: caller_loop_open)
    next
      case (message msg)
      with read.prems read.hyps rc obtain step
        where st: "caller_step state (Caller_Recv msg) = Ok step"
          and run: "caller_select_loop (step_state step) rc g sels = (Done (Ok out), g', acts)"
        by (auto simp: caller_loop_open split: sum.splits)
      from caller_explained_Cons [OF read.IH [OF run], of state rc "CSel_Read m" "[]"] st message
      show ?thesis by simp
    qed
  qed
qed

text \<open>
  C12: The caller task follows the caller's state machine. When a call on an open connection ends with an
  outcome (and not with an error), the table takes exactly what the task was answered to that outcome:
  \<open>caller_step\<close> runs from \<open>Dialing\<close> through the sending of the Submit and the events of the task's
  first answers (each message read, each timer, the close of the connection with its code, the
  \<open>Cancel\<close> it was asked to send, in their order), or through the loss of the connection when it was already
  closed as rate limited, and ends in that outcome. The messages this run sends are exactly the messages
  the task wrote, in order.
\<close>

theorem caller_task_follows_table:
  assumes "caller_loop submit w close_reason rc sels g = (Done (Ok out), g', acts)"
  shows "\<exists>n\<le>length sels.
    let es = Caller_Send submit #
      (if map_option close_code_from_conn_err close_reason = Some CloseCode_RateLimited
       then [Caller_ConnLost CloseCode_RateLimited] else select_events rc (take n sels)) in
    caller_run Caller_Dialing es = Ok (Caller_Terminal out) \<and> caller_sent es = act_written acts"
proof -
  from assms obtain t d c cr b where submit: "submit = Message_Submit t d c cr b"
    by (cases submit) (simp_all add: caller_loop_def)
  have st: "caller_step Caller_Dialing (Caller_Send submit) = Ok (Step_go Caller_Submitted)"
    by (simp add: submit caller_step_send)
  show ?thesis
  proof (cases "await_network w")
    case (Inl e)
    with assms st submit show ?thesis
      by (auto simp: caller_loop_def Let_def split: if_splits)
  next
    case (Inr u)
    show ?thesis
    proof (cases "map_option close_code_from_conn_err close_reason = Some CloseCode_RateLimited")
      case True
      with assms st submit Inr show ?thesis
        by (intro exI [of _ 0])
          (auto simp: caller_loop_def Let_def conn_lost_outcome_caller_def caller_step_conn_lost)
    next
      case False
      obtain r1 g1 acts1 where run: "caller_select_loop Caller_Submitted rc (set_task g t) sels = (r1, g1, acts1)"
        using prod_cases3 by blast
      have r1: "(r1, g1, Act_Write submit # acts1) = (Done (Ok out), g', acts)"
        using assms st submit Inr False run by (auto simp: caller_loop_def Let_def split: if_splits)
      with run caller_loop_explained have "caller_explained Caller_Submitted rc sels out (act_written acts1)"
        by blast
      with r1 st False show ?thesis by (auto simp: caller_explained_def Let_def)
    qed
  qed
qed

theorem caller_task_follows_table_witness:
  "let sels = [CSel_Read (Some (Ok Message_Accepted)), CSel_Cancel_Sent (Some (Ok ())),
       CSel_Read (Some (Ok Message_Canceled))] in
   select_events RC_Waiting sels =
     [Caller_Recv Message_Accepted, Caller_Send Message_Cancel, Caller_Recv Message_Canceled] \<and>
   (\<exists>n\<le>length sels. caller_run Caller_Dialing (Caller_Send sample_submit # select_events RC_Waiting (take n sels)) =
     Ok (Caller_Terminal Outcome_Canceled))"
proof -
  let ?g = "CallRecordGuard_new 0 0 Direction_Outbound (NodeId [1]) AuthOutcome_NotReached"
  let ?sels = "[CSel_Read (Some (Ok Message_Accepted)), CSel_Cancel_Sent (Some (Ok ())),
       CSel_Read (Some (Ok Message_Canceled))]"
  have "caller_loop sample_submit (Some (Ok ())) None RC_Waiting ?sels ?g =
    (Done (Ok Outcome_Canceled), set_task ?g (TaskId 1),
     [Act_Write sample_submit, Act_Write Message_Cancel, close_with CloseCode_Normal])"
    by (simp add: caller_loop_def sample_submit_def caller_step_def await_network_def)
  from caller_task_follows_table [OF this]
  have "\<exists>n\<le>length ?sels. caller_run Caller_Dialing
      (Caller_Send sample_submit # select_events RC_Waiting (take n ?sels)) = Ok (Caller_Terminal Outcome_Canceled)"
    unfolding Let_def by (simp only: option.map option.distinct if_False) blast
  then show ?thesis unfolding Let_def by (intro conjI) (simp, assumption)
qed

section \<open>The caller always ends\<close>

definition ends_caller :: "caller_select \<Rightarrow> bool" where
  "ends_caller s \<longleftrightarrow> s = CSel_Cancelled \<or> s = CSel_Timer \<or> (\<exists>e. s = CSel_Closed e)"

lemma ends_caller_simps [simp]:
  "ends_caller CSel_Cancelled" "ends_caller CSel_Timer" "ends_caller (CSel_Closed e)"
  "\<not> ends_caller (CSel_Cancel_Sent w)" "\<not> ends_caller CSel_Cancel_Dropped" "\<not> ends_caller (CSel_Read m)"
  by (simp_all add: ends_caller_def)

lemma caller_loop_ends:
  assumes "\<exists>s\<in>set sels. ends_caller s"
  shows "fst (caller_select_loop state rc g sels) \<noteq> Waiting"
  using assms
proof (induction state rc g sels rule: caller_loop_induct)
  case (sent state rc g w sels)
  then show ?case
    by (cases rc; cases "caller_step state (Caller_Send Message_Cancel)"; cases "await_network w")
      (simp_all add: caller_loop_open case_prod_unfold)
next
  case (dropped state rc g sels)
  then show ?case by (cases rc) (simp_all add: caller_loop_open)
next
  case (read state rc g m sels)
  then show ?case
    by (cases m rule: answer_cases; cases "rc = RC_Completed")
      (auto simp: caller_loop_open split: sum.splits)
qed (simp_all add: caller_loop_open Let_def)

text \<open>
  C25: No call outlives its timer. Once the call timer has fired, the connection has closed or the
  node has cancelled the task, the caller task has ended, whatever else happened before; when
  it is none of these that ends it, the timer is what a caller still waiting is waiting for, and firing it
  ends the call as \<open>Closed(Timeout)\<close> with close code 5 on the wire.
\<close>

theorem caller_ends_by_its_timer:
  "((\<exists>s\<in>set sels. ends_caller s) \<longrightarrow> fst (caller_select_loop state rc g sels) \<noteq> Waiting) \<and>
   (fst (caller_select_loop state rc g sels) = Waiting \<longrightarrow>
      fst (caller_select_loop state rc g (sels @ [CSel_Timer])) = Done (Ok (Outcome_Closed CloseCode_Timeout)) \<and>
      last (snd (snd (caller_select_loop state rc g (sels @ [CSel_Timer])))) = Act_Close 5 ''timeout'')"
proof (intro conjI impI)
  assume "\<exists>s\<in>set sels. ends_caller s"
  then show "fst (caller_select_loop state rc g sels) \<noteq> Waiting" by (rule caller_loop_ends)
next
  let ?P = "\<lambda>r. fst r = Done (Ok (Outcome_Closed CloseCode_Timeout)) \<and>
    snd (snd r) \<noteq> [] \<and> last (snd (snd r)) = Act_Close 5 ''timeout''"
  assume "fst (caller_select_loop state rc g sels) = Waiting"
  then have "?P (caller_select_loop state rc g (sels @ [CSel_Timer]))"
  proof (induction state rc g sels rule: caller_loop_induct)
    case (empty state rc g)
    then show ?case by (simp add: caller_loop_open close_with_def code_reason_def)
  next
    case (sent state rc g w sels)
    then show ?case
      by (cases rc; cases "caller_step state (Caller_Send Message_Cancel)"; cases "await_network w")
        (auto simp: caller_loop_open case_prod_unfold)
  next
    case (dropped state rc g sels)
    then show ?case by (cases rc) (simp_all add: caller_loop_open)
  next
    case (read state rc g m sels)
    then show ?case
      by (cases m rule: answer_cases; cases "rc = RC_Completed")
        (auto simp: caller_loop_open split: sum.splits)
  qed (simp_all add: caller_loop_open Let_def)
  then show "fst (caller_select_loop state rc g (sels @ [CSel_Timer])) = Done (Ok (Outcome_Closed CloseCode_Timeout))"
    "last (snd (snd (caller_select_loop state rc g (sels @ [CSel_Timer])))) = Act_Close 5 ''timeout''"
    by simp_all
qed

theorem caller_ends_by_its_timer_witness:
  "fst (caller_select_loop Caller_Submitted RC_None
     (CallRecordGuard_new 0 0 Direction_Outbound (NodeId [1]) AuthOutcome_NotReached)
     [CSel_Read (Some (Ok Message_Accepted)), CSel_Timer]) = Done (Ok (Outcome_Closed CloseCode_Timeout))"
  using caller_ends_by_its_timer [of "[CSel_Read (Some (Ok Message_Accepted))]" Caller_Submitted RC_None
      "CallRecordGuard_new 0 0 Direction_Outbound (NodeId [1]) AuthOutcome_NotReached"]
  by (simp add: await_network_def caller_step_def)

text \<open>
  Dropping the cancel handle takes the call down. If the sender of \<open>request_cancel\<close> is dropped
  without sending, the receiver is completed but stays in place, and the next iteration polls it
  again: unless the node cancels, the timer fires or the connection closes at that very poll, the
  caller task panics, even when a message of the callee is waiting to be read.
\<close>

theorem dropped_cancel_handle_panics:
  assumes "\<not> caller_is_terminal state"
  shows "fst (caller_select_loop state RC_Waiting g (CSel_Cancel_Dropped # CSel_Read m # sels)) = Panicked"
  using assms by (simp add: caller_loop_open)

theorem dropped_cancel_handle_panics_witness:
  "fst (caller_select_loop Caller_Working RC_Waiting
     (CallRecordGuard_new 0 0 Direction_Outbound (NodeId [1]) AuthOutcome_NotReached)
     [CSel_Cancel_Dropped, CSel_Read (Some (Ok (Message_Completed [])))]) = Panicked"
  by (rule dropped_cancel_handle_panics) simp

section \<open>The caller's audit record\<close>

lemma caller_step_open_not_closed:
  "caller_step state (Caller_Recv m) = Ok step \<Longrightarrow> step_state step \<noteq> Caller_Terminal (Outcome_Closed c)"
  "caller_step state (Caller_Send m) = Ok step \<Longrightarrow> step_state step \<noteq> Caller_Terminal (Outcome_Closed c)"
  by (cases state; cases m; auto simp: caller_step_def)+

text \<open>The loop touches the guard only to clear the task of a rate-limited call.\<close>

lemma caller_loop_guard:
  assumes "caller_select_loop state rc g sels = (r, g', acts)"
    and "state \<noteq> Caller_Terminal (Outcome_Closed CloseCode_RateLimited)"
  shows "g' = (if r = Done (Ok (Outcome_Closed CloseCode_RateLimited)) then clear_task g else g)"
  using assms
proof (induction state rc g sels arbitrary: acts rule: caller_loop_induct)
  case (terminal out rc g sels)
  then show ?case by auto
next
  case (closed state rc g err sels)
  then show ?case by (auto simp: caller_loop_open Let_def split: if_splits)
next
  case (sent state rc g w sels)
  show ?case
  proof (cases rc)
    case RC_Waiting
    then show ?thesis
      using sent caller_step_open_not_closed(2) [of state Message_Cancel]
      by (auto simp: caller_loop_open split: sum.splits prod.splits)
  qed (use sent in \<open>auto simp: caller_loop_open\<close>)
next
  case (dropped state rc g sels)
  then show ?case by (cases rc) (auto simp: caller_loop_open)
next
  case (read state rc g m sels)
  show ?case
  proof (cases "rc = RC_Completed")
    case True
    then show ?thesis using read by (simp add: caller_loop_open)
  next
    case False
    then show ?thesis
      using read caller_step_open_not_closed(1) [of state]
      by (cases m rule: answer_cases) (auto simp: caller_loop_open split: sum.splits)
  qed
qed (auto simp: caller_loop_open)

definition plain_guard :: "call_record_guard \<Rightarrow> bool" where
  "plain_guard g \<longleftrightarrow> guard_live g \<and> g_authorization g = AuthOutcome_NotReached \<and>
     g_direction g = Direction_Outbound"

lemma plain_guard_ops [simp]:
  "plain_guard (set_task g t) = plain_guard g" "plain_guard (clear_task g) = plain_guard g"
  "plain_guard (set_outcome g out) = plain_guard g" "plain_guard (observe_result g r) = plain_guard g"
  by (simp_all add: plain_guard_def guard_live_def guard_simps split: sum.split)

lemma guard_op_simps [simp]:
  "g_task (set_task g t) = Some t" "g_task (clear_task g) = None" "g_task (set_outcome g out) = g_task g"
  "g_task (observe_result g r) = g_task g" "g_outcome (set_outcome g out) = out"
  "g_outcome (set_task g t) = g_outcome g" "g_outcome (clear_task g) = g_outcome g"
  "g_outcome (observe_result g (Ok out)) = out"
  "g_outcome (observe_result g (Err e)) = outcome_from_call_error e"
  "g_peer (set_task g t) = g_peer g" "g_peer (clear_task g) = g_peer g"
  "g_peer (set_outcome g out) = g_peer g" "g_peer (observe_result g r) = g_peer g"
  "g_task (CallRecordGuard_new s0 s1 dir peer a) = None"
  "g_peer (CallRecordGuard_new s0 s1 dir peer a) = peer"
  by (simp_all add: guard_simps split: sum.split)

lemma caller_loop_body_guard:
  assumes "caller_loop submit w close_reason rc sels g = (r, g', acts)" and "g_task g = None"
  shows "plain_guard g' = plain_guard g" and "g_peer g' = g_peer g"
    and "r = Done (Ok (Outcome_Closed CloseCode_RateLimited)) \<Longrightarrow> g_task g' = None"
    and "g_task g' \<noteq> None \<Longrightarrow> \<exists>t d c cr b. submit = Message_Submit t d c cr b \<and> g_task g' = Some t"
    and "r = Done (Ok out) \<Longrightarrow> out \<noteq> Outcome_Closed CloseCode_RateLimited \<Longrightarrow> g_task g' \<noteq> None"
proof -
  have "plain_guard g' = plain_guard g \<and> g_peer g' = g_peer g \<and>
    (r = Done (Ok (Outcome_Closed CloseCode_RateLimited)) \<longrightarrow> g_task g' = None) \<and>
    (g_task g' \<noteq> None \<longrightarrow> (\<exists>t d c cr b. submit = Message_Submit t d c cr b \<and> g_task g' = Some t)) \<and>
    (r = Done (Ok out) \<and> out \<noteq> Outcome_Closed CloseCode_RateLimited \<longrightarrow> g_task g' \<noteq> None)"
  proof (cases submit)
    case (Message_Submit t d c cr b)
    have st: "caller_step Caller_Dialing (Caller_Send submit) = Ok (Step_go Caller_Submitted)"
      by (simp add: Message_Submit caller_step_send)
    obtain r1 g1 acts1 where run: "caller_select_loop Caller_Submitted rc (set_task g t) sels = (r1, g1, acts1)"
      using prod_cases3 by blast
    note g1 = caller_loop_guard [OF run]
    show ?thesis
      using assms st run g1 Message_Submit
      by (auto simp: caller_loop_def Let_def split: sum.splits if_splits)
  qed (use assms in \<open>auto simp: caller_loop_def\<close>)
  then show "plain_guard g' = plain_guard g" "g_peer g' = g_peer g"
    "r = Done (Ok (Outcome_Closed CloseCode_RateLimited)) \<Longrightarrow> g_task g' = None"
    "g_task g' \<noteq> None \<Longrightarrow> \<exists>t d c cr b. submit = Message_Submit t d c cr b \<and> g_task g' = Some t"
    "r = Done (Ok out) \<Longrightarrow> out \<noteq> Outcome_Closed CloseCode_RateLimited \<Longrightarrow> g_task g' \<noteq> None"
    by blast+
qed

text \<open>What the guard of a caller holds when it is dropped.\<close>

lemma caller_body_guard:
  assumes "caller_body started start peer submit opened w close_reason rc sels = (r, g, acts)"
  shows "plain_guard g" and "g_peer g = peer"
    and "r = Done (Ok out) \<Longrightarrow> g_outcome g = out"
    and "r = Done (Ok (Outcome_Closed CloseCode_RateLimited)) \<Longrightarrow> g_task g = None"
    and "opened = Stream_Opened \<Longrightarrow> is_Submit submit \<Longrightarrow> r = Done (Err e) \<Longrightarrow>
      g_outcome g = outcome_from_call_error e"
    and "g_task g \<noteq> None \<Longrightarrow> \<exists>t d c cr b. submit = Message_Submit t d c cr b \<and> g_task g = Some t"
    and "r = Done (Ok out) \<Longrightarrow> out \<noteq> Outcome_Closed CloseCode_RateLimited \<Longrightarrow> g_task g \<noteq> None"
proof -
  let ?new = "CallRecordGuard_new started start Direction_Outbound peer AuthOutcome_NotReached"
  have plain: "plain_guard ?new"
    by (simp add: plain_guard_def guard_live_def guard_simps)
  have "plain_guard g \<and> g_peer g = peer \<and> (r = Done (Ok out) \<longrightarrow> g_outcome g = out) \<and>
    (r = Done (Ok (Outcome_Closed CloseCode_RateLimited)) \<longrightarrow> g_task g = None) \<and>
    (opened = Stream_Opened \<and> is_Submit submit \<and> r = Done (Err e) \<longrightarrow>
       g_outcome g = outcome_from_call_error e) \<and>
    (g_task g \<noteq> None \<longrightarrow> (\<exists>t d c cr b. submit = Message_Submit t d c cr b \<and> g_task g = Some t)) \<and>
    (r = Done (Ok out) \<and> out \<noteq> Outcome_Closed CloseCode_RateLimited \<longrightarrow> g_task g \<noteq> None)"
  proof (cases "opened = Stream_Opened \<and> is_Submit submit")
    case True
    obtain r1 g1 acts1 where run: "caller_loop submit w close_reason rc sels ?new = (r1, g1, acts1)"
      using prod_cases3 by blast
    note facts = caller_loop_body_guard [OF run]
    show ?thesis
    proof (cases r1)
      case (Done res)
      with True run assms have "r = Done res" "g = observe_result g1 res"
        by (simp_all add: caller_body_def Let_def)
      with facts plain Done show ?thesis by (cases res) auto
    qed (use True run assms facts plain in \<open>auto simp: caller_body_def Let_def\<close>)
  next
    case False
    with assms plain show ?thesis
      by (auto simp: caller_body_def Let_def split: if_splits stream_answer.splits option.splits)
  qed
  then show "plain_guard g" "g_peer g = peer" "r = Done (Ok out) \<Longrightarrow> g_outcome g = out"
    "r = Done (Ok (Outcome_Closed CloseCode_RateLimited)) \<Longrightarrow> g_task g = None"
    "opened = Stream_Opened \<Longrightarrow> is_Submit submit \<Longrightarrow> r = Done (Err e) \<Longrightarrow>
      g_outcome g = outcome_from_call_error e"
    "g_task g \<noteq> None \<Longrightarrow> \<exists>t d c cr b. submit = Message_Submit t d c cr b \<and> g_task g = Some t"
    "r = Done (Ok out) \<Longrightarrow> out \<noteq> Outcome_Closed CloseCode_RateLimited \<Longrightarrow> g_task g \<noteq> None"
    by blast+
qed

text \<open>For any sink that keeps what it is given.\<close>

context call_record_sink
begin

lemma caller_one_record:
  assumes "run_caller_with emit view now sink started start peer submit opened w
      close_reason rc sels = (r, acts, sink')"
  shows "(r = Waiting \<longrightarrow> sink' = sink) \<and>
    (r \<noteq> Waiting \<longrightarrow>
      (\<exists>rec. seen sink' = seen sink @ [rec] \<and> cr_direction rec = Direction_Outbound \<and>
        cr_peer rec = peer \<and> cr_authorization rec = AuthOutcome_NotReached \<and>
        (\<forall>out. r = Done (Ok out) \<longrightarrow> cr_outcome rec = out) \<and>
        (\<forall>out. r = Done (Ok out) \<longrightarrow>
           (cr_task rec = None \<longleftrightarrow> out = Outcome_Closed CloseCode_RateLimited)) \<and>
        (cr_task rec \<noteq> None \<longrightarrow>
           (\<exists>t d c cr b. submit = Message_Submit t d c cr b \<and> cr_task rec = Some t))))"
proof -
  obtain r1 g acts1 where body: "caller_body started start peer submit opened w close_reason rc sels =
      (r1, g, acts1)" using prod_cases3 by blast
  with assms have r: "r1 = r" and sink': "sink' = (if r = Waiting then sink
      else guard_drop emit view now g sink)"
    by (auto simp: run_caller_with_def drop_guard_def)
  note facts = caller_body_guard [OF body]
  from facts(1) have live: "guard_live g" by (simp add: plain_guard_def)
  show ?thesis
  proof (cases "r = Waiting")
    case True
    with sink' show ?thesis by simp
  next
    case False
    with sink' drop_emits_one [OF live, of view now sink]
    have "seen sink' = seen sink @ [record_of view now g]" by simp
    moreover have "cr_direction (record_of view now g) = Direction_Outbound \<and>
        cr_peer (record_of view now g) = peer \<and>
        cr_authorization (record_of view now g) = AuthOutcome_NotReached"
      using facts(1,2) by (simp add: record_of_def plain_guard_def)
    moreover have "r = Done (Ok out) \<Longrightarrow> (g_task g = None) = (out = Outcome_Closed CloseCode_RateLimited)" for out
      using facts(4,7) r by blast
    ultimately show ?thesis
      using False facts(3,6) r by (intro conjI impI exI [of _ "record_of view now g"])
        (simp_all add: record_of_def)
  qed
qed

end



text \<open>
  A rate-limited write is audited as a lost peer. When the write of the Submit fails on a
  connection the peer closed as rate limited, the loop sets the record's outcome to
  \<open>Closed(RateLimited)\<close> and returns \<open>CallError::Connection\<close>; \<open>observe_result\<close> then overwrites that outcome,
  and the record that is emitted says \<open>PeerLost\<close>.
\<close>

theorem rate_limited_write_recorded_as_lost:
  assumes "is_Submit submit" and "await_network w = Err e"
    and "close_code_from_conn_err closed = CloseCode_RateLimited"
  shows "\<exists>g rec. caller_loop submit w (Some closed) rc sels
      (CallRecordGuard_new started start Direction_Outbound peer AuthOutcome_NotReached) =
        (Done (Err (CallError_Connection (CallError_to_string e))), g, [Act_Write submit]) \<and>
    g_outcome g = Outcome_Closed CloseCode_RateLimited \<and>
    mem_records (snd (snd (run_caller_with MemoryCallRecordSink_emit view now sink started start peer
      submit Stream_Opened w (Some closed) rc sels))) = mem_records sink @ [rec] \<and>
    cr_outcome rec = Outcome_PeerLost"
proof -
  let ?new = "CallRecordGuard_new started start Direction_Outbound peer AuthOutcome_NotReached"
  let ?g = "set_outcome (clear_task ?new) (Outcome_Closed CloseCode_RateLimited)"
  let ?res = "Err (CallError_Connection (CallError_to_string e)) :: (outcome, call_error) result"
  obtain t d c cr b where submit: "submit = Message_Submit t d c cr b" using assms(1) by (cases submit) auto
  have loop: "caller_loop submit w (Some closed) rc sels ?new = (Done ?res, ?g, [Act_Write submit])"
    using assms by (simp add: caller_loop_def submit caller_step_send)
  have live: "guard_live (observe_result ?g ?res)"
    by (simp add: guard_live_def guard_simps)
  have "run_caller_with MemoryCallRecordSink_emit view now sink started start peer
      submit Stream_Opened w (Some closed) rc sels =
    (Done ?res, [Act_Write submit],
     guard_drop MemoryCallRecordSink_emit view now (observe_result ?g ?res) sink)"
    using loop assms(1) by (simp add: run_caller_with_def caller_body_def drop_guard_def)
  with memory_sink.drop_emits_one [OF live] loop show ?thesis
    by (auto simp: record_of_def outcome_from_call_error_def)
qed

theorem rate_limited_write_recorded_as_lost_witness:
  "\<exists>rec. mem_records (snd (snd (run_caller_with MemoryCallRecordSink_emit
       \<lparr>cv_udp_tx = 0, cv_udp_rx = 0, cv_paths = []\<rparr> 0 MemoryCallRecordSink_new 0 0 (NodeId [1])
       sample_submit Stream_Opened None (Some (ConnError_ApplicationClosed 1)) RC_None []))) = [rec] \<and>
     cr_outcome rec = Outcome_PeerLost"
proof -
  have s: "is_Submit sample_submit" by (simp add: sample_submit_def)
  have w: "await_network None = (Err CallError_NetworkTimeout :: (unit, call_error) result)"
    by (simp add: await_network_def)
  have c: "close_code_from_conn_err (ConnError_ApplicationClosed 1) = CloseCode_RateLimited"
    by (simp add: close_code_from_conn_err_def CloseCode_from_u32_def)
  from rate_limited_write_recorded_as_lost [OF s w c, of RC_None "[]" 0 0 "NodeId [1]"
      "\<lparr>cv_udp_tx = 0, cv_udp_rx = 0, cv_paths = []\<rparr>" 0 MemoryCallRecordSink_new]
  show ?thesis by (auto simp: MemoryCallRecordSink_new_def)
qed

end
