(* ===== verification/Callee_Tasks.thy ===== *)
theory Callee_Tasks
  imports Call_Tasks
begin

text \<open>
  The callee half of \<open>Call_Tasks\<close>: an accepted call follows the callee's table, nobody is accepted
  without authorization, the callee ends by its deadline, and one audit record is left.
\<close>

section \<open>The callee follows the table\<close>

fun callee_output :: "callee_state \<Rightarrow> callee_event list \<Rightarrow> message list" where
  "callee_output s [] = []"
| "callee_output s (e # es) =
     (case callee_step s e of
        Err _ \<Rightarrow> []
      | Ok st \<Rightarrow>
          (case e of Callee_Send m \<Rightarrow> [m] | _ \<Rightarrow> []) @
          (case step_emit st of Some m \<Rightarrow> [m] | None \<Rightarrow> []) @ callee_output (step_state st) es)"

definition callee_explained :: "callee_state \<Rightarrow> outcome \<Rightarrow> message list \<Rightarrow> bool" where
  "callee_explained state out ms \<longleftrightarrow>
     (\<exists>es. callee_run state es = Ok (Callee_Terminal out) \<and> callee_output state es = ms)"

lemma callee_explained_step:
  assumes "callee_step state e = Ok step" and "callee_explained (step_state step) out ms"
  shows "callee_explained state out
    ((case e of Callee_Send m \<Rightarrow> [m] | _ \<Rightarrow> []) @ (case step_emit step of Some m \<Rightarrow> [m] | None \<Rightarrow> []) @ ms)"
proof -
  from assms(2) obtain es where "callee_run (step_state step) es = Ok (Callee_Terminal out)"
    and "callee_output (step_state step) es = ms" unfolding callee_explained_def by blast
  with assms(1) show ?thesis unfolding callee_explained_def by (intro exI [of _ "e # es"]) simp
qed

lemma callee_explained_terminal: "callee_explained (Callee_Terminal out) out []"
  unfolding callee_explained_def by (rule exI [of _ "[]"]) simp

lemma callee_explained_timeout:
  "\<not> callee_is_terminal state \<Longrightarrow>
     callee_explained state (Outcome_Failed FailureCode_DeadlineExceeded)
       [Message_Failed FailureCode_DeadlineExceeded]"
  using callee_explained_step [of state Callee_Timeout
      "Step_emit (Callee_Terminal (Outcome_Failed FailureCode_DeadlineExceeded))
         (Message_Failed FailureCode_DeadlineExceeded)" _ "[]"] callee_explained_terminal
  by (simp add: callee_step_timeout)

lemma callee_explained_lost:
  "\<not> callee_is_terminal state \<Longrightarrow> conn_lost_outcome_callee c = Callee_Terminal out \<Longrightarrow>
     callee_explained state out []"
  using callee_explained_step [of state "Callee_ConnLost c" _ out "[]"] callee_explained_terminal
  by (simp add: callee_step_conn_lost)

lemma callee_send_no_emit: "callee_step s (Callee_Send m) = Ok st \<Longrightarrow> step_emit st = None"
  by (cases s; cases m) (auto simp: callee_step_def split: if_splits)

lemma callee_open_states:
  "\<not> callee_is_terminal s \<Longrightarrow> s = Callee_Offered \<or> s = Callee_Working \<or> s = Callee_NeedInputSent"
  by (cases s) simp_all

lemma callee_wait_open:
  assumes "\<not> callee_is_terminal state"
  shows "callee_wait_terminal state ign [] = (Waiting, [])"
    and "callee_wait_terminal state ign (ESel_Cancelled # sels) = (Done (Err CallError_Cancelled), [])"
    and "callee_wait_terminal state ign (ESel_Timer w # sels) =
      (Done (Ok (Outcome_Failed FailureCode_DeadlineExceeded)),
       [Act_Write (Message_Failed FailureCode_DeadlineExceeded), close_with CloseCode_Normal])"
    and "callee_wait_terminal state ign (ESel_Closed err # sels) =
      (let code = close_code_from_conn_err err in
       (Done (Ok (if code = CloseCode_Normal then Outcome_PeerLost else Outcome_Closed code)), []))"
    and "callee_wait_terminal state True (ESel_Read m w # sels) = callee_wait_terminal state True sels"
    and "callee_wait_terminal state ign (ESel_Read None w # sels) = callee_wait_terminal state ign sels"
    and "callee_wait_terminal state False (ESel_Read (Some (Err fe)) w # sels) =
      (case fe of
         FrameIoError_Codec c \<Rightarrow> (Done (Err (CallError_Frame fe)), close_on_frame_err fe)
       | _ \<Rightarrow> (Done (Ok Outcome_PeerLost), []))"
    and "callee_wait_terminal state False (ESel_Read (Some (Ok msg)) w # sels) =
      (case callee_step state (Callee_Recv msg) of
         Ok step \<Rightarrow>
           (case step_emit step of
              None \<Rightarrow> callee_wait_terminal (step_state step) False sels
            | Some emit \<Rightarrow>
                (case await_network w of
                   Err err \<Rightarrow>
                     (Done (Err err), Act_Write emit #
                        (case err of CallError_Frame fe \<Rightarrow> close_on_frame_err fe | _ \<Rightarrow> []))
                 | Ok _ \<Rightarrow>
                     (case callee_wait_terminal (step_state step) False sels of
                        (r, acts) \<Rightarrow> (r, Act_Write emit # acts))))
       | Err _ \<Rightarrow> (Done (Err CallError_Illegal), [close_with CloseCode_ProtocolViolation]))"
  using callee_open_states [OF assms]
  by (auto simp: callee_step_timeout callee_step_conn_lost conn_lost_outcome_callee_def Let_def
      await_network_def split: frame_io_error.split)

lemma callee_wait_induct [case_names terminal empty cancelled timer closed read]:
  assumes "\<And>out ign sels. P (Callee_Terminal out) ign sels"
    and "\<And>state ign. \<not> callee_is_terminal state \<Longrightarrow> P state ign []"
    and "\<And>state ign sels. \<not> callee_is_terminal state \<Longrightarrow> P state ign (ESel_Cancelled # sels)"
    and "\<And>state ign w sels. \<not> callee_is_terminal state \<Longrightarrow> P state ign (ESel_Timer w # sels)"
    and "\<And>state ign err sels. \<not> callee_is_terminal state \<Longrightarrow> P state ign (ESel_Closed err # sels)"
    and "\<And>state ign m w sels. \<not> callee_is_terminal state \<Longrightarrow> (\<And>state'. P state' ign sels) \<Longrightarrow>
      P state ign (ESel_Read m w # sels)"
  shows "P state ign sels"
proof (induction sels arbitrary: state)
  case Nil
  show ?case using assms(1,2) by (cases "callee_is_terminal state") (auto simp: callee_terminal_iff)
next
  case (Cons s sels)
  show ?case
  proof (cases "callee_is_terminal state")
    case True
    then show ?thesis using assms(1) by (auto simp: callee_terminal_iff)
  next
    case False
    then show ?thesis using assms(3-6) Cons.IH by (cases s) simp_all
  qed
qed

lemma callee_wait_explained:
  assumes "callee_wait_terminal state ign sels = (Done (Ok out), acts)"
  shows "callee_explained state out (act_written acts)"
  using assms
proof (induction state ign sels arbitrary: acts rule: callee_wait_induct)
  case (terminal out' ign sels)
  then show ?case using callee_explained_terminal by auto
next
  case (empty state ign)
  then show ?case by (simp add: callee_wait_open)
next
  case (cancelled state ign sels)
  then show ?case by (simp add: callee_wait_open)
next
  case (timer state ign w sels)
  then show ?case using callee_explained_timeout [of state] by (auto simp: callee_wait_open)
next
  case (closed state ign err sels)
  then show ?case
    using callee_explained_lost [OF closed.hyps, of "close_code_from_conn_err err" out]
    by (auto simp: callee_wait_open Let_def conn_lost_outcome_callee_def split: if_splits)
next
  case (read state ign m w sels)
  show ?case
  proof (cases ign)
    case True
    then show ?thesis using read by (simp add: callee_wait_open)
  next
    case False
    show ?thesis
    proof (cases m rule: answer_cases)
      case elapsed
      then show ?thesis using read by (simp add: callee_wait_open)
    next
      case (failed fe)
      then have "out = Outcome_PeerLost" "acts = []"
        using read False by (auto simp: callee_wait_open split: frame_io_error.splits)
      then show ?thesis
        using callee_explained_lost [OF read.hyps, of CloseCode_Normal]
        by (simp add: conn_lost_outcome_callee_def)
    next
      case (message msg)
      with read False obtain step where st: "callee_step state (Callee_Recv msg) = Ok step"
        by (auto simp: callee_wait_open split: sum.splits)
      obtain r0 acts0 where run: "callee_wait_terminal (step_state step) False sels = (r0, acts0)"
        by fastforce
      have "r0 = Done (Ok out) \<and>
          acts = (case step_emit step of Some m \<Rightarrow> [Act_Write m] | None \<Rightarrow> []) @ acts0"
        using read.prems read.hyps message False st run
        by (auto simp: callee_wait_open split: option.splits sum.splits)
      with callee_explained_step [OF st, of out "act_written acts0"] read.IH False run
      show ?thesis by (auto split: option.splits)
    qed
  qed
qed

lemma emit_stub_explained:
  assumes "emit_stub state ms ws = (Done (Ok state'), acts)" and "callee_explained state' out rest"
  shows "callee_explained state out (act_written acts @ rest)"
  using assms
proof (induction state ms ws arbitrary: acts rule: emit_stub.induct)
  case (3 state m ms w ws)
  then obtain st acts0 where st: "callee_step state (Callee_Send m) = Ok st"
    and w: "await_network w = Ok ()"
    and run: "emit_stub (step_state st) ms ws = (Done (Ok state'), acts0)"
    and acts: "acts = Act_Write m # acts0"
    by (auto simp: emit_callee_def split: sum.splits prod.splits)
  from st w have emit: "emit_callee state m w = (Ok (step_state st), [Act_Write m])"
    by (simp add: emit_callee_def)
  have "callee_explained (step_state st) out (act_written acts0 @ rest)"
    using "3.IH" [OF emit [symmetric] refl] run "3.prems"(2) by simp
  from callee_explained_step [OF st this] callee_send_no_emit [OF st] acts show ?case by simp
qed auto

text \<open>
  C13: The callee task follows the callee's state machine. When an authorized call ends with an outcome,
  there is a legal run of \<open>callee_step\<close> from \<open>Offered\<close> to that outcome whose sends and emissions
  are exactly the messages the task wrote, in order.
\<close>

theorem callee_task_follows_table:
  assumes "handle_authorized_submit behavior ws sels lng submit g = (Done (Ok out), g', acts)"
  shows "\<exists>es. callee_run Callee_Offered es = Ok (Callee_Terminal out) \<and>
    callee_output Callee_Offered es = act_written acts"
proof -
  obtain r acts1 where stub: "emit_stub Callee_Offered (stub_messages behavior) ws = (r, acts1)" by fastforce
  from assms stub obtain state where r: "r = Done (Ok state)"
    by (auto simp: handle_authorized_submit_def Let_def split: option.splits progress.splits sum.splits)
  obtain r2 acts2 where wait: "callee_wait_terminal state (behavior = SilentHang) sels = (r2, acts2)"
    by fastforce
  have r2: "r2 = Done (Ok out)" and acts: "act_written acts = act_written acts1 @ act_written acts2"
    using assms stub r wait
    by (auto simp: handle_authorized_submit_def Let_def
        split: option.splits progress.splits sum.splits linger.splits)
  from callee_wait_explained wait r2 have "callee_explained state out (act_written acts2)" by simp
  from emit_stub_explained [OF _ this] stub r acts show ?thesis
    unfolding callee_explained_def by auto
qed

theorem callee_task_follows_table_witness:
  "\<exists>es. callee_run Callee_Offered es = Ok (Callee_Terminal Outcome_Completed) \<and>
     callee_output Callee_Offered es = [Message_Accepted, Message_Completed []]"
proof -
  let ?g = "CallRecordGuard_new 0 0 Direction_Inbound (NodeId [1]) (AuthOutcome_Allowed AuthRule_Allowlist)"
  let ?a = "\<lparr>as_rule = AuthRule_Allowlist, as_message = sample_submit\<rparr>"
  have "handle_authorized_submit StubComplete [Some (Ok ()), Some (Ok ())] [] (Some Linger_Closed) ?a ?g =
    (Done (Ok Outcome_Completed), set_task ?g (TaskId 1),
     [Act_Write Message_Accepted, Act_Write (Message_Completed []), Act_Finish])"
    by (simp add: handle_authorized_submit_def sample_submit_def as_deadline_def as_task_def
        stub_messages_def emit_callee_def callee_step_def await_network_def)
  from callee_task_follows_table [OF this] show ?thesis by simp
qed

section \<open>The callee always ends\<close>

fun ends_callee :: "callee_select \<Rightarrow> bool" where
  "ends_callee (ESel_Read m w) = False"
| "ends_callee _ = True"

lemma callee_wait_ends:
  assumes "\<exists>s\<in>set sels. ends_callee s"
  shows "fst (callee_wait_terminal state ign sels) \<noteq> Waiting"
  using assms
proof (induction state ign sels rule: callee_wait_induct)
  case (read state ign m w sels)
  then show ?case
    by (cases ign; cases m rule: answer_cases)
      (auto simp: callee_wait_open case_prod_unfold split: sum.splits option.splits frame_io_error.splits)
qed (simp_all add: callee_wait_open Let_def)

text \<open>
  C26: An accepted call ends by its deadline. Once the callee's timer has fired, the connection has
  closed or the node has cancelled it, the callee has left its loop; a callee still in the loop that
  its timer fires on ends as \<open>Failed(DeadlineExceeded)\<close>, and the last thing it does is to send that
  failure and to close the connection with code 0. This holds for the silent behaviour too,
  which reads nothing.
\<close>

theorem callee_ends_by_its_deadline:
  "((\<exists>s\<in>set sels. ends_callee s) \<longrightarrow> fst (callee_wait_terminal state ign sels) \<noteq> Waiting) \<and>
   (fst (callee_wait_terminal state ign sels) = Waiting \<longrightarrow>
      (\<exists>acts. callee_wait_terminal state ign (sels @ [ESel_Timer w]) =
        (Done (Ok (Outcome_Failed FailureCode_DeadlineExceeded)),
         acts @ [Act_Write (Message_Failed FailureCode_DeadlineExceeded), Act_Close 0 ''normal''])))"
proof (intro conjI impI)
  assume "\<exists>s\<in>set sels. ends_callee s"
  then show "fst (callee_wait_terminal state ign sels) \<noteq> Waiting" by (rule callee_wait_ends)
next
  assume "fst (callee_wait_terminal state ign sels) = Waiting"
  then show "\<exists>acts. callee_wait_terminal state ign (sels @ [ESel_Timer w]) =
        (Done (Ok (Outcome_Failed FailureCode_DeadlineExceeded)),
         acts @ [Act_Write (Message_Failed FailureCode_DeadlineExceeded), Act_Close 0 ''normal''])"
  proof (induction state ign sels rule: callee_wait_induct)
    case (empty state ign)
    then show ?case by (simp add: callee_wait_open close_with_def code_reason_def)
  next
    case (read state ign m w' sels)
    show ?case
    proof (cases ign)
      case True
      then show ?thesis using read by (simp add: callee_wait_open)
    next
      case False
      show ?thesis
      proof (cases m rule: answer_cases)
        case elapsed
        then show ?thesis using read by (simp add: callee_wait_open)
      next
        case (failed fe)
        then show ?thesis using read False by (simp add: callee_wait_open split: frame_io_error.splits)
      next
        case (message msg)
        with read.prems read.hyps False obtain step
          where st: "callee_step state (Callee_Recv msg) = Ok step"
          by (auto simp: callee_wait_open split: sum.splits)
        have w: "step_emit step = None \<or> await_network w' = Ok ()"
          and still: "fst (callee_wait_terminal (step_state step) False sels) = Waiting"
          using read.prems read.hyps False message st
          by (auto simp: callee_wait_open case_prod_unfold split: option.splits sum.splits)
        have "ign = False" using False by simp
        from read.IH [unfolded this, OF still] obtain acts
          where "callee_wait_terminal (step_state step) False (sels @ [ESel_Timer w]) =
            (Done (Ok (Outcome_Failed FailureCode_DeadlineExceeded)),
             acts @ [Act_Write (Message_Failed FailureCode_DeadlineExceeded), Act_Close 0 ''normal''])"
          by blast
        with read.hyps False message st w show ?thesis
          by (cases "step_emit step") (simp_all add: callee_wait_open)
      qed
    qed
  qed (simp_all add: callee_wait_open Let_def)
qed

theorem callee_ends_by_its_deadline_witness:
  "\<exists>acts. callee_wait_terminal Callee_Working True [ESel_Read None None, ESel_Timer None] =
        (Done (Ok (Outcome_Failed FailureCode_DeadlineExceeded)),
         acts @ [Act_Write (Message_Failed FailureCode_DeadlineExceeded), Act_Close 0 ''normal''])"
  using callee_ends_by_its_deadline [of "[ESel_Read None None]" Callee_Working True None] by simp

section \<open>Nobody is accepted without authorization\<close>

lemma refused_writes:
  "act_written [Act_Write (Message_Failed FailureCode_Unauthorized), Act_Finish, close_with CloseCode_Normal] =
     [Message_Failed FailureCode_Unauthorized]"
  by (simp add: close_with_def)

text \<open>What a callee task puts on the wire and leaves in the guard before a Submit is authorized.\<close>

lemma callee_loop_cases:
  assumes "callee_loop from_slice lib ops peer p now behavior first ws sels lng g = ((r, g', acts), p')"
  obtains (silent) "act_written acts = []" "g' = g" "\<And>out. r = Done (Ok out) \<Longrightarrow>
      out = Outcome_PeerLost \<or> out = Outcome_Closed CloseCode_Timeout"
      "r \<noteq> Done (Err CallError_Unauthorized)"
  | (refused) err where "act_written acts = [Message_Failed FailureCode_Unauthorized]"
      "g' = set_authorization g (AuthOutcome_Denied (AuthError_to_reason err))"
      "r = Done (Err CallError_Unauthorized)"
  | (accepted) frame header body a where "first = Some (FSel_Frame (Some (Ok frame)))"
      "split_frame from_slice frame = Ok (header, body)"
      "authorize_submit_header lib ops header p peer now = (Returns (Ok a), p')"
      "handle_authorized_submit behavior ws sels lng (as_with_body a body)
         (set_authorization g (AuthOutcome_Allowed (as_rule a))) = (r, g', acts)"
proof (cases first)
  case None
  with assms show ?thesis by (intro silent) (auto simp: callee_loop_def)
next
  case (Some f)
  show ?thesis
  proof (cases f)
    case FSel_Cancelled
    with assms Some show ?thesis by (intro silent) (auto simp: callee_loop_def)
  next
    case FSel_Closed
    with assms Some show ?thesis by (intro silent) (auto simp: callee_loop_def)
  next
    case (FSel_Frame answer)
    show ?thesis
    proof (cases answer rule: answer_cases)
      case elapsed
      with assms Some FSel_Frame show ?thesis
        by (intro silent) (auto simp: callee_loop_def await_network_def)
    next
      case (failed fe)
      with assms Some FSel_Frame show ?thesis
        by (intro silent) (auto simp: callee_loop_def await_network_def)
    next
      case (message frame)
      note eq = assms [unfolded callee_loop_def Some FSel_Frame message await_network_def, simplified]
      show ?thesis
      proof (cases "split_frame from_slice frame")
        case (Inl e)
        with eq show ?thesis by (intro silent) auto
      next
        case (Inr hb)
        obtain header body where hb: "hb = (header, body)" by fastforce
        obtain rr p1 where auth: "authorize_submit_header lib ops header p peer now = (rr, p1)" by fastforce
        show ?thesis
        proof (cases rr)
          case Panics
          with eq Inr hb auth show ?thesis by (intro silent) auto
        next
          case (Returns res)
          show ?thesis
          proof (cases res)
            case (Inl e)
            show ?thesis
            proof (cases "ws = []")
              case True
              with eq Inr hb auth Returns Inl show ?thesis by (intro silent) auto
            next
              case False
              with eq Inr hb auth Returns Inl show ?thesis
                by (intro refused [of e]) (auto simp: refused_writes)
            qed
          next
            case a: (Inr a)
            have "as_rule (as_with_body a body) = as_rule a"
              by (simp add: as_with_body_def split: message.split)
            with eq Inr hb auth Returns a show ?thesis
              by (intro accepted [of frame header body a]) (auto simp: Let_def Some FSel_Frame message)
          qed
        qed
      qed
    qed
  qed
qed

lemma handle_guard:
  assumes "handle_authorized_submit behavior ws sels lng submit g = (r, g', acts)"
  shows "g' = g \<or> (\<exists>t. as_task submit = Some t \<and> g' = set_task g t)"
    and "as_task submit \<noteq> None \<Longrightarrow> as_deadline submit \<noteq> None \<Longrightarrow> \<exists>t. as_task submit = Some t \<and> g' = set_task g t"
  using assms
  by (auto simp: handle_authorized_submit_def Let_def
      split: option.splits progress.splits sum.splits linger.splits prod.splits)

lemma emit_stub_Err:
  "emit_stub state ms ws = (Done (Err e), acts) \<Longrightarrow> e \<noteq> CallError_Unauthorized"
  by (induction state ms ws arbitrary: acts rule: emit_stub.induct)
    (auto simp: emit_callee_def dest: await_network_cases split: sum.splits prod.splits)

lemma callee_wait_Err:
  "callee_wait_terminal state ign sels = (Done (Err e), acts) \<Longrightarrow> e \<noteq> CallError_Unauthorized"
proof (induction state ign sels arbitrary: acts rule: callee_wait_induct)
  case (read state ign m w sels)
  show ?case
  proof (cases ign)
    case True
    then show ?thesis using read by (simp add: callee_wait_open)
  next
    case False
    then show ?thesis
      using read
      by (cases m rule: answer_cases)
        (auto simp: callee_wait_open dest: await_network_cases
          split: sum.splits option.splits prod.splits frame_io_error.splits)
  qed
qed (auto simp: callee_wait_open Let_def)

lemma handle_not_unauthorized:
  "fst (handle_authorized_submit behavior ws sels lng submit g) \<noteq> Done (Err CallError_Unauthorized)"
  by (auto simp: handle_authorized_submit_def Let_def dest: emit_stub_Err callee_wait_Err
      split: option.splits progress.splits sum.splits linger.splits prod.splits)

lemma with_body_fields [simp]:
  "as_rule (as_with_body a b) = as_rule a" "as_task (as_with_body a b) = as_task a"
  "as_deadline (as_with_body a b) = as_deadline a"
  by (simp_all add: as_with_body_def as_task_def as_deadline_def split: message.split)

lemma callee_loop_authorized:
  assumes "callee_loop from_slice lib ops peer p now behavior first ws sels lng g = ((r, g', acts), p')"
  shows "(act_written acts \<noteq> [] \<and> act_written acts \<noteq> [Message_Failed FailureCode_Unauthorized] \<longrightarrow>
      (\<exists>frame header body a t. first = Some (FSel_Frame (Some (Ok frame))) \<and>
         split_frame from_slice frame = Ok (header, body) \<and>
         authorize_submit_header lib ops header p peer now = (Returns (Ok a), p') \<and>
         as_task a = Some t \<and> g_task g' = Some t \<and>
         g_authorization g' = AuthOutcome_Allowed (as_rule a))) \<and>
    (r = Done (Err CallError_Unauthorized) \<and> g_task g = None \<longrightarrow>
      act_written acts = [Message_Failed FailureCode_Unauthorized] \<and> g_task g' = None \<and>
      (\<exists>reason. g_authorization g' = AuthOutcome_Denied reason))"
  using assms
proof (cases rule: callee_loop_cases)
  case silent
  with silent show ?thesis by simp
next
  case (refused err)
  then show ?thesis by (simp add: guard_simps)
next
  case (accepted frame header body a)
  from authorized_is_header [OF accepted(3)] obtain t where t: "as_task a = Some t" "as_deadline a \<noteq> None"
    by (auto simp: as_task_def as_deadline_def)
  with handle_guard(2) [OF accepted(4)] have g': "g' = set_task (set_authorization g (AuthOutcome_Allowed (as_rule a))) t"
    by simp
  have "r \<noteq> Done (Err CallError_Unauthorized)"
    using handle_not_unauthorized [of behavior ws sels lng] accepted(4) by (metis fst_conv)
  with accepted t g' show ?thesis by (auto simp: guard_simps)
qed

text \<open>A refusal by the policy is answered with one message, and only such a refusal is answered so.\<close>

lemma callee_loop_refuses:
  assumes "callee_loop from_slice lib ops peer p now behavior first ws sels lng g = ((r, g', acts), p')"
    and "first = Some (FSel_Frame (Some (Ok frame)))"
    and "split_frame from_slice frame = Ok (header, body)"
    and "authorize_submit_header lib ops header p peer now = (Returns (Err err), q)"
  shows "p' = q \<and> g_task g' = g_task g \<and>
     (if ws = [] then r = Waiting \<and> acts = [] \<and> g_authorization g' = g_authorization g
      else r = Done (Err CallError_Unauthorized) \<and>
        acts = [Act_Write (Message_Failed FailureCode_Unauthorized), Act_Finish, close_with CloseCode_Normal] \<and>
        g_authorization g' = AuthOutcome_Denied (AuthError_to_reason err))"
  using assms by (auto simp: callee_loop_def await_network_def guard_simps split: if_splits)

lemma callee_loop_refused_by_policy:
  assumes "callee_loop from_slice lib ops peer p now behavior first ws sels lng g =
      ((Done (Err CallError_Unauthorized), g', acts), p')"
  shows "ws \<noteq> [] \<and>
    (\<exists>frame header body err. first = Some (FSel_Frame (Some (Ok frame))) \<and>
       split_frame from_slice frame = Ok (header, body) \<and>
       authorize_submit_header lib ops header p peer now = (Returns (Err err), p'))"
proof (cases "\<exists>frame. first = Some (FSel_Frame (Some (Ok frame)))")
  case False
  with assms show ?thesis
    by (auto simp: callee_loop_def await_network_def split: option.splits first_select.splits sum.splits)
next
  case True
  then obtain frame where f: "first = Some (FSel_Frame (Some (Ok frame)))" by blast
  note eq = assms [unfolded callee_loop_def f await_network_def, simplified]
  then obtain header body where hb: "split_frame from_slice frame = Ok (header, body)"
    by (auto split: sum.splits)
  obtain rr q where auth: "authorize_submit_header lib ops header p peer now = (rr, q)" by fastforce
  have "\<nexists>a. rr = Returns (Ok a)"
    using eq hb auth handle_not_unauthorized by (auto simp: Let_def) (metis fst_conv)
  with eq f hb auth show ?thesis by (cases rr) (auto split: sum.splits if_splits)
qed

text \<open>
  C8: Nobody is accepted without authorization. If the callee task writes anything but one refusal,
  then the first frame of the stream carried a Submit header that the policy authorized for this
  peer, and the record names the rule that admitted it and its task. When the policy refuses the header
  of the first frame, the task writes exactly one \<open>Failed(Unauthorized)\<close> (never \<open>Rejected\<close>),
  finishes its side and closes with code 0 once that write is answered, ends as \<open>Unauthorized\<close>, and
  leaves the reason of that very refusal and no task in the record; until then it has done
  nothing else. Conversely a task ends as \<open>Unauthorized\<close> only when the policy refused its first header.
\<close>

theorem nothing_before_authorization:
  assumes "callee_loop from_slice lib ops peer p now behavior first ws sels lng g = ((r, g', acts), p')"
  shows "(act_written acts \<noteq> [] \<and> act_written acts \<noteq> [Message_Failed FailureCode_Unauthorized] \<longrightarrow>
      (\<exists>frame header body a t. first = Some (FSel_Frame (Some (Ok frame))) \<and>
         split_frame from_slice frame = Ok (header, body) \<and>
         authorize_submit_header lib ops header p peer now = (Returns (Ok a), p') \<and>
         as_task a = Some t \<and> g_task g' = Some t \<and>
         g_authorization g' = AuthOutcome_Allowed (as_rule a))) \<and>
    (\<forall>frame header body err q. first = Some (FSel_Frame (Some (Ok frame))) \<and>
       split_frame from_slice frame = Ok (header, body) \<and>
       authorize_submit_header lib ops header p peer now = (Returns (Err err), q) \<longrightarrow>
         p' = q \<and> g_task g' = g_task g \<and>
         (if ws = [] then r = Waiting \<and> acts = [] \<and> g_authorization g' = g_authorization g
          else r = Done (Err CallError_Unauthorized) \<and>
            acts = [Act_Write (Message_Failed FailureCode_Unauthorized), Act_Finish, Act_Close 0 ''normal''] \<and>
            g_authorization g' = AuthOutcome_Denied (AuthError_to_reason err))) \<and>
    (r = Done (Err CallError_Unauthorized) \<longrightarrow> ws \<noteq> [] \<and>
       (\<exists>frame header body err. first = Some (FSel_Frame (Some (Ok frame))) \<and>
          split_frame from_slice frame = Ok (header, body) \<and>
          authorize_submit_header lib ops header p peer now = (Returns (Err err), p')))"
proof (intro conjI)
  have close: "close_with CloseCode_Normal = Act_Close 0 ''normal''" by (simp add: close_with_def code_reason_def)
  show "\<forall>frame header body err q. first = Some (FSel_Frame (Some (Ok frame))) \<and>
       split_frame from_slice frame = Ok (header, body) \<and>
       authorize_submit_header lib ops header p peer now = (Returns (Err err), q) \<longrightarrow>
         p' = q \<and> g_task g' = g_task g \<and>
         (if ws = [] then r = Waiting \<and> acts = [] \<and> g_authorization g' = g_authorization g
          else r = Done (Err CallError_Unauthorized) \<and>
            acts = [Act_Write (Message_Failed FailureCode_Unauthorized), Act_Finish, Act_Close 0 ''normal''] \<and>
            g_authorization g' = AuthOutcome_Denied (AuthError_to_reason err))"
    using callee_loop_refuses [OF assms] unfolding close by blast
  show "r = Done (Err CallError_Unauthorized) \<longrightarrow> ws \<noteq> [] \<and>
       (\<exists>frame header body err. first = Some (FSel_Frame (Some (Ok frame))) \<and>
          split_frame from_slice frame = Ok (header, body) \<and>
          authorize_submit_header lib ops header p peer now = (Returns (Err err), p'))"
    using callee_loop_refused_by_policy assms by blast
qed (use callee_loop_authorized [OF assms] in blast)

theorem nothing_before_authorization_witness:
  "\<exists>r g' acts p'. callee_loop sample_from_slice sample_lib memory_ops (NodeId [2])
       (Policy_allow (NodeId [1])) 0 StubComplete
       (Some (FSel_Frame (Some (Ok [0, 0, 0, 5, 0, 1, 1, 42, 43])))) [Some (Ok ())] [] None
       (CallRecordGuard_new 0 0 Direction_Inbound (NodeId [2]) (AuthOutcome_Allowed AuthRule_Allowlist)) =
       ((r, g', acts), p') \<and>
     r = Done (Err CallError_Unauthorized) \<and>
     act_written acts = [Message_Failed FailureCode_Unauthorized] \<and> g_task g' = None"
proof -
  let ?buf = "[0, 0, 0, 5, 0, 1, 1, 42, 43] :: bytes"
  let ?g = "CallRecordGuard_new 0 0 Direction_Inbound (NodeId [2]) (AuthOutcome_Allowed AuthRule_Allowlist)"
  have parts: "split_frame sample_from_slice ?buf = Ok (sample_submit, [42, 43])"
    by (simp add: split_frame_def decode_parts_def frame_parts_eq Let_def sample_from_slice_def)
  have auth: "authorize_submit_header sample_lib memory_ops sample_submit (Policy_allow (NodeId [1])) (NodeId [2]) 0 =
      (Returns (Err (AuthError_Denied (NodeId [2]))), Policy_allow (NodeId [1]))"
    by (simp add: authorize_submit_header_def UnverifiedSubmit_from_header_def sample_submit_def
        UnverifiedSubmit_verify_def Policy_contains_def Policy_allow_def)
  obtain r g' acts p' where run: "callee_loop sample_from_slice sample_lib memory_ops (NodeId [2])
       (Policy_allow (NodeId [1])) 0 StubComplete (Some (FSel_Frame (Some (Ok ?buf)))) [Some (Ok ())] [] None ?g =
       ((r, g', acts), p')" by (metis prod_cases3 surj_pair)
  have "r = Done (Err CallError_Unauthorized) \<and>
      acts = [Act_Write (Message_Failed FailureCode_Unauthorized), Act_Finish, Act_Close 0 ''normal''] \<and>
      g_task g' = None"
    using nothing_before_authorization [OF run, THEN conjunct2, THEN conjunct1, rule_format, of ?buf sample_submit]
      parts auth by (simp add: guard_simps)
  with run show ?thesis by simp
qed

section \<open>The callee's audit record\<close>

lemma guard_op_live [simp]:
  "guard_live (set_task g t) = guard_live g" "guard_live (set_authorization g a) = guard_live g"
  "guard_live (set_outcome g out) = guard_live g" "guard_live (observe_result g r) = guard_live g"
  "g_direction (set_task g t) = g_direction g" "g_direction (set_authorization g a) = g_direction g"
  "g_direction (set_outcome g out) = g_direction g" "g_direction (observe_result g r) = g_direction g"
  "g_peer (set_authorization g a) = g_peer g" "g_task (set_authorization g a) = g_task g"
  "g_authorization (set_outcome g out) = g_authorization g"
  "g_authorization (observe_result g r) = g_authorization g"
  "g_authorization (set_authorization g a) = a" "g_authorization (set_task g t) = g_authorization g"
  by (simp_all add: guard_live_def guard_simps split: sum.split)

lemma callee_loop_guard:
  assumes "callee_loop from_slice lib ops peer p now behavior first ws sels lng g = ((r, g', acts), p')"
  shows "guard_live g' = guard_live g" and "g_peer g' = g_peer g" and "g_direction g' = g_direction g"
  using assms by (cases rule: callee_loop_cases; auto dest: handle_guard(1))+

text \<open>The policy after the task, and the rule its guard names.\<close>

lemma callee_loop_policy:
  "snd (callee_loop from_slice lib ops peer p now behavior first ws sels lng g) =
     snd (authorize_first from_slice lib ops peer p now first)"
  by (simp add: callee_loop_def authorize_first_def await_network_def Let_def
      split: option.split first_select.split sum.split prod.split returns.split)

lemma callee_body_policy:
  "snd (callee_body from_slice lib ops started start peer p now behavior accepted first ws sels lng) =
     (if verify_peer p peer \<and> accepted = Stream_Opened
      then snd (authorize_first from_slice lib ops peer p now first) else p)"
  using callee_loop_policy [of from_slice lib ops peer p now behavior first ws sels lng
      "CallRecordGuard_new started start Direction_Inbound peer (AuthOutcome_Allowed AuthRule_Allowlist)"]
  by (auto simp: callee_body_def Let_def split: stream_answer.split prod.splits progress.splits)

definition granted_rule :: "(authorized_submit, auth_error) result returns option \<Rightarrow> auth_rule option" where
  "granted_rule v = (case v of Some (Returns (Ok a)) \<Rightarrow> Some (as_rule a) | _ \<Rightarrow> None)"

lemma granted_rule_Some_iff: "granted_rule v = Some rule \<longleftrightarrow> (\<exists>a. v = Some (Returns (Ok a)) \<and> as_rule a = rule)"
  by (auto simp: granted_rule_def split: option.splits returns.splits sum.splits)

text \<open>What a record says of the authorization, by the rule that was granted.\<close>

definition auth_explained :: "auth_rule option \<Rightarrow> auth_outcome \<Rightarrow> bool" where
  "auth_explained rule auth \<longleftrightarrow>
     (case rule of
        Some ru \<Rightarrow> auth = AuthOutcome_Allowed ru
      | None \<Rightarrow> auth = AuthOutcome_Allowed AuthRule_Allowlist \<or> (\<exists>reason. auth = AuthOutcome_Denied reason))"

lemma auth_explained_simps [simp]:
  "auth_explained (Some ru) auth \<longleftrightarrow> auth = AuthOutcome_Allowed ru"
  "auth_explained None (AuthOutcome_Allowed AuthRule_Allowlist)" "auth_explained None (AuthOutcome_Denied reason)"
  by (simp_all add: auth_explained_def)

lemma callee_loop_rule:
  assumes "callee_loop from_slice lib ops peer p now behavior first ws sels lng g = ((r, g', acts), p')"
    and "g_authorization g = AuthOutcome_Allowed AuthRule_Allowlist"
  shows "auth_explained (granted_rule (fst (authorize_first from_slice lib ops peer p now first))) (g_authorization g')"
proof (cases "granted_rule (fst (authorize_first from_slice lib ops peer p now first))")
  case (Some rule)
  then obtain frame header body a q where first: "first = Some (FSel_Frame (Some (Ok frame)))"
    and split: "split_frame from_slice frame = Ok (header, body)" and a: "as_rule a = rule"
    and auth: "authorize_submit_header lib ops header p peer now = (Returns (Ok a), q)"
    by (auto simp: granted_rule_Some_iff authorize_first_def
        split: option.splits first_select.splits sum.splits prod.splits)
  then have "handle_authorized_submit behavior ws sels lng (as_with_body a body)
      (set_authorization g (AuthOutcome_Allowed (as_rule a))) = (r, g', acts)"
    using assms(1) by (simp add: callee_loop_def await_network_def Let_def)
  from handle_guard(1) [OF this] have "g_authorization g' = AuthOutcome_Allowed rule"
    using a by (auto simp: guard_simps)
  with Some show ?thesis by simp
next
  case None
  from assms(1) have "auth_explained None (g_authorization g')"
  proof (cases rule: callee_loop_cases)
    case (accepted frame header body a)
    with None show ?thesis by (simp add: authorize_first_def granted_rule_def)
  qed (simp_all add: guard_simps assms(2) [unfolded guard_simps])
  with None show ?thesis by simp
qed

text \<open>What the first \<open>select!\<close> of a task granted, if it came to it.\<close>

definition callee_rule ::
  "(bytes \<Rightarrow> message option) \<Rightarrow> ('pk, 'tok, 'az) biscuit_lib \<Rightarrow> 's spent_ops \<Rightarrow> node_id
     \<Rightarrow> ('pk, 's) policy \<Rightarrow> system_time \<Rightarrow> stream_answer \<Rightarrow> first_select option \<Rightarrow> auth_rule option" where
  "callee_rule from_slice lib ops peer p now accepted first =
     (if verify_peer p peer \<and> accepted = Stream_Opened
      then granted_rule (fst (authorize_first from_slice lib ops peer p now first)) else None)"

lemma callee_body_guard:
  assumes "callee_body from_slice lib ops started start peer p now behavior accepted first ws sels lng =
      ((r, g, acts), p')"
  shows "guard_live g" and "g_peer g = peer" and "g_direction g = Direction_Inbound"
    and "auth_explained (callee_rule from_slice lib ops peer p now accepted first) (g_authorization g)"
proof -
  let ?new = "CallRecordGuard_new started start Direction_Inbound peer (AuthOutcome_Allowed AuthRule_Allowlist)"
  have new: "guard_live ?new" "g_direction ?new = Direction_Inbound" "g_peer ?new = peer"
    "g_authorization ?new = AuthOutcome_Allowed AuthRule_Allowlist"
    by (simp_all add: guard_live_def guard_simps)
  have "guard_live g \<and> g_peer g = peer \<and> g_direction g = Direction_Inbound \<and>
    auth_explained (callee_rule from_slice lib ops peer p now accepted first) (g_authorization g)"
  proof (cases "verify_peer p peer \<and> accepted = Stream_Opened")
    case True
    obtain r2 g2 acts2 p2 where run: "callee_loop from_slice lib ops peer p now behavior first ws sels lng ?new =
        ((r2, g2, acts2), p2)" by (metis prod_cases3 surj_pair)
    have "r2 = r \<and> g = (case r of Done res \<Rightarrow> observe_result g2 res | _ \<Rightarrow> g2)"
      using assms run True by (auto simp: callee_body_def Let_def split: progress.splits)
    with callee_loop_guard [OF run] callee_loop_rule [OF run new(4)] new(1-3) True
    show ?thesis by (cases r) (simp_all add: callee_rule_def)
  next
    case False
    with assms new show ?thesis
      by (auto simp: callee_body_def callee_rule_def Let_def split: if_splits stream_answer.splits)
  qed
  then show "guard_live g" "g_peer g = peer" "g_direction g = Direction_Inbound"
    "auth_explained (callee_rule from_slice lib ops peer p now accepted first) (g_authorization g)"
    by blast+
qed

text \<open>For any sink that keeps what it is given.\<close>

context call_record_sink
begin

lemma callee_one_record:
  assumes "run_callee_with emit view t sink from_slice lib ops started start peer p now
      behavior accepted first ws sels lng = ((r, acts, sink'), p')"
  shows "(r = Waiting \<longrightarrow> sink' = sink) \<and>
    (r \<noteq> Waiting \<longrightarrow>
      (\<exists>rec. seen sink' = seen sink @ [rec] \<and> cr_direction rec = Direction_Inbound \<and>
        cr_peer rec = peer \<and>
        (\<forall>out. r = Done (Ok out) \<longrightarrow> cr_outcome rec = out) \<and>
        (r = Done (Err CallError_Unauthorized) \<longrightarrow>
           (\<exists>reason. cr_authorization rec = AuthOutcome_Denied reason) \<and> cr_task rec = None \<and>
           cr_outcome rec = (if verify_peer p peer then Outcome_Failed FailureCode_Unauthorized
                             else Outcome_Closed CloseCode_Normal)) \<and>
        (act_written acts \<noteq> [] \<and> act_written acts \<noteq> [Message_Failed FailureCode_Unauthorized] \<longrightarrow>
           (\<exists>frame header body a t. first = Some (FSel_Frame (Some (Ok frame))) \<and>
              split_frame from_slice frame = Ok (header, body) \<and>
              authorize_submit_header lib ops header p peer now = (Returns (Ok a), p') \<and>
              as_task a = Some t \<and> cr_task rec = Some t \<and>
              cr_authorization rec = AuthOutcome_Allowed (as_rule a)))))"
proof -
  let ?new = "CallRecordGuard_new started start Direction_Inbound peer (AuthOutcome_Allowed AuthRule_Allowlist)"
  obtain r1 g acts1 where body: "callee_body from_slice lib ops started start peer p now behavior accepted
      first ws sels lng = ((r1, g, acts1), p')"
    using assms by (auto simp: run_callee_with_def drop_guard_def split: prod.splits)
  with assms have r: "r1 = r" and acts: "acts1 = acts" and sink': "sink' = (if r = Waiting then sink
      else guard_drop emit view t g sink)"
    by (auto simp: run_callee_with_def drop_guard_def)
  have new: "guard_live ?new" "g_direction ?new = Direction_Inbound" "g_peer ?new = peer" "g_task ?new = None"
    by (simp_all add: guard_live_def guard_simps)
  have facts: "guard_live g \<and> g_peer g = peer \<and> g_direction g = Direction_Inbound \<and>
    (\<forall>out. r = Done (Ok out) \<longrightarrow> g_outcome g = out) \<and>
    (r = Done (Err CallError_Unauthorized) \<longrightarrow>
       (\<exists>reason. g_authorization g = AuthOutcome_Denied reason) \<and> g_task g = None \<and>
       g_outcome g = (if verify_peer p peer then Outcome_Failed FailureCode_Unauthorized
                      else Outcome_Closed CloseCode_Normal)) \<and>
    (act_written acts \<noteq> [] \<and> act_written acts \<noteq> [Message_Failed FailureCode_Unauthorized] \<longrightarrow>
       (\<exists>frame header body a t. first = Some (FSel_Frame (Some (Ok frame))) \<and>
          split_frame from_slice frame = Ok (header, body) \<and>
          authorize_submit_header lib ops header p peer now = (Returns (Ok a), p') \<and>
          as_task a = Some t \<and> g_task g = Some t \<and>
          g_authorization g = AuthOutcome_Allowed (as_rule a)))"
  proof (cases "verify_peer p peer \<and> accepted = Stream_Opened")
    case True
    obtain r2 g2 acts2 p2 where run: "callee_loop from_slice lib ops peer p now behavior first ws sels lng ?new =
        ((r2, g2, acts2), p2)" by (metis prod_cases3 surj_pair)
    have same: "p2 = p'" "acts2 = acts"
      using True run body acts by (auto simp: callee_body_def Let_def split: progress.splits)
    note keep = callee_loop_guard [OF run] and auth = callee_loop_authorized [OF run, unfolded same]
    show ?thesis
    proof (cases r2)
      case (Done res)
      with True run body r have "r = Done res" "g = observe_result g2 res"
        by (simp_all add: callee_body_def Let_def)
      with keep new auth True Done show ?thesis
        by (cases res) (auto simp: outcome_from_call_error_def)
    qed (use True run body r acts keep new auth in \<open>auto simp: callee_body_def Let_def\<close>)
  next
    case False
    with body new r acts show ?thesis
      by (auto simp: callee_body_def Let_def split: if_splits stream_answer.splits)
  qed
  show ?thesis
  proof (cases "r = Waiting")
    case True
    with sink' show ?thesis by simp
  next
    case False
    with sink' drop_emits_one [of g view t sink] facts
    have "seen sink' = seen sink @ [record_of view t g]" by simp
    with False facts show ?thesis
      by (intro conjI impI exI [of _ "record_of view t g"]) (simp_all add: record_of_def)
  qed
qed

end

context call_record_sink
begin

lemma callee_record_rule:
  assumes "run_callee_with emit view t sink from_slice lib ops started start peer p now
      behavior accepted first ws sels lng = ((r, acts, sink'), p')" and "r \<noteq> Waiting"
  shows "\<exists>rec. seen sink' = seen sink @ [rec] \<and> cr_peer rec = peer \<and> cr_direction rec = Direction_Inbound \<and>
    auth_explained (callee_rule from_slice lib ops peer p now accepted first) (cr_authorization rec)"
proof -
  obtain g acts1 where body: "callee_body from_slice lib ops started start peer p now behavior accepted
      first ws sels lng = ((r, g, acts1), p')" and "sink' = guard_drop emit view t g sink"
    using assms by (auto simp: run_callee_with_def drop_guard_def split: prod.splits)
  with drop_emits_one [OF callee_body_guard(1) [OF body], of view t sink] callee_body_guard(2-) [OF body]
  show ?thesis by (simp add: record_of_def)
qed

end

text \<open>
  C19: Every inbound connection leaves exactly one audit record. A callee task that ended (by a
  result or a panic) added one inbound record for the authenticated peer; a call that ended with an
  outcome is recorded with it; an unauthorized one is recorded as \<open>Denied\<close> without a task, as
  \<open>Closed(Normal)\<close> when the connection gate refused the peer and as \<open>Failed(Unauthorized)\<close> when the
  policy refused its Submit. A task that wrote anything but the refusal is recorded with the task of
  the Submit it authorized and with the rule that let it in. A task still waiting has added none.
\<close>

theorem callee_leaves_one_record:
  assumes "run_callee_with MemoryCallRecordSink_emit view t sink from_slice lib ops started start peer p now
      behavior accepted first ws sels lng = ((r, acts, sink'), p')"
  shows "(r = Waiting \<longrightarrow> sink' = sink) \<and>
    (r \<noteq> Waiting \<longrightarrow>
      (\<exists>rec. mem_records sink' = mem_records sink @ [rec] \<and> cr_direction rec = Direction_Inbound \<and>
        cr_peer rec = peer \<and>
        (\<forall>out. r = Done (Ok out) \<longrightarrow> cr_outcome rec = out) \<and>
        (r = Done (Err CallError_Unauthorized) \<longrightarrow>
           (\<exists>reason. cr_authorization rec = AuthOutcome_Denied reason) \<and> cr_task rec = None \<and>
           cr_outcome rec = (if verify_peer p peer then Outcome_Failed FailureCode_Unauthorized
                             else Outcome_Closed CloseCode_Normal)) \<and>
        (act_written acts \<noteq> [] \<and> act_written acts \<noteq> [Message_Failed FailureCode_Unauthorized] \<longrightarrow>
           (\<exists>frame header body a t. first = Some (FSel_Frame (Some (Ok frame))) \<and>
              split_frame from_slice frame = Ok (header, body) \<and>
              authorize_submit_header lib ops header p peer now = (Returns (Ok a), p') \<and>
              as_task a = Some t \<and> cr_task rec = Some t \<and>
              cr_authorization rec = AuthOutcome_Allowed (as_rule a)))))"
  using assms by (rule memory_sink.callee_one_record)

theorem callee_leaves_one_record_witness:
  "\<exists>rec. mem_records (snd (snd (fst (run_callee_with MemoryCallRecordSink_emit
       \<lparr>cv_udp_tx = 0, cv_udp_rx = 0, cv_paths = []\<rparr> 0 MemoryCallRecordSink_new sample_from_slice
       sample_lib memory_ops 0 0 (NodeId [2]) (Policy_allow (NodeId [1])) 0 StubComplete
       Stream_Opened None [] [] None)))) = [rec] \<and> cr_outcome rec = Outcome_Closed CloseCode_Normal"
proof -
  let ?v = "\<lparr>cv_udp_tx = 0, cv_udp_rx = 0, cv_paths = []\<rparr>"
  obtain r acts sink' p' where run: "run_callee_with MemoryCallRecordSink_emit ?v 0 MemoryCallRecordSink_new
      sample_from_slice sample_lib memory_ops 0 0 (NodeId [2]) (Policy_allow (NodeId [1])) 0 StubComplete
      Stream_Opened None [] [] None = ((r, acts, sink'), p')" by (metis prod_cases3 surj_pair)
  have gate: "\<not> verify_peer (Policy_allow (NodeId [1]) :: (nat, memory_spent_set) policy) (NodeId [2])"
    by (simp add: verify_peer_def Policy_contains_def Policy_allow_def has_biscuit_roots_def)
  with run have "r = Done (Err CallError_Unauthorized)"
    by (simp add: run_callee_with_def callee_body_def drop_guard_def Let_def)
  with callee_leaves_one_record [OF run] run gate show ?thesis
    by (auto simp: MemoryCallRecordSink_new_def)
qed



end
