(* ===== verification/Rate_Limit.thy ===== *)
theory Rate_Limit
  imports Core_Types
begin

text \<open>
  Per-peer admission limits, src/crates/uat-policy/src/rate_limit.rs. An \<open>Instant\<close> is a number
  of nanoseconds; every operation holds the mutex for its whole length (a poisoned lock is
  entered anyway), so an operation is one function on the limiter. \<open>in_flight\<close> is kept at its
  width with the saturating operations of the code, and \<open>len() as u32\<close> truncates.
\<close>

section \<open>Configuration\<close>

definition DEFAULT_MAX_CONCURRENT_CALLS :: u32 where "DEFAULT_MAX_CONCURRENT_CALLS = 8"
definition DEFAULT_MAX_CALLS_PER_MINUTE :: u32 where "DEFAULT_MAX_CALLS_PER_MINUTE = 60"
definition DEFAULT_MAX_LIVE_FRAMES :: u32 where "DEFAULT_MAX_LIVE_FRAMES = 8"

type_synonym instant = nat

definition CALLS_PER_MINUTE_WINDOW :: nat where "CALLS_PER_MINUTE_WINDOW = 60 * 10 ^ 9"

record rate_limit_config =
  max_concurrent_calls :: u32
  max_calls_per_minute :: u32
  max_live_frames :: u32

definition RateLimitConfig_defaults :: rate_limit_config where
  "RateLimitConfig_defaults =
     \<lparr>max_concurrent_calls = DEFAULT_MAX_CONCURRENT_CALLS,
      max_calls_per_minute = DEFAULT_MAX_CALLS_PER_MINUTE,
      max_live_frames = DEFAULT_MAX_LIVE_FRAMES\<rparr>"

definition RateLimitConfig_tight :: "u32 \<Rightarrow> rate_limit_config" where
  "RateLimitConfig_tight n =
     \<lparr>max_concurrent_calls = n, max_calls_per_minute = n, max_live_frames = n\<rparr>"

datatype rate_limit_exceeded =
  RateLimitExceeded_ConcurrentCalls | RateLimitExceeded_CallsPerMinute | RateLimitExceeded_LiveFrames

section \<open>The limiter\<close>

record peer_counters =
  pc_in_flight :: u32
  pc_attempts :: "instant list"

definition PeerCounters_default :: peer_counters where
  "PeerCounters_default = \<lparr>pc_in_flight = 0, pc_attempts = []\<rparr>"

record rate_limiter =
  rl_config :: rate_limit_config
  rl_inner :: "node_id \<rightharpoonup> peer_counters"

definition RateLimiter_new :: "rate_limit_config \<Rightarrow> rate_limiter" where
  "RateLimiter_new config = \<lparr>rl_config = config, rl_inner = Map.empty\<rparr>"

text \<open>The permit; its handle on the shared limiter is the limiter the operations pass on.\<close>

record rate_limit_permit =
  permit_peer :: node_id
  permit_released :: bool

text \<open>\<open>saturating_duration_since\<close> is subtraction on \<open>nat\<close>; the loop pops expired entries
  from the front.\<close>

fun prune_attempts :: "instant list \<Rightarrow> instant \<Rightarrow> instant list" where
  "prune_attempts [] now = []"
| "prune_attempts (t # ts) now =
     (if now - t \<ge> CALLS_PER_MINUTE_WINDOW then prune_attempts ts now else t # ts)"

definition try_admit_at ::
  "rate_limiter \<Rightarrow> node_id \<Rightarrow> instant
     \<Rightarrow> (rate_limit_permit, rate_limit_exceeded) result \<times> rate_limiter" where
  "try_admit_at lim peer now =
     (let cfg = rl_config lim;
          entry = (case rl_inner lim peer of Some e \<Rightarrow> e | None \<Rightarrow> PeerCounters_default);
          entry = entry\<lparr>pc_attempts := prune_attempts (pc_attempts entry) now @ [now]\<rparr>;
          attempt_count = (word_of_nat (length (pc_attempts entry)) :: u32);
          put = (\<lambda>e. lim\<lparr>rl_inner := (rl_inner lim)(peer \<mapsto> e)\<rparr>) in
      if attempt_count > max_calls_per_minute cfg
      then (Err RateLimitExceeded_CallsPerMinute, put entry)
      else if pc_in_flight entry \<ge> max_concurrent_calls cfg
      then (Err RateLimitExceeded_ConcurrentCalls, put entry)
      else if pc_in_flight entry \<ge> max_live_frames cfg
      then (Err RateLimitExceeded_LiveFrames, put entry)
      else (Ok \<lparr>permit_peer = peer, permit_released = False\<rparr>,
            put (entry\<lparr>pc_in_flight := saturating_add (pc_in_flight entry) 1\<rparr>)))"

definition RateLimiter_release :: "rate_limiter \<Rightarrow> node_id \<Rightarrow> rate_limiter" where
  "RateLimiter_release lim peer =
     (case rl_inner lim peer of
        None \<Rightarrow> lim
      | Some entry \<Rightarrow>
          (let entry = entry\<lparr>pc_in_flight := saturating_sub (pc_in_flight entry) 1\<rparr> in
           if pc_in_flight entry = 0 \<and> pc_attempts entry = []
           then lim\<lparr>rl_inner := (rl_inner lim)(peer := None)\<rparr>
           else lim\<lparr>rl_inner := (rl_inner lim)(peer \<mapsto> entry)\<rparr>))"

definition in_flight :: "rate_limiter \<Rightarrow> node_id \<Rightarrow> u32" where
  "in_flight lim peer = (case rl_inner lim peer of Some e \<Rightarrow> pc_in_flight e | None \<Rightarrow> 0)"

definition attempts_in_window :: "rate_limiter \<Rightarrow> node_id \<Rightarrow> instant \<Rightarrow> u32 \<times> rate_limiter" where
  "attempts_in_window lim peer now =
     (case rl_inner lim peer of
        None \<Rightarrow> (0, lim)
      | Some entry \<Rightarrow>
          (let entry = entry\<lparr>pc_attempts := prune_attempts (pc_attempts entry) now\<rparr> in
           (word_of_nat (length (pc_attempts entry)),
            lim\<lparr>rl_inner := (rl_inner lim)(peer \<mapsto> entry)\<rparr>)))"

definition release_now :: "rate_limit_permit \<Rightarrow> rate_limiter \<Rightarrow> rate_limit_permit \<times> rate_limiter" where
  "release_now permit lim =
     (if \<not> permit_released permit
      then (permit\<lparr>permit_released := True\<rparr>, RateLimiter_release lim (permit_peer permit))
      else (permit, lim))"

definition RateLimitPermit_drop :: "rate_limit_permit \<Rightarrow> rate_limiter \<Rightarrow> rate_limiter" where
  "RateLimitPermit_drop permit lim = snd (release_now permit lim)"

text \<open>\<open>release\<close> takes the permit by value: the drop at its end runs too.\<close>

definition RateLimitPermit_release :: "rate_limit_permit \<Rightarrow> rate_limiter \<Rightarrow> rate_limiter" where
  "RateLimitPermit_release permit lim =
     (case release_now permit lim of (permit, lim) \<Rightarrow> RateLimitPermit_drop permit lim)"

section \<open>What each operation does to the counters\<close>

definition attempts_of :: "rate_limiter \<Rightarrow> node_id \<Rightarrow> instant list" where
  "attempts_of lim peer = (case rl_inner lim peer of Some e \<Rightarrow> pc_attempts e | None \<Rightarrow> [])"

definition admit_verdict ::
  "rate_limit_config \<Rightarrow> u32 \<Rightarrow> u32 \<Rightarrow> rate_limit_exceeded option" where
  "admit_verdict cfg attempts held =
     (if attempts > max_calls_per_minute cfg then Some RateLimitExceeded_CallsPerMinute
      else if held \<ge> max_concurrent_calls cfg then Some RateLimitExceeded_ConcurrentCalls
      else if held \<ge> max_live_frames cfg then Some RateLimitExceeded_LiveFrames
      else None)"

lemma prune_attempts_dropWhile:
  "prune_attempts ts now = dropWhile (\<lambda>t. now - t \<ge> CALLS_PER_MINUTE_WINDOW) ts"
  by (induction ts) simp_all

lemma try_admit_facts [policy_simps]:
  assumes "try_admit_at lim p now = (r, lim')"
  shows "rl_config lim' = rl_config lim"
    and "attempts_of lim' q =
      (if q = p then prune_attempts (attempts_of lim p) now @ [now] else attempts_of lim q)"
    and "in_flight lim' q =
      (if q = p \<and> is_ok r then saturating_add (in_flight lim p) 1 else in_flight lim q)"
    and "r = (case admit_verdict (rl_config lim)
                (word_of_nat (length (prune_attempts (attempts_of lim p) now @ [now])))
                (in_flight lim p) of
              Some e \<Rightarrow> Err e | None \<Rightarrow> Ok \<lparr>permit_peer = p, permit_released = False\<rparr>)"
  using assms
  by (auto simp: try_admit_at_def admit_verdict_def attempts_of_def in_flight_def Let_def
        PeerCounters_default_def split: option.splits if_splits)

lemma release_facts [policy_simps]:
  "rl_config (RateLimiter_release lim p) = rl_config lim"
  "attempts_of (RateLimiter_release lim p) q = attempts_of lim q"
  "in_flight (RateLimiter_release lim p) q =
     (if q = p then saturating_sub (in_flight lim p) 1 else in_flight lim q)"
  by (auto simp: RateLimiter_release_def attempts_of_def in_flight_def Let_def saturating_sub_def
      split: option.splits)

text \<open>Releasing a live permit, early or by its drop, is one release of its peer.\<close>

lemma release_once [policy_simps]:
  assumes "\<not> permit_released permit"
  shows "RateLimitPermit_drop permit lim = RateLimiter_release lim (permit_peer permit)"
    and "RateLimitPermit_release permit lim = RateLimiter_release lim (permit_peer permit)"
  using assms
  by (simp_all add: RateLimitPermit_drop_def RateLimitPermit_release_def release_now_def)

section \<open>The limiter in use\<close>

text \<open>
  Connections are admitted and permits end, in any order. Next to the limiter the state holds
  the live permits and, as ghost state, every attempt so far with its verdict.
\<close>

datatype rl_op =
    Op_Admit node_id instant
  | Op_Drop node_id
  | Op_Release node_id

record rl_state =
  rls_limiter :: rate_limiter
  rls_held :: "rate_limit_permit list"
  rls_log :: "(node_id \<times> instant \<times> bool) list"

fun take_permit :: "node_id \<Rightarrow> rate_limit_permit list
    \<Rightarrow> (rate_limit_permit \<times> rate_limit_permit list) option" where
  "take_permit p [] = None"
| "take_permit p (k # ks) =
     (if permit_peer k = p then Some (k, ks)
      else map_option (\<lambda>(k', ks'). (k', k # ks')) (take_permit p ks))"

fun rl_step :: "rl_op \<Rightarrow> rl_state \<Rightarrow> rl_state" where
  "rl_step (Op_Admit p now) st =
     (case try_admit_at (rls_limiter st) p now of
        (r, lim) \<Rightarrow>
          \<lparr>rls_limiter = lim,
           rls_held = (case r of Ok k \<Rightarrow> rls_held st @ [k] | Err _ \<Rightarrow> rls_held st),
           rls_log = rls_log st @ [(p, now, is_ok r)]\<rparr>)"
| "rl_step (Op_Drop p) st =
     (case take_permit p (rls_held st) of
        None \<Rightarrow> st
      | Some (k, ks) \<Rightarrow>
          st\<lparr>rls_limiter := RateLimitPermit_drop k (rls_limiter st), rls_held := ks\<rparr>)"
| "rl_step (Op_Release p) st =
     (case take_permit p (rls_held st) of
        None \<Rightarrow> st
      | Some (k, ks) \<Rightarrow>
          st\<lparr>rls_limiter := RateLimitPermit_release k (rls_limiter st), rls_held := ks\<rparr>)"

definition rl_init :: "rate_limit_config \<Rightarrow> rl_state" where
  "rl_init cfg = \<lparr>rls_limiter = RateLimiter_new cfg, rls_held = [], rls_log = []\<rparr>"

text \<open>
  \<open>try_admit\<close> reads the clock before \<open>try_admit_at\<close> takes the lock, so two attempts may reach the
  limiter in the other order than they read the clock: nothing is asked of the readings.
\<close>

inductive rl_reach :: "rate_limit_config \<Rightarrow> rl_state \<Rightarrow> bool" for cfg where
  init: "rl_reach cfg (rl_init cfg)"
| step: "rl_reach cfg st \<Longrightarrow> rl_reach cfg (rl_step op st)"

text \<open>Attempts of one peer in the log, oldest first.\<close>

definition log_times :: "node_id \<Rightarrow> (node_id \<times> instant \<times> bool) list \<Rightarrow> instant list" where
  "log_times p lg = map (\<lambda>(_, t, _). t) (filter (\<lambda>(q, _, _). q = p) lg)"

lemma log_times_simps [simp]:
  "log_times p [] = []"
  "log_times p (lg @ [(q, t, b)]) = (if q = p then log_times p lg @ [t] else log_times p lg)"
  by (simp_all add: log_times_def)

section \<open>The invariant\<close>

definition held_by :: "node_id \<Rightarrow> rate_limit_permit list \<Rightarrow> nat" where
  "held_by p ks = length (filter (\<lambda>k. permit_peer k = p) ks)"

lemma held_by_simps [simp]:
  "held_by p [] = 0"
  "held_by p (ks @ [k]) = held_by p ks + (if permit_peer k = p then 1 else 0)"
  "held_by p (k # ks) = (if permit_peer k = p then 1 else 0) + held_by p ks"
  by (simp_all add: held_by_def)

lemma held_by_append [simp]: "held_by p (ks @ ks') = held_by p ks + held_by p ks'"
  by (simp add: held_by_def)

lemma take_permit_facts:
  assumes "take_permit p ks = Some (k, ks')"
  shows "permit_peer k = p" and "set (k # ks') = set ks"
    and "held_by q ks' = held_by q ks - (if q = p then 1 else 0)"
    and "map permit_peer ks' = remove1 p (map permit_peer ks)"
  using assms
  by (induction ks arbitrary: k ks') (auto split: if_splits)

lemma take_permit_None: "take_permit p ks = None \<longleftrightarrow> p \<notin> permit_peer ` set ks"
  by (induction ks) auto

definition cap_inv :: "rate_limit_config \<Rightarrow> rl_state \<Rightarrow> bool" where
  "cap_inv cfg st \<longleftrightarrow>
     rl_config (rls_limiter st) = cfg \<and>
     (\<forall>k\<in>set (rls_held st). \<not> permit_released k) \<and>
     (\<forall>p. unat (in_flight (rls_limiter st) p) = held_by p (rls_held st) \<and>
          held_by p (rls_held st) \<le> unat (max_concurrent_calls cfg) \<and>
          held_by p (rls_held st) \<le> unat (max_live_frames cfg))"

text \<open>
  The queue of a peer is the end of its attempts in their order of arrival, and what is not in it any
  more was forgotten at a reading of that peer a whole window later.
\<close>

definition window_inv :: "rl_state \<Rightarrow> bool" where
  "window_inv st \<longleftrightarrow>
     (\<forall>p. \<exists>old. log_times p (rls_log st) = old @ attempts_of (rls_limiter st) p \<and>
        (\<forall>t\<in>set old. \<exists>u\<in>set (log_times p (rls_log st)). t + CALLS_PER_MINUTE_WINDOW \<le> u))"

lemma cap_inv_init: "cap_inv cfg (rl_init cfg)"
  by (simp add: cap_inv_def rl_init_def RateLimiter_new_def in_flight_def)

lemma window_inv_init: "window_inv (rl_init cfg)"
  by (simp add: window_inv_def rl_init_def RateLimiter_new_def attempts_of_def)

lemma admit_verdict_None:
  "admit_verdict cfg n h = None \<Longrightarrow>
     unat n \<le> unat (max_calls_per_minute cfg) \<and> unat h < unat (max_concurrent_calls cfg) \<and>
     unat h < unat (max_live_frames cfg)"
  by (auto simp: admit_verdict_def word_less_nat_alt word_le_nat_alt split: if_splits)

lemma admit_ok:
  assumes "try_admit_at lim p now = (Ok k, lim')"
  shows "k = \<lparr>permit_peer = p, permit_released = False\<rparr>"
    and "unat (in_flight lim p) < unat (max_concurrent_calls (rl_config lim))"
    and "unat (in_flight lim p) < unat (max_live_frames (rl_config lim))"
    and "unat (in_flight lim' p) = unat (in_flight lim p) + 1"
proof -
  from try_admit_facts(4) [OF assms]
  have v: "admit_verdict (rl_config lim)
      (word_of_nat (length (prune_attempts (attempts_of lim p) now @ [now])))
      (in_flight lim p) = None" and k: "k = \<lparr>permit_peer = p, permit_released = False\<rparr>"
    by (simp_all split: option.splits)
  from admit_verdict_None [OF v]
  have lt: "unat (in_flight lim p) < unat (max_concurrent_calls (rl_config lim))"
    "unat (in_flight lim p) < unat (max_live_frames (rl_config lim))" by simp_all
  have "unat (max_live_frames (rl_config lim)) < 2 ^ 32"
    using unsigned_less [of "max_live_frames (rl_config lim)"] by simp
  with lt(2) have "unat (saturating_add (in_flight lim p) 1) = unat (in_flight lim p) + 1"
    by (simp add: unat_saturating_add)
  then show "unat (in_flight lim' p) = unat (in_flight lim p) + 1"
    by (simp add: try_admit_facts(3) [OF assms])
  show "k = \<lparr>permit_peer = p, permit_released = False\<rparr>" by (fact k)
  show "unat (in_flight lim p) < unat (max_concurrent_calls (rl_config lim))"
    "unat (in_flight lim p) < unat (max_live_frames (rl_config lim))" using lt .
qed

lemma cap_inv_admit:
  assumes inv: "cap_inv cfg st"
  shows "cap_inv cfg (rl_step (Op_Admit p now) st)"
proof -
  obtain r lim where adm: "try_admit_at (rls_limiter st) p now = (r, lim)"
    by (cases "try_admit_at (rls_limiter st) p now")
  note facts = try_admit_facts [OF adm]
  show ?thesis
  proof (cases r)
    case (Inl e)
    then show ?thesis using inv facts adm by (simp add: cap_inv_def)
  next
    case (Inr k)
    from adm Inr have "try_admit_at (rls_limiter st) p now = (Ok k, lim)" by simp
    note ok = admit_ok [OF this]
    have "in_flight lim q = (if q = p then saturating_add (in_flight (rls_limiter st) p) 1
        else in_flight (rls_limiter st) q)" for q
      using facts(3) [of q] Inr by simp
    then show ?thesis using inv facts(1) ok adm Inr by (auto simp: cap_inv_def)
  qed
qed

lemma cap_inv_release:
  assumes inv: "cap_inv cfg st" and take: "take_permit p (rls_held st) = Some (k, ks)"
  shows "cap_inv cfg (st\<lparr>rls_limiter := RateLimiter_release (rls_limiter st) p, rls_held := ks\<rparr>)"
  using inv take_permit_facts(2,3) [OF take]
  by (auto simp: cap_inv_def release_facts unat_saturating_sub intro: order_trans [OF diff_le_self])

lemma held_permits_live:
  assumes "cap_inv cfg st" and "take_permit p (rls_held st) = Some (k, ks)"
  shows "\<not> permit_released k" and "permit_peer k = p"
  using assms take_permit_facts(1,2) [OF assms(2)] by (auto simp: cap_inv_def)

text \<open>Ending a permit, by drop or by an explicit release, is the same step.\<close>

lemma rl_step_end:
  assumes "cap_inv cfg st" and "op = Op_Drop p \<or> op = Op_Release p"
  shows "rl_step op st =
     (case take_permit p (rls_held st) of
        None \<Rightarrow> st
      | Some (k, ks) \<Rightarrow>
          st\<lparr>rls_limiter := RateLimiter_release (rls_limiter st) p, rls_held := ks\<rparr>)"
  using assms(2) held_permits_live [OF assms(1)]
  by (auto simp: release_once split: option.splits)

lemma cap_inv_step:
  assumes "cap_inv cfg st" shows "cap_inv cfg (rl_step op st)"
proof (cases op)
  case (Op_Admit p now)
  with assms show ?thesis by (simp only: cap_inv_admit)
next
  case (Op_Drop p)
  then show ?thesis
    using assms cap_inv_release [OF assms, of p] rl_step_end [OF assms, of op p]
    by (auto split: option.splits)
next
  case (Op_Release p)
  then show ?thesis
    using assms cap_inv_release [OF assms, of p] rl_step_end [OF assms, of op p]
    by (auto split: option.splits)
qed

lemma reach_cap: "rl_reach cfg st \<Longrightarrow> cap_inv cfg st"
  by (induction rule: rl_reach.induct) (simp_all add: cap_inv_init cap_inv_step)

text \<open>On a sorted list the loop drops exactly the expired entries.\<close>

lemma prune_sorted:
  assumes "sorted ts"
  shows "prune_attempts ts now = filter (\<lambda>t. now - t < CALLS_PER_MINUTE_WINDOW) ts"
  using assms
proof (induction ts)
  case Nil
  then show ?case by simp
next
  case (Cons t ts)
  then show ?case
  proof (cases "now - t \<ge> CALLS_PER_MINUTE_WINDOW")
    case False
    have "now - t' < CALLS_PER_MINUTE_WINDOW" if "t' \<in> set ts" for t'
      using Cons.prems that False by fastforce
    then have "filter (\<lambda>t. now - t < CALLS_PER_MINUTE_WINDOW) ts = ts"
      by (auto simp: filter_id_conv)
    with False show ?thesis by simp
  qed simp
qed

text \<open>
  At an attempt that is no earlier than the peer's other readings, which came in order, the pruned
  queue holds exactly the attempts of the window.
\<close>

lemma window_invD:
  assumes "window_inv st" and "sorted (log_times p (rls_log st) @ [now])"
  shows "prune_attempts (attempts_of (rls_limiter st) p) now =
      filter (\<lambda>t. now - t < CALLS_PER_MINUTE_WINDOW) (log_times p (rls_log st))"
proof -
  from assms(1) obtain old where split: "log_times p (rls_log st) = old @ attempts_of (rls_limiter st) p"
    and old: "\<forall>t\<in>set old. \<exists>u\<in>set (log_times p (rls_log st)). t + CALLS_PER_MINUTE_WINDOW \<le> u"
    unfolding window_inv_def by blast
  have "now - t \<ge> CALLS_PER_MINUTE_WINDOW" if "t \<in> set old" for t
  proof -
    from old that obtain u where "u \<in> set (log_times p (rls_log st))" "t + CALLS_PER_MINUTE_WINDOW \<le> u" by blast
    moreover from this(1) assms(2) have "u \<le> now" by (simp add: sorted_append)
    ultimately show ?thesis by linarith
  qed
  then have "filter (\<lambda>t. now - t < CALLS_PER_MINUTE_WINDOW) old = []"
    by (fastforce simp: filter_empty_conv)
  moreover have "sorted (attempts_of (rls_limiter st) p)"
    using assms(2) split by (simp add: sorted_append)
  ultimately show ?thesis using split prune_sorted by simp
qed

text \<open>What an attempt at \<open>now\<close> makes the queue forget is a whole window old.\<close>

lemma prune_split:
  obtains gone where "ts = gone @ prune_attempts ts now" and "\<forall>t\<in>set gone. t + CALLS_PER_MINUTE_WINDOW \<le> now"
proof
  show "ts = takeWhile (\<lambda>t. now - t \<ge> CALLS_PER_MINUTE_WINDOW) ts @ prune_attempts ts now"
    by (simp add: prune_attempts_dropWhile)
  show "\<forall>t\<in>set (takeWhile (\<lambda>t. now - t \<ge> CALLS_PER_MINUTE_WINDOW) ts). t + CALLS_PER_MINUTE_WINDOW \<le> now"
    by (auto dest!: set_takeWhileD simp: CALLS_PER_MINUTE_WINDOW_def)
qed

lemma window_inv_admit:
  assumes inv: "window_inv st"
  shows "window_inv (rl_step (Op_Admit p now) st)"
proof -
  obtain r lim where adm: "try_admit_at (rls_limiter st) p now = (r, lim)"
    by (cases "try_admit_at (rls_limiter st) p now")
  note facts = try_admit_facts [OF adm]
  have "\<exists>old. log_times q (rls_log st @ [(p, now, is_ok r)]) = old @ attempts_of lim q \<and>
      (\<forall>t\<in>set old. \<exists>u\<in>set (log_times q (rls_log st @ [(p, now, is_ok r)])). t + CALLS_PER_MINUTE_WINDOW \<le> u)" for q
  proof -
    from inv obtain old where split: "log_times q (rls_log st) = old @ attempts_of (rls_limiter st) q"
      and old: "\<forall>t\<in>set old. \<exists>u\<in>set (log_times q (rls_log st)). t + CALLS_PER_MINUTE_WINDOW \<le> u"
      unfolding window_inv_def by blast
    show ?thesis
    proof (cases "q = p")
      case True
      obtain gone where gone: "attempts_of (rls_limiter st) p = gone @ prune_attempts (attempts_of (rls_limiter st) p) now"
        "\<forall>t\<in>set gone. t + CALLS_PER_MINUTE_WINDOW \<le> now" by (rule prune_split)
      have "log_times p (rls_log st @ [(p, now, is_ok r)]) = (old @ gone) @ attempts_of lim p"
        using True split gone(1) facts(2) [of p] by (metis append.assoc log_times_simps(2))
      moreover have "\<forall>t\<in>set (old @ gone). \<exists>u\<in>set (log_times p (rls_log st @ [(p, now, is_ok r)])).
          t + CALLS_PER_MINUTE_WINDOW \<le> u"
        using True old gone(2) by fastforce
      ultimately show ?thesis using True by blast
    next
      case False
      with facts(2) [of q] split old show ?thesis by (intro exI [of _ old]) auto
    qed
  qed
  then show ?thesis using adm by (simp add: window_inv_def)
qed

lemma window_inv_end:
  "window_inv st \<Longrightarrow>
     window_inv (st\<lparr>rls_limiter := RateLimiter_release (rls_limiter st) p, rls_held := ks\<rparr>)"
  by (simp add: window_inv_def release_facts)

lemma reach_window: "rl_reach cfg st \<Longrightarrow> window_inv st"
proof (induction rule: rl_reach.induct)
  case init
  then show ?case by (rule window_inv_init)
next
  case (step st op)
  note cap = reach_cap [OF step.hyps(1)]
  show ?case
  proof (cases op)
    case (Op_Admit p now)
    with step window_inv_admit [of st p now] show ?thesis by simp
  next
    case (Op_Drop p)
    with step window_inv_end [where st = st and p = p] rl_step_end [OF cap, of op p] show ?thesis
      by (auto split: option.splits)
  next
    case (Op_Release p)
    with step window_inv_end [where st = st and p = p] rl_step_end [OF cap, of op p] show ?thesis
      by (auto split: option.splits)
  qed
qed

section \<open>The promise: a function of the history\<close>

text \<open>
  What the module documentation promises, stated on the whole history instead of the counters:
  who holds a permit, and every attempt ever made.
\<close>

record history =
  hist_held :: "node_id list"
  hist_log :: "(node_id \<times> instant \<times> bool) list"

definition hist_admits :: "rate_limit_config \<Rightarrow> history \<Rightarrow> node_id \<Rightarrow> instant \<Rightarrow> bool" where
  "hist_admits cfg h p now \<longleftrightarrow>
     length (filter (\<lambda>t. now - t < CALLS_PER_MINUTE_WINDOW) (log_times p (hist_log h))) + 1
        \<le> unat (max_calls_per_minute cfg) \<and>
     count_list (hist_held h) p < unat (max_concurrent_calls cfg) \<and>
     count_list (hist_held h) p < unat (max_live_frames cfg)"

fun hist_step :: "rate_limit_config \<Rightarrow> rl_op \<Rightarrow> history \<Rightarrow> history" where
  "hist_step cfg (Op_Admit p now) h =
     (let ok = hist_admits cfg h p now in
      \<lparr>hist_held = (if ok then hist_held h @ [p] else hist_held h),
       hist_log = hist_log h @ [(p, now, ok)]\<rparr>)"
| "hist_step cfg (Op_Drop p) h = h\<lparr>hist_held := remove1 p (hist_held h)\<rparr>"
| "hist_step cfg (Op_Release p) h = h\<lparr>hist_held := remove1 p (hist_held h)\<rparr>"

definition history_of :: "rl_state \<Rightarrow> history" where
  "history_of st = \<lparr>hist_held = map permit_peer (rls_held st), hist_log = rls_log st\<rparr>"

lemma held_by_count: "held_by p ks = count_list (map permit_peer ks) p"
  by (induction ks) auto

lemma admits_iff_history:
  assumes cap: "cap_inv cfg st" and win: "window_inv st" and now: "sorted (log_times p (rls_log st) @ [now])"
    and len: "length (log_times p (rls_log st)) + 1 < 2 ^ 32"
    and adm: "try_admit_at (rls_limiter st) p now = (r, lim)"
  shows "is_ok r \<longleftrightarrow> hist_admits cfg (history_of st) p now"
proof -
  let ?ts = "filter (\<lambda>t. now - t < CALLS_PER_MINUTE_WINDOW) (log_times p (rls_log st))"
  have "length ?ts + 1 < 2 ^ 32"
    using len length_filter_le [of "\<lambda>t. now - t < CALLS_PER_MINUTE_WINDOW" "log_times p (rls_log st)"] by linarith
  then have n: "unat (word_of_nat (length ?ts + 1) :: u32) = length ?ts + 1"
    by (intro unat_word_of_nat_less) simp
  have cfg: "rl_config (rls_limiter st) = cfg"
    and h: "unat (in_flight (rls_limiter st) p) = count_list (map permit_peer (rls_held st)) p"
    using cap by (simp_all add: cap_inv_def held_by_count)
  from try_admit_facts(4) [OF adm]
  have "is_ok r \<longleftrightarrow> admit_verdict cfg (word_of_nat (length ?ts + 1)) (in_flight (rls_limiter st) p) = None"
    by (simp add: window_invD [OF win now] cfg split: option.splits)
  also have "\<dots> \<longleftrightarrow> hist_admits cfg (history_of st) p now"
    using n h
    by (auto simp: admit_verdict_def hist_admits_def history_of_def word_less_nat_alt
        word_le_nat_alt simp del: of_nat_add of_nat_Suc)
  finally show ?thesis .
qed

text \<open>
  C11: The rate limiter is a function of the history. Whatever was admitted, refused and ended
  before, the next operation on the limiter does what the history says. Ending a permit gives back the
  share of its peer, always. An attempt, if the peer's clock readings came to the limiter in order (which
  the code does not ensure: it reads the clock before it takes the lock) and there were fewer than
  \<open>2 ^ 32\<close> of them, is admitted exactly when, counting it, the peer made at most
  \<open>max_calls_per_minute\<close> attempts (admitted or not) in the last sixty seconds and holds fewer
  permits than both caps; the pruned queues and the counters lose nothing.
\<close>

theorem limiter_refines_history:
  assumes "rl_reach cfg st"
    and "\<forall>p now. op = Op_Admit p now \<longrightarrow>
      sorted (log_times p (rls_log st) @ [now]) \<and> length (log_times p (rls_log st)) + 1 < 2 ^ 32"
  shows "history_of (rl_step op st) = hist_step cfg op (history_of st)"
proof (cases op)
  case (Op_Admit p now)
  obtain r lim where adm: "try_admit_at (rls_limiter st) p now = (r, lim)"
    by (cases "try_admit_at (rls_limiter st) p now")
  from assms(2) Op_Admit have "sorted (log_times p (rls_log st) @ [now])"
    "length (log_times p (rls_log st)) + 1 < 2 ^ 32" by blast+
  note iff = admits_iff_history [OF reach_cap [OF assms(1)] reach_window [OF assms(1)] this adm]
  show ?thesis
  proof (cases r)
    case (Inl e)
    then show ?thesis using iff adm Op_Admit by (simp add: history_of_def)
  next
    case (Inr k)
    with adm have "try_admit_at (rls_limiter st) p now = (Ok k, lim)" by simp
    from admit_ok(1) [OF this] have "permit_peer k = p" by simp
    then show ?thesis using iff adm Op_Admit Inr by (simp add: history_of_def)
  qed
next
  case (Op_Drop p)
  then show ?thesis
    using rl_step_end [OF reach_cap [OF assms(1)], of op p]
    by (auto simp: history_of_def take_permit_facts(4) take_permit_None remove1_idem
        split: option.splits)
next
  case (Op_Release p)
  then show ?thesis
    using rl_step_end [OF reach_cap [OF assms(1)], of op p]
    by (auto simp: history_of_def take_permit_facts(4) take_permit_None remove1_idem
        split: option.splits)
qed

theorem limiter_refines_history_witness:
  "history_of (rl_step (Op_Admit (NodeId [1]) 5) (rl_init (RateLimitConfig_tight 1))) =
     \<lparr>hist_held = [NodeId [1]], hist_log = [(NodeId [1], 5, True)]\<rparr>"
proof -
  have "rl_reach (RateLimitConfig_tight 1) (rl_init (RateLimitConfig_tight 1))"
    by (rule rl_reach.init)
  from limiter_refines_history [OF this, of "Op_Admit (NodeId [1]) 5"]
  show ?thesis
    by (simp add: rl_init_def history_of_def hist_admits_def RateLimitConfig_tight_def)
qed

text \<open>
  No peer ever holds more than its share: after any sequence of admissions, drops and early
  releases \<open>in_flight\<close> of every peer is exactly the number of its live permits (so no saturating
  operation saturates and no permit is counted twice), and it is within both caps.
\<close>

theorem in_flight_is_permits_and_capped:
  assumes "rl_reach cfg st"
  shows "unat (in_flight (rls_limiter st) p) = held_by p (rls_held st) \<and>
    held_by p (rls_held st) \<le> min (unat (max_concurrent_calls cfg)) (unat (max_live_frames cfg))"
  using reach_cap [OF assms] by (simp add: cap_inv_def)

theorem in_flight_is_permits_and_capped_witness:
  "in_flight (rls_limiter (rl_step (Op_Admit (NodeId [1]) 5)
     (rl_init RateLimitConfig_defaults))) (NodeId [1]) = 1 \<and>
   held_by (NodeId [1]) (rls_held (rl_step (Op_Admit (NodeId [1]) 5)
     (rl_init RateLimitConfig_defaults))) \<le> 8"
proof -
  have reach: "rl_reach RateLimitConfig_defaults
      (rl_step (Op_Admit (NodeId [1]) 5) (rl_init RateLimitConfig_defaults))"
    by (intro rl_reach.intros)
  have "in_flight (rls_limiter (rl_step (Op_Admit (NodeId [1]) 5)
      (rl_init RateLimitConfig_defaults))) (NodeId [1]) = 1"
    by (simp add: rl_init_def RateLimiter_new_def try_admit_at_def PeerCounters_default_def
        RateLimitConfig_defaults_def DEFAULT_MAX_CONCURRENT_CALLS_def
        DEFAULT_MAX_CALLS_PER_MINUTE_def DEFAULT_MAX_LIVE_FRAMES_def in_flight_def
        saturating_add_def Let_def)
  with in_flight_is_permits_and_capped [OF reach, of "NodeId [1]"] show ?thesis
    by (simp add: RateLimitConfig_defaults_def DEFAULT_MAX_CONCURRENT_CALLS_def
        DEFAULT_MAX_LIVE_FRAMES_def)
qed

section \<open>Calls per minute\<close>

definition admitted_within ::
  "(node_id \<times> instant \<times> bool) list \<Rightarrow> node_id \<Rightarrow> instant \<Rightarrow> nat \<Rightarrow> nat" where
  "admitted_within lg p w len =
     length (filter (\<lambda>(q, t, ok). q = p \<and> ok \<and> w \<le> t \<and> t < w + len) lg)"

lemma admitted_within_simps [simp]:
  "admitted_within [] p w len = 0"
  "admitted_within (lg @ [(q, t, ok)]) p w len =
     admitted_within lg p w len + (if q = p \<and> ok \<and> w \<le> t \<and> t < w + len then 1 else 0)"
  by (simp_all add: admitted_within_def)

lemma admitted_within_le:
  "admitted_within lg p w len \<le> length (filter (\<lambda>t. w \<le> t \<and> t < w + len) (log_times p lg))"
proof (induction lg rule: rev_induct)
  case (snoc e lg)
  obtain q t ok where "e = (q, t, ok)" by (cases e)
  with snoc show ?case by auto
qed (simp add: log_times_def)

text \<open>
  Readings that are at most \<open>late\<close> behind a reading that came before them. An attempt of the window
  that was forgotten would need a reading past the window's end before \<open>now\<close>, which is less than
  \<open>late\<close> before that end.
\<close>

lemma window_kept:
  assumes "window_inv st" and late: "sorted_wrt (\<lambda>s t. s \<le> t + late) (log_times p (rls_log st) @ [now])"
    and now: "w \<le> now" "now < w + (CALLS_PER_MINUTE_WINDOW - late)"
  shows "length (filter (\<lambda>t. w \<le> t \<and> t < w + (CALLS_PER_MINUTE_WINDOW - late)) (log_times p (rls_log st))) \<le>
    length (prune_attempts (attempts_of (rls_limiter st) p) now)"
proof -
  let ?in = "\<lambda>t. w \<le> t \<and> t < w + (CALLS_PER_MINUTE_WINDOW - late)"
  from assms(1) obtain old where split: "log_times p (rls_log st) = old @ attempts_of (rls_limiter st) p"
    and old: "\<forall>t\<in>set old. \<exists>u\<in>set (log_times p (rls_log st)). t + CALLS_PER_MINUTE_WINDOW \<le> u"
    unfolding window_inv_def by blast
  obtain gone where gone: "attempts_of (rls_limiter st) p = gone @ prune_attempts (attempts_of (rls_limiter st) p) now"
    "\<forall>t\<in>set gone. t + CALLS_PER_MINUTE_WINDOW \<le> now" by (rule prune_split)
  have "\<not> ?in t" if "t \<in> set old" for t
  proof -
    from old that obtain u where "u \<in> set (log_times p (rls_log st))" "t + CALLS_PER_MINUTE_WINDOW \<le> u" by blast
    moreover from this(1) late have "u \<le> now + late" by (simp add: sorted_wrt_append)
    ultimately show ?thesis using now by linarith
  qed
  moreover have "\<not> ?in t" if "t \<in> set gone" for t
    using gone(2) that now by fastforce
  ultimately have none: "filter ?in old = []" "filter ?in gone = []" by (auto simp: filter_empty_conv)
  have "filter ?in (log_times p (rls_log st)) = filter ?in old @ filter ?in (attempts_of (rls_limiter st) p)"
    by (simp only: split filter_append)
  also have "filter ?in (attempts_of (rls_limiter st) p) =
      filter ?in gone @ filter ?in (prune_attempts (attempts_of (rls_limiter st) p) now)"
    by (subst gone(1)) (simp only: filter_append)
  finally show ?thesis by (simp add: none)
qed

lemma reach_window_bound:
  assumes "rl_reach cfg st" and "sorted_wrt (\<lambda>s t. s \<le> t + late) (log_times p (rls_log st))"
    and "length (log_times p (rls_log st)) < 2 ^ 32"
  shows "admitted_within (rls_log st) p w (CALLS_PER_MINUTE_WINDOW - late) \<le> unat (max_calls_per_minute cfg)"
  using assms
proof (induction rule: rl_reach.induct)
  case init
  then show ?case by (simp add: rl_init_def)
next
  case (step st op)
  note cap = reach_cap [OF step.hyps(1)] and win = reach_window [OF step.hyps(1)]
  show ?case
  proof (cases op)
    case (Op_Admit q now)
    obtain r lim where adm: "try_admit_at (rls_limiter st) q now = (r, lim)"
      by (cases "try_admit_at (rls_limiter st) q now")
    have log: "rls_log (rl_step op st) = rls_log st @ [(q, now, is_ok r)]" by (simp add: Op_Admit adm)
    from step.prems have IH: "admitted_within (rls_log st) p w (CALLS_PER_MINUTE_WINDOW - late) \<le>
        unat (max_calls_per_minute cfg)"
      unfolding log by (intro step.IH) (auto simp: sorted_wrt_append split: if_splits)
    show ?thesis
    proof (cases "q = p \<and> is_ok r \<and> w \<le> now \<and> now < w + (CALLS_PER_MINUTE_WINDOW - late)")
      case True
      let ?queue = "prune_attempts (attempts_of (rls_limiter st) p) now"
      from True step.prems have late: "sorted_wrt (\<lambda>s t. s \<le> t + late) (log_times p (rls_log st) @ [now])"
        and len: "length (log_times p (rls_log st)) + 1 < 2 ^ 32" unfolding log by simp_all
      have kept: "admitted_within (rls_log st) p w (CALLS_PER_MINUTE_WINDOW - late) \<le> length ?queue"
        using admitted_within_le window_kept [OF win late] True by (blast intro: order_trans)
      obtain old where "log_times p (rls_log st) = old @ attempts_of (rls_limiter st) p"
        using win unfolding window_inv_def by blast
      moreover have "length ?queue \<le> length (attempts_of (rls_limiter st) p)"
        by (simp add: prune_attempts_dropWhile length_dropWhile_le)
      ultimately have "unat (word_of_nat (length (?queue @ [now])) :: u32) = length ?queue + 1"
        using len by (subst unat_word_of_nat_less) auto
      moreover from True adm obtain k where "try_admit_at (rls_limiter st) p now = (Ok k, lim)"
        by (cases r) auto
      from try_admit_facts(4) [OF this] cap
      have "admit_verdict cfg (word_of_nat (length (?queue @ [now]))) (in_flight (rls_limiter st) p) = None"
        by (simp add: cap_inv_def split: option.splits)
      note admit_verdict_None [OF this]
      ultimately have "length ?queue + 1 \<le> unat (max_calls_per_minute cfg)" by simp
      with kept True show ?thesis unfolding log by simp
    next
      case False
      with IH show ?thesis unfolding log by auto
    qed
  next
    case (Op_Drop q)
    with step rl_step_end [OF cap, of op q] show ?thesis by (auto split: option.splits)
  next
    case (Op_Release q)
    with step rl_step_end [OF cap, of op q] show ?thesis by (auto split: option.splits)
  qed
qed

text \<open>
  C21: No peer gets more than \<open>max_calls_per_minute\<close> calls admitted in a minute, less the time by which
  its attempts overtake each other. If no clock reading of the peer reached the limiter more than
  \<open>late\<close> behind a reading that came before it, then in no window of sixty seconds less \<open>late\<close>, wherever
  it starts, are more calls of the peer admitted; with readings in order (\<open>late = 0\<close>) the window is the full
  minute. The peer must have made fewer than \<open>2 ^ 32\<close> attempts (the count is truncated to \<open>u32\<close>).
\<close>

theorem calls_per_minute_bound:
  assumes "rl_reach cfg st" and "sorted_wrt (\<lambda>s t. s \<le> t + late) (log_times p (rls_log st))"
    and "length (log_times p (rls_log st)) < 2 ^ 32"
  shows "length (filter (\<lambda>(q, t, ok). q = p \<and> ok \<and> w \<le> t \<and> t < w + (60 * 10 ^ 9 - late)) (rls_log st))
    \<le> unat (max_calls_per_minute cfg)"
  using reach_window_bound [OF assms, of w] by (simp only: admitted_within_def CALLS_PER_MINUTE_WINDOW_def)

text \<open>Runs of attempts of one peer, for the witnesses.\<close>

definition attempts_run :: "rate_limit_config \<Rightarrow> instant list \<Rightarrow> rl_state" where
  "attempts_run cfg ts = foldl (\<lambda>st t. rl_step (Op_Admit (NodeId [1]) t) st) (rl_init cfg) ts"

lemma attempts_run_reach: "rl_reach cfg (attempts_run cfg ts)"
  by (induction ts rule: rev_induct) (simp_all add: attempts_run_def rl_reach.intros del: rl_step.simps)

definition two_per_minute :: rate_limit_config where
  "two_per_minute = RateLimitConfig_defaults\<lparr>max_calls_per_minute := 2\<rparr>"

definition one_peer :: "rate_limit_config \<Rightarrow> u32 \<Rightarrow> instant list \<Rightarrow> rate_limiter" where
  "one_peer cfg held ts = \<lparr>rl_config = cfg, rl_inner = [NodeId [1] \<mapsto> \<lparr>pc_in_flight = held, pc_attempts = ts\<rparr>]\<rparr>"

lemma first_attempt:
  assumes "max_calls_per_minute cfg \<noteq> 0" and "max_concurrent_calls cfg \<noteq> 0" and "max_live_frames cfg \<noteq> 0"
  shows "try_admit_at (RateLimiter_new cfg) (NodeId [1]) t =
    (Ok \<lparr>permit_peer = NodeId [1], permit_released = False\<rparr>, one_peer cfg 1 [t])"
  using assms
  by (simp add: try_admit_at_def RateLimiter_new_def PeerCounters_default_def one_peer_def saturating_add_def
      not_less not_le Let_def)

lemma next_attempt:
  assumes "prune_attempts ts t = ts'" and "word_of_nat (length (ts' @ [t])) \<le> max_calls_per_minute cfg"
    and "held < max_concurrent_calls cfg" and "held < max_live_frames cfg" and "saturating_add held 1 = held'"
  shows "try_admit_at (one_peer cfg held ts) (NodeId [1]) t =
    (Ok \<lparr>permit_peer = NodeId [1], permit_released = False\<rparr>, one_peer cfg held' (ts' @ [t]))"
  using assms by (simp add: try_admit_at_def one_peer_def not_less not_le Let_def)

text \<open>
  Readings of 0.01 s, 0.05 s, 60.06 s and, delayed on its way to the lock, 59.99 s: the third makes the limiter
  forget the first two, and the fourth is admitted as the second of its minute.
\<close>

lemma late_run_log:
  "rls_log (attempts_run two_per_minute [10000000, 50000000, 60060000000, 59990000000]) =
     map (\<lambda>t. (NodeId [1], t, True)) [10000000, 50000000, 60060000000, 59990000000]"
proof -
  let ?cfg = two_per_minute and ?n = "NodeId [1]"
  have cfg: "max_calls_per_minute ?cfg = 2" "max_concurrent_calls ?cfg = 8" "max_live_frames ?cfg = 8"
    by (simp_all add: two_per_minute_def RateLimitConfig_defaults_def DEFAULT_MAX_CONCURRENT_CALLS_def
        DEFAULT_MAX_LIVE_FRAMES_def)
  have adm:
    "try_admit_at (RateLimiter_new ?cfg) ?n 10000000 =
       (Ok \<lparr>permit_peer = ?n, permit_released = False\<rparr>, one_peer ?cfg 1 [10000000])"
    "try_admit_at (one_peer ?cfg 1 [10000000]) ?n 50000000 =
       (Ok \<lparr>permit_peer = ?n, permit_released = False\<rparr>, one_peer ?cfg 2 ([10000000] @ [50000000]))"
    "try_admit_at (one_peer ?cfg 2 [10000000, 50000000]) ?n 60060000000 =
       (Ok \<lparr>permit_peer = ?n, permit_released = False\<rparr>, one_peer ?cfg 3 ([] @ [60060000000]))"
    "try_admit_at (one_peer ?cfg 3 [60060000000]) ?n 59990000000 =
       (Ok \<lparr>permit_peer = ?n, permit_released = False\<rparr>, one_peer ?cfg 4 ([60060000000] @ [59990000000]))"
    by (rule first_attempt next_attempt;
        simp add: cfg CALLS_PER_MINUTE_WINDOW_def saturating_add_def)+
  show ?thesis
    using adm(2-4) by (simp add: attempts_run_def rl_init_def adm(1))
qed

theorem calls_per_minute_bound_witness:
  "length (filter (\<lambda>(q, t, ok). q = NodeId [1] \<and> ok \<and> 10000000 \<le> t \<and> t < 10000000 + (60 * 10 ^ 9 - 70000000))
     (rls_log (attempts_run two_per_minute [10000000, 50000000, 60060000000, 59990000000]))) \<le> 2"
proof -
  have "sorted_wrt (\<lambda>s t. s \<le> t + 70000000)
      (log_times (NodeId [1]) (rls_log (attempts_run two_per_minute [10000000, 50000000, 60060000000, 59990000000])))"
    "length (log_times (NodeId [1])
      (rls_log (attempts_run two_per_minute [10000000, 50000000, 60060000000, 59990000000]))) < 2 ^ 32"
    by (simp_all add: late_run_log log_times_def)
  from calls_per_minute_bound [OF attempts_run_reach this, of 10000000]
  show ?thesis by (simp add: two_per_minute_def)
qed

text \<open>In that run three calls are admitted within a minute, under a limit of two.\<close>

lemma late_reading_exceeds_limit:
  "rl_reach two_per_minute (attempts_run two_per_minute [10000000, 50000000, 60060000000, 59990000000])"
  "max_calls_per_minute two_per_minute = 2"
  "admitted_within (rls_log (attempts_run two_per_minute [10000000, 50000000, 60060000000, 59990000000]))
     (NodeId [1]) 10000000 (60 * 10 ^ 9) = 3"
  by (rule attempts_run_reach, simp add: two_per_minute_def, simp add: late_run_log admitted_within_def)

section \<open>Idle peers stay\<close>

lemma reach_entries:
  assumes "rl_reach cfg st"
  shows "(\<forall>p e. rl_inner (rls_limiter st) p = Some e \<longrightarrow> pc_attempts e \<noteq> []) \<and>
    fst ` set (rls_log st) \<subseteq> dom (rl_inner (rls_limiter st))"
  using assms
proof (induction rule: rl_reach.induct)
  case init
  then show ?case by (simp add: rl_init_def RateLimiter_new_def)
next
  case (step st op)
  note cap = reach_cap [OF step.hyps(1)]
  have keep: "(\<forall>q e. rl_inner (RateLimiter_release (rls_limiter st) p) q = Some e \<longrightarrow> pc_attempts e \<noteq> []) \<and>
      dom (rl_inner (rls_limiter st)) \<subseteq> dom (rl_inner (RateLimiter_release (rls_limiter st) p))" for p
    using step.IH by (auto simp: RateLimiter_release_def Let_def split: option.splits if_splits)
  show ?case
  proof (cases op)
    case (Op_Admit q now)
    then show ?thesis
      using step.IH by (auto simp: try_admit_at_def Let_def split: if_splits)
  next
    case (Op_Drop q)
    with step.IH keep [of q] rl_step_end [OF cap, of op q] show ?thesis
      by (auto split: option.splits)
  next
    case (Op_Release q)
    with step.IH keep [of q] rl_step_end [OF cap, of op q] show ?thesis
      by (auto split: option.splits)
  qed
qed

text \<open>
  The limiter forgets nobody. \<open>release\<close> removes an idle peer only when its attempt queue is
  empty, and no operation of a running node empties it (an attempt prunes and then pushes): every
  peer that ever attempted a connection, admitted or not, keeps its entry for the life of the
  process.
\<close>

theorem idle_peers_never_forgotten:
  assumes "rl_reach cfg st" and "(p, t, ok) \<in> set (rls_log st)"
  shows "p \<in> dom (rl_inner (rls_limiter st))"
  using reach_entries [OF assms(1)] assms(2) by force

theorem idle_peers_never_forgotten_witness:
  "NodeId [1] \<in> dom (rl_inner (rls_limiter (rl_step (Op_Drop (NodeId [1]))
     (rl_step (Op_Admit (NodeId [1]) 5) (rl_init (RateLimitConfig_tight 1))))))"
proof -
  let ?cfg = "RateLimitConfig_tight 1"
  let ?st = "rl_step (Op_Admit (NodeId [1]) 5) (rl_init ?cfg)"
  have reach: "rl_reach ?cfg (rl_step (Op_Drop (NodeId [1])) ?st)" by (intro rl_reach.intros)
  have "(NodeId [1], 5, True) \<in> set (rls_log (rl_step (Op_Drop (NodeId [1])) ?st))"
    by (simp add: rl_init_def RateLimiter_new_def try_admit_at_def PeerCounters_default_def
        RateLimitConfig_tight_def saturating_add_def Let_def)
  with reach show ?thesis by (rule idle_peers_never_forgotten)
qed

section \<open>What a node relies on\<close>

text \<open>
  The interface of the limiter to the node: an admission hands out a permit of its peer and counts it,
  dropping a live permit uncounts it, and nothing is admitted at the cap. A client that keeps the
  permits of its running calls in a list then has the count of every peer right.
\<close>

locale call_limiter =
  fixes admit :: "'l \<Rightarrow> node_id \<Rightarrow> instant \<Rightarrow> (rate_limit_permit, 'e) result \<times> 'l"
    and drop_permit :: "rate_limit_permit \<Rightarrow> 'l \<Rightarrow> 'l"
    and count :: "'l \<Rightarrow> node_id \<Rightarrow> nat"
    and cap :: "'l \<Rightarrow> nat"
  assumes admit_permit: "admit l p now = (Ok k, l') \<Longrightarrow> permit_peer k = p \<and> \<not> permit_released k"
    and admit_below: "admit l p now = (Ok k, l') \<Longrightarrow> count l p < cap l"
    and admit_count: "admit l p now = (r, l') \<Longrightarrow>
      count l' q = count l q + (if is_ok r \<and> q = p then 1 else 0)"
    and admit_cap: "admit l p now = (r, l') \<Longrightarrow> cap l' = cap l"
    and drop_count: "\<not> permit_released k \<Longrightarrow>
      count (drop_permit k l) q = count l q - (if q = permit_peer k then 1 else 0)"
    and drop_cap: "cap (drop_permit k l) = cap l"
begin

definition accounts :: "nat \<Rightarrow> 'l \<Rightarrow> rate_limit_permit list \<Rightarrow> bool" where
  "accounts c l ks \<longleftrightarrow> cap l = c \<and> (\<forall>k\<in>set ks. \<not> permit_released k) \<and>
     (\<forall>p. count l p = held_by p ks \<and> held_by p ks \<le> c)"

lemma accounts_admit:
  assumes "accounts c l ks" and "admit l p now = (r, l')"
  shows "accounts c l' (case r of Ok k \<Rightarrow> ks @ [k] | Err _ \<Rightarrow> ks)"
proof (cases r)
  case (Inl e)
  with assms admit_count [OF assms(2)] admit_cap [OF assms(2)] show ?thesis by (simp add: accounts_def)
next
  case (Inr k)
  note adm = assms(2) [unfolded Inr]
  from admit_below [OF adm] assms(1) have "held_by p ks < c" by (simp add: accounts_def)
  with assms(1) Inr admit_permit [OF adm] admit_count [OF adm] admit_cap [OF adm] show ?thesis
    by (auto simp: accounts_def)
qed

lemma accounts_drop:
  assumes "accounts c l (ks1 @ k # ks2)"
  shows "accounts c (drop_permit k l) (ks1 @ ks2)"
proof -
  have live: "\<not> permit_released k" using assms by (simp add: accounts_def)
  have here: "count l q = held_by q (ks1 @ k # ks2) \<and> held_by q (ks1 @ k # ks2) \<le> c" for q
    using assms by (simp only: accounts_def)
  have "count (drop_permit k l) q = held_by q (ks1 @ ks2) \<and> held_by q (ks1 @ ks2) \<le> c" for q
    using here [of q] drop_count [OF live, of l q] by (cases "q = permit_peer k") auto
  then show ?thesis using assms drop_cap [of k l] by (simp add: accounts_def)
qed

lemma accounts_bound: "accounts c l ks \<Longrightarrow> count l p = held_by p ks \<and> held_by p ks \<le> c"
  by (simp add: accounts_def)

end

definition limiter_cap :: "rate_limit_config \<Rightarrow> nat" where
  "limiter_cap cfg = min (unat (max_concurrent_calls cfg)) (unat (max_live_frames cfg))"

interpretation limiter: call_limiter try_admit_at RateLimitPermit_drop
    "\<lambda>lim p. unat (in_flight lim p)" "\<lambda>lim. limiter_cap (rl_config lim)"
proof unfold_locales
  fix lim lim' p q now k
    and r :: "(rate_limit_permit, rate_limit_exceeded) result"
  show "permit_peer k = p \<and> \<not> permit_released k" if "try_admit_at lim p now = (Ok k, lim')"
    using admit_ok(1) [OF that] by simp
  show "unat (in_flight lim p) < limiter_cap (rl_config lim)" if "try_admit_at lim p now = (Ok k, lim')"
    using admit_ok(2,3) [OF that] by (simp add: limiter_cap_def)
  show "unat (in_flight lim' q) = unat (in_flight lim q) + (if is_ok r \<and> q = p then 1 else 0)"
    if "try_admit_at lim p now = (r, lim')"
    using try_admit_facts(3) [OF that, of q] that admit_ok(4) [of lim p now _ lim'] by (cases r) auto
  show "limiter_cap (rl_config lim') = limiter_cap (rl_config lim)" if "try_admit_at lim p now = (r, lim')"
    using try_admit_facts(1) [OF that] by simp
next
  fix k lim q
  show "unat (in_flight (RateLimitPermit_drop k lim) q) =
      unat (in_flight lim q) - (if q = permit_peer k then 1 else 0)" if "\<not> permit_released k"
    using that by (simp add: release_once release_facts unat_saturating_sub)
  show "limiter_cap (rl_config (RateLimitPermit_drop k lim)) = limiter_cap (rl_config lim)"
    by (simp add: RateLimitPermit_drop_def release_now_def release_facts)
qed

lemma limiter_accounts_new: "limiter.accounts (limiter_cap cfg) (RateLimiter_new cfg) []"
  unfolding limiter.accounts_def by (simp add: RateLimiter_new_def in_flight_def)

end
