(* ===== verification/Identity.thy ===== *)
theory Identity
  imports Core_Types
begin

text \<open>
  The persistent identity of a node, src/crates/uat-node/src/identity.rs, with the key conversions
  of src/crates/uat-node/src/lib.rs. The file system is a record of the operations the code calls,
  the Ed25519 keys are iroh's; both are parameters. Paths and modes are values.
\<close>

section \<open>Parameters\<close>

text \<open>
  \<open>fs_mode\<close> is \<open>metadata(path)?.permissions().mode()\<close>, \<open>fs_open\<close> gives a handle, \<open>fs_read h n\<close> fills
  a buffer of \<open>n\<close> bytes as far as it gets, \<open>fs_create_new\<close> is \<open>write(true).create_new(true)\<close> with or
  without an explicit mode.
\<close>

record ('fs, 'h) id_os =
  fs_exists :: "'fs \<Rightarrow> string \<Rightarrow> bool"
  fs_mode :: "'fs \<Rightarrow> string \<Rightarrow> (u32, io_error) result"
  fs_open :: "'fs \<Rightarrow> string \<Rightarrow> ('h, io_error) result"
  fs_read :: "'h \<Rightarrow> nat \<Rightarrow> (bytes, io_error) result \<times> 'h"
  fs_create_dir_all :: "'fs \<Rightarrow> string \<Rightarrow> (unit, io_error) result \<times> 'fs"
  fs_create_new :: "'fs \<Rightarrow> string \<Rightarrow> u32 option \<Rightarrow> (unit, io_error) result \<times> 'fs"
  fs_write_all :: "'fs \<Rightarrow> string \<Rightarrow> bytes \<Rightarrow> (unit, io_error) result \<times> 'fs"
  fs_sync_all :: "'fs \<Rightarrow> string \<Rightarrow> (unit, io_error) result \<times> 'fs"
  fs_set_mode :: "'fs \<Rightarrow> string \<Rightarrow> u32 \<Rightarrow> (unit, io_error) result \<times> 'fs"

record 'sk key_lib =
  key_from_bytes :: "bytes \<Rightarrow> 'sk"
  key_to_bytes :: "'sk \<Rightarrow> bytes"
  key_public :: "'sk \<Rightarrow> bytes"
  public_from_bytes :: "bytes \<Rightarrow> bytes option"

section \<open>Constants, errors, keys\<close>

definition DEFAULT_UAT_DIR :: string where "DEFAULT_UAT_DIR = ''.uat''"
definition IDENTITY_FILE :: string where "IDENTITY_FILE = ''identity.key''"
definition REQUIRED_MODE :: u32 where "REQUIRED_MODE = 384"

datatype node_error = NodeError_InvalidPublicKey

datatype identity_error =
    IdentityError_NoHome
  | IdentityError_InsecurePermissions u32
  | IdentityError_BadKeyLength
  | IdentityError_Io io_error
  | IdentityError_Node node_error

text \<open>An iroh public key is its 32 bytes.\<close>

definition node_id_to_public_key :: "'sk key_lib \<Rightarrow> node_id \<Rightarrow> (bytes, node_error) result" where
  "node_id_to_public_key keys i =
     ok_or NodeError_InvalidPublicKey (public_from_bytes keys (NodeId_as_bytes i))"

definition public_key_to_node_id :: "bytes \<Rightarrow> node_id" where
  "public_key_to_node_id key = NodeId_from_bytes key"

record 'sk identity =
  identity_secret :: 'sk
  identity_node_id :: node_id

text \<open>The value both ways of getting a key end in.\<close>

definition identity_of :: "'sk key_lib \<Rightarrow> 'sk \<Rightarrow> 'sk identity" where
  "identity_of keys secret =
     \<lparr>identity_secret = secret, identity_node_id = public_key_to_node_id (key_public keys secret)\<rparr>"

section \<open>Where the key is\<close>

text \<open>\<open>var\<close> is \<open>env::var\<close> (absent also when not Unicode), \<open>var_os\<close> is \<open>env::var_os\<close>.\<close>

definition uat_home ::
  "(string \<Rightarrow> string option) \<Rightarrow> (string \<Rightarrow> string option) \<Rightarrow> (string, identity_error) result" where
  "uat_home var var_os =
     (case var ''UAT_HOME'' of
        Some path \<Rightarrow> Ok path
      | None \<Rightarrow>
          (case var_os ''HOME'' of
             None \<Rightarrow> Err IdentityError_NoHome
           | Some home \<Rightarrow> Ok (path_join home DEFAULT_UAT_DIR)))"

definition identity_path ::
  "(string \<Rightarrow> string option) \<Rightarrow> (string \<Rightarrow> string option) \<Rightarrow> (string, identity_error) result" where
  "identity_path var var_os =
     and_then (uat_home var var_os) (\<lambda>home. Ok (path_join home IDENTITY_FILE))"

section \<open>Loading\<close>

definition permission_bits :: "u32 \<Rightarrow> u32" where
  "permission_bits mode = mode AND 511"

definition load_at ::
  "('fs, 'h) id_os \<Rightarrow> 'sk key_lib \<Rightarrow> 'fs \<Rightarrow> string \<Rightarrow> ('sk identity, identity_error) result" where
  "load_at os keys fs path =
     (case fs_mode os fs path of
        Err e \<Rightarrow> Err (IdentityError_Io e)
      | Ok m \<Rightarrow>
          (let mode = permission_bits m in
           if mode \<noteq> REQUIRED_MODE then Err (IdentityError_InsecurePermissions mode)
           else case fs_open os fs path of
                  Err e \<Rightarrow> Err (IdentityError_Io e)
                | Ok file \<Rightarrow>
                    (case fs_read os file 32 of
                       (Err e, file) \<Rightarrow> Err (IdentityError_Io e)
                     | (Ok buf, file) \<Rightarrow>
                         if length buf \<noteq> 32 then Err IdentityError_BadKeyLength
                         else (case fs_read os file 1 of
                                 (Err e, file) \<Rightarrow> Err (IdentityError_Io e)
                               | (Ok extra, file) \<Rightarrow>
                                   if length extra \<noteq> 0 then Err IdentityError_BadKeyLength
                                   else (let secret = key_from_bytes keys buf in
                                         Ok (identity_of keys secret))))))"

section \<open>Creating\<close>

text \<open>
  The write, with the fallback for file systems that refuse a mode on open. \<open>io_then\<close> is the
  \<open>?\<close> on an operation of the file system.
\<close>

definition io_then ::
  "('a, io_error) result \<times> 'fs \<Rightarrow> ('a \<Rightarrow> 'fs \<Rightarrow> ('b, identity_error) result \<times> 'fs)
     \<Rightarrow> ('b, identity_error) result \<times> 'fs" where
  "io_then r f = (case r of (Err e, fs) \<Rightarrow> (Err (IdentityError_Io e), fs) | (Ok x, fs) \<Rightarrow> f x fs)"

definition write_key ::
  "('fs, 'h) id_os \<Rightarrow> 'fs \<Rightarrow> string \<Rightarrow> bytes \<Rightarrow> (unit, identity_error) result \<times> 'fs" where
  "write_key os fs path key =
     (case fs_create_new os fs path (Some REQUIRED_MODE) of
        (Ok _, fs) \<Rightarrow>
          io_then (fs_write_all os fs path key) (\<lambda>_ fs.
          io_then (fs_sync_all os fs path) (\<lambda>_ fs. (Ok (), fs)))
      | (Err err, fs) \<Rightarrow>
          if io_kind err = Kind_PermissionDenied
          then
            io_then (fs_create_new os fs path None) (\<lambda>_ fs.
            io_then (fs_write_all os fs path key) (\<lambda>_ fs.
            io_then (fs_sync_all os fs path) (\<lambda>_ fs.
            io_then (fs_mode os fs path, fs) (\<lambda>perms fs.
            io_then (fs_set_mode os fs path REQUIRED_MODE) (\<lambda>_ fs. (Ok (), fs))))))
          else (Err (IdentityError_Io err), fs))"

text \<open>\<open>secret\<close> is what \<open>SecretKey::generate\<close> returned.\<close>

definition create_at ::
  "('fs, 'h) id_os \<Rightarrow> 'sk key_lib \<Rightarrow> 'sk \<Rightarrow> 'fs \<Rightarrow> string
     \<Rightarrow> ('sk identity, identity_error) result \<times> 'fs" where
  "create_at os keys secret fs path =
     io_then (case path_parent path of
                Some parent \<Rightarrow> fs_create_dir_all os fs parent
              | None \<Rightarrow> (Ok (), fs)) (\<lambda>_ fs.
       case write_key os fs path (key_to_bytes keys secret) of
         (Err e, fs) \<Rightarrow> (Err e, fs)
       | (Ok _, fs) \<Rightarrow>
           io_then (fs_mode os fs path, fs) (\<lambda>m fs.
             let mode = permission_bits m in
             if mode \<noteq> REQUIRED_MODE then (Err (IdentityError_InsecurePermissions mode), fs)
             else (Ok (identity_of keys secret), fs)))"

definition load_or_create_at ::
  "('fs, 'h) id_os \<Rightarrow> 'sk key_lib \<Rightarrow> 'sk \<Rightarrow> 'fs \<Rightarrow> string
     \<Rightarrow> ('sk identity, identity_error) result \<times> 'fs" where
  "load_or_create_at os keys secret fs path =
     (if fs_exists os fs path then (load_at os keys fs path, fs)
      else create_at os keys secret fs path)"

definition load_or_create ::
  "(string \<Rightarrow> string option) \<Rightarrow> (string \<Rightarrow> string option) \<Rightarrow> ('fs, 'h) id_os \<Rightarrow> 'sk key_lib \<Rightarrow> 'sk \<Rightarrow> 'fs
     \<Rightarrow> ('sk identity, identity_error) result \<times> 'fs" where
  "load_or_create var var_os os keys secret fs =
     (case identity_path var var_os of
        Err e \<Rightarrow> (Err e, fs)
      | Ok path \<Rightarrow> load_or_create_at os keys secret fs path)"

section \<open>The file system\<close>

text \<open>
  What the operating system documents, over a view of the file system as modes and contents
  (\<open>files\<close>) and of a handle as what is left to read (\<open>rest\<close>): a read may be short but not empty
  before the end, \<open>create_new\<close> succeeds only on a fresh path, a write appends, and nothing but a
  write to a path or a change of its mode changes it, also when that fails half-way. Which mode a created
  or changed file really has is left open.
\<close>

definition fs_sound ::
  "('fs, 'h) id_os \<Rightarrow> ('fs \<Rightarrow> string \<rightharpoonup> u32 \<times> bytes) \<Rightarrow> ('h \<Rightarrow> bytes) \<Rightarrow> bool" where
  "fs_sound os files rest \<longleftrightarrow>
     (\<forall>fs p. fs_exists os fs p \<longrightarrow> files fs p \<noteq> None) \<and>
     (\<forall>fs p m. fs_mode os fs p = Ok m \<longrightarrow> (\<exists>c. files fs p = Some (m, c))) \<and>
     (\<forall>fs p h. fs_open os fs p = Ok h \<longrightarrow> (\<exists>m. files fs p = Some (m, rest h))) \<and>
     (\<forall>h n bs h'. fs_read os h n = (Ok bs, h') \<longrightarrow>
        rest h = bs @ rest h' \<and> length bs \<le> n \<and> (bs = [] \<longrightarrow> n = 0 \<or> rest h = [])) \<and>
     (\<forall>fs p r fs'. fs_create_dir_all os fs p = (r, fs') \<longrightarrow> files fs' = files fs) \<and>
     (\<forall>fs p mo u fs'. fs_create_new os fs p mo = (Ok u, fs') \<longrightarrow>
        files fs p = None \<and> (\<exists>m. files fs' = (files fs)(p \<mapsto> (m, [])))) \<and>
     (\<forall>fs p mo e fs'. fs_create_new os fs p mo = (Err e, fs') \<longrightarrow> files fs' = files fs) \<and>
     (\<forall>fs p b u fs'. fs_write_all os fs p b = (Ok u, fs') \<longrightarrow>
        (\<exists>m c. files fs p = Some (m, c) \<and> files fs' = (files fs)(p \<mapsto> (m, c @ b)))) \<and>
     (\<forall>fs p r fs'. fs_sync_all os fs p = (r, fs') \<longrightarrow> files fs' = files fs) \<and>
     (\<forall>fs p w u fs'. fs_set_mode os fs p w = (Ok u, fs') \<longrightarrow>
        (\<exists>m m' c. files fs p = Some (m, c) \<and> files fs' = (files fs)(p \<mapsto> (m', c)))) \<and>
     (\<forall>fs p b e fs' q. fs_write_all os fs p b = (Err e, fs') \<and> q \<noteq> p \<longrightarrow> files fs' q = files fs q) \<and>
     (\<forall>fs p w e fs' q. fs_set_mode os fs p w = (Err e, fs') \<and> q \<noteq> p \<longrightarrow> files fs' q = files fs q)"

lemma io_then_Ok_iff:
  "io_then r f = (Ok y, fs') \<longleftrightarrow> (\<exists>x fs. r = (Ok x, fs) \<and> f x fs = (Ok y, fs'))"
  by (cases r; cases "fst r") (auto simp: io_then_def)

lemma fs_soundD:
  assumes "fs_sound os files rest"
  shows "fs_exists os fs p \<Longrightarrow> files fs p \<noteq> None"
    and "fs_mode os fs p = Ok m \<Longrightarrow> \<exists>c. files fs p = Some (m, c)"
    and "fs_open os fs p = Ok h \<Longrightarrow> \<exists>m. files fs p = Some (m, rest h)"
    and "fs_read os h n = (Ok bs, h') \<Longrightarrow>
      rest h = bs @ rest h' \<and> length bs \<le> n \<and> (bs = [] \<longrightarrow> n = 0 \<or> rest h = [])"
    and "fs_create_dir_all os fs p = (r, fs') \<Longrightarrow> files fs' = files fs"
    and "fs_create_new os fs p mo = (Ok u, fs') \<Longrightarrow>
      files fs p = None \<and> (\<exists>m. files fs' = (files fs)(p \<mapsto> (m, [])))"
    and "fs_create_new os fs p mo = (Err e, fs') \<Longrightarrow> files fs' = files fs"
    and "fs_write_all os fs p b = (Ok u, fs') \<Longrightarrow>
      \<exists>m c. files fs p = Some (m, c) \<and> files fs' = (files fs)(p \<mapsto> (m, c @ b))"
    and "fs_sync_all os fs p = (r, fs') \<Longrightarrow> files fs' = files fs"
    and "fs_set_mode os fs p w = (Ok u, fs') \<Longrightarrow>
      \<exists>m m' c. files fs p = Some (m, c) \<and> files fs' = (files fs)(p \<mapsto> (m', c))"
    and "fs_write_all os fs p b = (Err e, fs') \<Longrightarrow> q \<noteq> p \<Longrightarrow> files fs' q = files fs q"
    and "fs_set_mode os fs p w = (Err e, fs') \<Longrightarrow> q \<noteq> p \<Longrightarrow> files fs' q = files fs q"
proof -
  note law = assms [unfolded fs_sound_def]
  show "fs_exists os fs p \<Longrightarrow> files fs p \<noteq> None"
    using law [THEN conjunct1] by blast
  show "fs_mode os fs p = Ok m \<Longrightarrow> \<exists>c. files fs p = Some (m, c)"
    using law [THEN conjunct2, THEN conjunct1] by blast
  show "fs_open os fs p = Ok h \<Longrightarrow> \<exists>m. files fs p = Some (m, rest h)"
    using law [THEN conjunct2, THEN conjunct2, THEN conjunct1] by blast
  show "fs_read os h n = (Ok bs, h') \<Longrightarrow>
      rest h = bs @ rest h' \<and> length bs \<le> n \<and> (bs = [] \<longrightarrow> n = 0 \<or> rest h = [])"
    using law [THEN conjunct2, THEN conjunct2, THEN conjunct2, THEN conjunct1] by blast
  show "fs_create_dir_all os fs p = (r, fs') \<Longrightarrow> files fs' = files fs"
    using law [THEN conjunct2, THEN conjunct2, THEN conjunct2, THEN conjunct2, THEN conjunct1] by blast
  show "fs_create_new os fs p mo = (Ok u, fs') \<Longrightarrow>
      files fs p = None \<and> (\<exists>m. files fs' = (files fs)(p \<mapsto> (m, [])))"
    using law [THEN conjunct2, THEN conjunct2, THEN conjunct2,
      THEN conjunct2, THEN conjunct2, THEN conjunct1] by blast
  show "fs_create_new os fs p mo = (Err e, fs') \<Longrightarrow> files fs' = files fs"
    using law [THEN conjunct2, THEN conjunct2, THEN conjunct2,
      THEN conjunct2, THEN conjunct2, THEN conjunct2, THEN conjunct1] by blast
  show "fs_write_all os fs p b = (Ok u, fs') \<Longrightarrow>
      \<exists>m c. files fs p = Some (m, c) \<and> files fs' = (files fs)(p \<mapsto> (m, c @ b))"
    using law [THEN conjunct2, THEN conjunct2, THEN conjunct2, THEN conjunct2,
      THEN conjunct2, THEN conjunct2, THEN conjunct2, THEN conjunct1] by blast
  show "fs_sync_all os fs p = (r, fs') \<Longrightarrow> files fs' = files fs"
    using law [THEN conjunct2, THEN conjunct2, THEN conjunct2, THEN conjunct2,
      THEN conjunct2, THEN conjunct2, THEN conjunct2, THEN conjunct2, THEN conjunct1] by blast
  show "fs_set_mode os fs p w = (Ok u, fs') \<Longrightarrow>
      \<exists>m m' c. files fs p = Some (m, c) \<and> files fs' = (files fs)(p \<mapsto> (m', c))"
    using law [THEN conjunct2, THEN conjunct2, THEN conjunct2, THEN conjunct2, THEN conjunct2,
      THEN conjunct2, THEN conjunct2, THEN conjunct2, THEN conjunct2, THEN conjunct1] by blast
  show "fs_write_all os fs p b = (Err e, fs') \<Longrightarrow> q \<noteq> p \<Longrightarrow> files fs' q = files fs q"
    using law [THEN conjunct2, THEN conjunct2, THEN conjunct2, THEN conjunct2, THEN conjunct2,
      THEN conjunct2, THEN conjunct2, THEN conjunct2, THEN conjunct2, THEN conjunct2, THEN conjunct1] by blast
  show "fs_set_mode os fs p w = (Err e, fs') \<Longrightarrow> q \<noteq> p \<Longrightarrow> files fs' q = files fs q"
    using law [THEN conjunct2, THEN conjunct2, THEN conjunct2, THEN conjunct2, THEN conjunct2,
      THEN conjunct2, THEN conjunct2, THEN conjunct2, THEN conjunct2, THEN conjunct2, THEN conjunct2] by blast
qed

lemma load_at_Ok:
  assumes sound: "fs_sound os files rest" and load: "load_at os keys fs path = Ok i"
  shows "\<exists>m c. files fs path = Some (m, c) \<and> permission_bits m = REQUIRED_MODE \<and> length c = 32 \<and>
    i = identity_of keys (key_from_bytes keys c)"
proof -
  from load obtain m h buf h' h'' where m: "fs_mode os fs path = Ok m"
    and mode: "permission_bits m = REQUIRED_MODE" and h: "fs_open os fs path = Ok h"
    and buf: "fs_read os h 32 = (Ok buf, h')" "length buf = 32"
    and extra: "fs_read os h' 1 = (Ok [], h'')"
    and i: "i = identity_of keys (key_from_bytes keys buf)"
    by (auto simp: load_at_def Let_def split: sum.splits prod.splits if_splits)
  have f: "files fs path = Some (m, rest h)"
    using fs_soundD(2) [OF sound m] fs_soundD(3) [OF sound h] by auto
  have "rest h = buf"
    using fs_soundD(4) [OF sound buf(1)] fs_soundD(4) [OF sound extra] by auto
  with f mode buf(2) i show ?thesis by simp
qed

lemma write_key_Ok:
  assumes sound: "fs_sound os files rest" and w: "write_key os fs path key = (Ok u, fs')"
  shows "\<exists>m. files fs path = None \<and> files fs' = (files fs)(path \<mapsto> (m, key))"
proof -
  note law = fs_soundD [OF sound]
  consider (first) u fs1 fs2 where
      "fs_create_new os fs path (Some REQUIRED_MODE) = (Ok u, fs1)"
      "fs_write_all os fs1 path key = (Ok (), fs2)" "fs_sync_all os fs2 path = (Ok (), fs')"
    | (fallback) e fs0 fs1 fs2 fs3 where
      "fs_create_new os fs path (Some REQUIRED_MODE) = (Err e, fs0)"
      "fs_create_new os fs0 path None = (Ok (), fs1)" "fs_write_all os fs1 path key = (Ok (), fs2)"
      "fs_sync_all os fs2 path = (Ok (), fs3)" "fs_set_mode os fs3 path REQUIRED_MODE = (Ok (), fs')"
    using w
    by (auto simp: write_key_def io_then_Ok_iff split: prod.splits sum.splits if_splits)
  then show ?thesis
  proof cases
    case first
    from law(6) [OF first(1)] law(8) [OF first(2)] law(9) [OF first(3)] show ?thesis by auto
  next
    case fallback
    from law(7) [OF fallback(1)] law(6) [OF fallback(2)] law(8) [OF fallback(3)]
      law(9) [OF fallback(4)] law(10) [OF fallback(5)]
    show ?thesis by auto
  qed
qed

lemma create_at_Ok:
  assumes sound: "fs_sound os files rest" and c: "create_at os keys secret fs path = (Ok i, fs')"
  shows "i = identity_of keys secret \<and> files fs path = None \<and>
    (\<exists>m. permission_bits m = REQUIRED_MODE \<and>
      files fs' = (files fs)(path \<mapsto> (m, key_to_bytes keys secret)))"
proof -
  let ?mk = "case path_parent path of Some parent \<Rightarrow> fs_create_dir_all os fs parent | None \<Rightarrow> (Ok (), fs)"
  from c obtain u fs1 where dir: "?mk = (Ok u, fs1)"
    and r: "(case write_key os fs1 path (key_to_bytes keys secret) of
         (Err e, fs) \<Rightarrow> (Err e, fs)
       | (Ok _, fs) \<Rightarrow>
           io_then (fs_mode os fs path, fs) (\<lambda>m fs.
             let mode = permission_bits m in
             if mode \<noteq> REQUIRED_MODE then (Err (IdentityError_InsecurePermissions mode), fs)
             else (Ok (identity_of keys secret), fs))) = (Ok i, fs')"
    by (auto simp: create_at_def io_then_Ok_iff)
  obtain w fs2 where w: "write_key os fs1 path (key_to_bytes keys secret) = (w, fs2)"
    by (cases "write_key os fs1 path (key_to_bytes keys secret)")
  with r obtain v m where "w = Ok v" "fs2 = fs'" and m: "fs_mode os fs' path = Ok m"
    "permission_bits m = REQUIRED_MODE" and i: "i = identity_of keys secret"
    by (auto simp: io_then_Ok_iff Let_def split: sum.splits if_splits)
  with w have w: "write_key os fs1 path (key_to_bytes keys secret) = (Ok v, fs')" by simp
  have same: "files fs1 = files fs"
    using dir fs_soundD(5) [OF sound] by (cases "path_parent path") auto
  from write_key_Ok [OF sound w] fs_soundD(2) [OF sound m(1)] same m(2) i show ?thesis by auto
qed

text \<open>Whatever becomes of a start, no other path changes, and a path that is taken stays as it was.\<close>

definition others_kept :: "('fs \<Rightarrow> string \<rightharpoonup> u32 \<times> bytes) \<Rightarrow> string \<Rightarrow> 'fs \<Rightarrow> 'fs \<Rightarrow> bool" where
  "others_kept files p fs fs' \<longleftrightarrow> (\<forall>q. q \<noteq> p \<longrightarrow> files fs' q = files fs q)"

lemma io_then_others:
  assumes "others_kept files p fs (snd r)"
    and "\<And>x fs1. others_kept files p fs fs1 \<Longrightarrow> others_kept files p fs (snd (f x fs1))"
  shows "others_kept files p fs (snd (io_then r f))"
  using assms by (cases r; cases "fst r") (auto simp: io_then_def)

lemma op_others:
  assumes "fs_sound os files rest" and "others_kept files p fs fs1"
  shows "others_kept files p fs (snd (fs_create_new os fs1 p mo))"
    and "others_kept files p fs (snd (fs_write_all os fs1 p b))"
    and "others_kept files p fs (snd (fs_sync_all os fs1 p))"
    and "others_kept files p fs (snd (fs_set_mode os fs1 p w))"
    and "others_kept files p fs (snd (fs_create_dir_all os fs1 q))"
proof -
  note law = fs_soundD [OF assms(1)]
  note prev = assms(2) [unfolded others_kept_def]
  show "others_kept files p fs (snd (fs_create_new os fs1 p mo))"
    using prev law(6,7) [of fs1 p mo]
    by (cases "fs_create_new os fs1 p mo"; cases "fst (fs_create_new os fs1 p mo)")
      (fastforce simp: others_kept_def)+
  show "others_kept files p fs (snd (fs_write_all os fs1 p b))"
    using prev law(8,11) [of fs1 p b]
    by (cases "fs_write_all os fs1 p b"; cases "fst (fs_write_all os fs1 p b)")
      (fastforce simp: others_kept_def)+
  show "others_kept files p fs (snd (fs_sync_all os fs1 p))"
    using prev law(9) [of fs1 p] by (cases "fs_sync_all os fs1 p") (simp add: others_kept_def)
  show "others_kept files p fs (snd (fs_set_mode os fs1 p w))"
    using prev law(10,12) [of fs1 p w]
    by (cases "fs_set_mode os fs1 p w"; cases "fst (fs_set_mode os fs1 p w)")
      (fastforce simp: others_kept_def)+
  show "others_kept files p fs (snd (fs_create_dir_all os fs1 q))"
    using prev law(5) [of fs1 q] by (cases "fs_create_dir_all os fs1 q") (simp add: others_kept_def)
qed

lemma write_key_others:
  assumes sound: "fs_sound os files rest" and fs: "others_kept files p fs0 fs"
  shows "others_kept files p fs0 (snd (write_key os fs p key))"
proof -
  obtain r fs1 where c: "fs_create_new os fs p (Some REQUIRED_MODE) = (r, fs1)" by fastforce
  then have fs1: "others_kept files p fs0 fs1" using op_others(1) [OF sound fs] by (metis snd_conv)
  note op = op_others [OF sound]
  have "others_kept files p fs0 (snd (io_then (fs_write_all os fs1 p key) (\<lambda>_ fs.
      io_then (fs_sync_all os fs p) (\<lambda>_ fs. (Ok (), fs)))))"
    by (intro io_then_others op fs1; (rule op)?; simp)
  moreover have "others_kept files p fs0 (snd (io_then (fs_create_new os fs1 p None) (\<lambda>_ fs.
      io_then (fs_write_all os fs p key) (\<lambda>_ fs.
      io_then (fs_sync_all os fs p) (\<lambda>_ fs.
      io_then (fs_mode os fs p, fs) (\<lambda>perms fs.
      io_then (fs_set_mode os fs p REQUIRED_MODE) (\<lambda>_ fs. (Ok (), fs))))))))"
    by (intro io_then_others op fs1; (rule op)?; simp)
  ultimately show ?thesis
    using c fs1 by (simp add: write_key_def split: sum.split)
qed

lemma create_at_others:
  assumes sound: "fs_sound os files rest"
  shows "others_kept files p fs (snd (create_at os keys secret fs p))"
proof -
  have refl: "others_kept files p fs fs" by (simp add: others_kept_def)
  let ?mk = "case path_parent p of Some parent \<Rightarrow> fs_create_dir_all os fs parent | None \<Rightarrow> (Ok (), fs)"
  have "others_kept files p fs (snd ?mk)"
    using op_others(5) [OF sound refl] refl by (simp split: option.split)
  then show ?thesis
    unfolding create_at_def
  proof (rule io_then_others)
    fix x fs1
    assume fs1: "others_kept files p fs fs1"
    obtain r fs2 where w: "write_key os fs1 p (key_to_bytes keys secret) = (r, fs2)" by fastforce
    with write_key_others [OF sound fs1] have fs2: "others_kept files p fs fs2" by (metis snd_conv)
    have "others_kept files p fs (snd (io_then (fs_mode os fs2 p, fs2) (\<lambda>m fs.
        let mode = permission_bits m in
        if mode \<noteq> REQUIRED_MODE then (Err (IdentityError_InsecurePermissions mode), fs)
        else (Ok (identity_of keys secret), fs))))"
      by (rule io_then_others) (simp_all add: fs2 Let_def)
    with w fs2 show "others_kept files p fs (snd (case write_key os fs1 p (key_to_bytes keys secret) of
         (Err e, fs) \<Rightarrow> (Err e, fs)
       | (Ok _, fs) \<Rightarrow>
           io_then (fs_mode os fs p, fs) (\<lambda>m fs.
             let mode = permission_bits m in
             if mode \<noteq> REQUIRED_MODE then (Err (IdentityError_InsecurePermissions mode), fs)
             else (Ok (identity_of keys secret), fs))))"
      by (simp split: sum.split)
  qed
qed

lemma write_key_taken:
  assumes "fs_sound os files rest" and "files fs p \<noteq> None"
  shows "\<exists>e fs'. write_key os fs p key = (Err (IdentityError_Io e), fs') \<and> files fs' = files fs"
proof -
  note law = fs_soundD [OF assms(1)]
  have taken: "\<exists>e fs'. fs_create_new os fs1 p mo = (Err e, fs') \<and> files fs' = files fs"
    if "files fs1 = files fs" for fs1 mo
    using law(6,7) [of fs1 p mo] that assms(2)
    by (cases "fs_create_new os fs1 p mo"; cases "fst (fs_create_new os fs1 p mo)") auto
  from taken [OF refl, of "Some REQUIRED_MODE"] obtain e fs1
    where first: "fs_create_new os fs p (Some REQUIRED_MODE) = (Err e, fs1)" "files fs1 = files fs" by blast
  from taken [OF this(2), of None] obtain e' fs2
    where "fs_create_new os fs1 p None = (Err e', fs2)" "files fs2 = files fs" by blast
  with first show ?thesis by (simp add: write_key_def io_then_def)
qed

lemma create_at_taken:
  assumes "fs_sound os files rest" and "files fs p \<noteq> None"
  shows "\<exists>e fs'. create_at os keys secret fs p = (Err (IdentityError_Io e), fs') \<and> files fs' = files fs"
proof -
  let ?mk = "case path_parent p of Some parent \<Rightarrow> fs_create_dir_all os fs parent | None \<Rightarrow> (Ok (), fs)"
  obtain r fs1 where mk: "?mk = (r, fs1)" by fastforce
  then have same: "files fs1 = files fs"
    using fs_soundD(5) [OF assms(1)] by (cases "path_parent p") auto
  with assms write_key_taken [of os files rest fs1 p "key_to_bytes keys secret"] obtain e fs2
    where "write_key os fs1 p (key_to_bytes keys secret) = (Err (IdentityError_Io e), fs2)" "files fs2 = files fs"
    by auto
  with mk same show ?thesis by (cases r) (simp_all add: create_at_def io_then_def)
qed

text \<open>A start on a file that is there: what it loads, and what it reports when it does not.\<close>

lemma load_or_create_taken:
  assumes "fs_sound os files rest" and "files fs p \<noteq> None"
    and "load_or_create_at os keys secret fs p = (r, fs')"
  shows "files fs' = files fs"
    and "r = Ok i \<Longrightarrow> fs' = fs \<and> load_at os keys fs p = Ok i"
    and "r = load_at os keys fs p \<or> (\<exists>e. r = Err (IdentityError_Io e))"
  using assms create_at_taken [OF assms(1,2), of keys secret]
  by (auto simp: load_or_create_at_def split: if_splits)

text \<open>Loading a good key file: its identity, an error of the system, or a short read.\<close>

lemma load_at_good:
  assumes sound: "fs_sound os files rest" and there: "files fs p = Some (m, c)"
    and mode: "permission_bits m = REQUIRED_MODE" and len: "length c = 32"
  shows "load_at os keys fs p = Ok (identity_of keys (key_from_bytes keys c)) \<or>
      (\<exists>e. load_at os keys fs p = Err (IdentityError_Io e)) \<or>
      load_at os keys fs p = Err IdentityError_BadKeyLength \<and>
        (\<exists>h buf h'. fs_open os fs p = Ok h \<and> fs_read os h 32 = (Ok buf, h') \<and> length buf < 32)"
    and "fs_mode os fs p = Ok m' \<Longrightarrow> fs_open os fs p = Ok h \<Longrightarrow> fs_read os h 32 = (Ok buf, h') \<Longrightarrow>
      length buf = 32 \<Longrightarrow> fs_read os h' 1 = (Ok extra, h'') \<Longrightarrow>
      load_at os keys fs p = Ok (identity_of keys (key_from_bytes keys c))"
proof -
  note law = fs_soundD [OF sound]
  have m': "m' = m" if "fs_mode os fs p = Ok m'" for m' using law(2) [OF that] there by simp
  have full: "buf = c \<and> (\<forall>extra h''. fs_read os h' 1 = (Ok extra, h'') \<longrightarrow> extra = [])"
    if "fs_open os fs p = Ok h" "fs_read os h 32 = (Ok buf, h')" "length buf = 32" for h buf h'
  proof -
    have "rest h = c" using law(3) [OF that(1)] there by simp
    with law(4) [OF that(2)] that(3) len have "buf = c" "rest h' = []" by auto
    then show ?thesis using law(4) [of h' 1] by auto
  qed
  have short: "length buf < 32" if "fs_read os h 32 = (Ok buf, h')" "length buf \<noteq> 32" for h buf h'
    using law(4) [OF that(1)] that(2) by simp
  show "load_at os keys fs p = Ok (identity_of keys (key_from_bytes keys c)) \<or>
      (\<exists>e. load_at os keys fs p = Err (IdentityError_Io e)) \<or>
      load_at os keys fs p = Err IdentityError_BadKeyLength \<and>
        (\<exists>h buf h'. fs_open os fs p = Ok h \<and> fs_read os h 32 = (Ok buf, h') \<and> length buf < 32)"
  proof (cases "fs_mode os fs p"; cases "fs_open os fs p")
    fix m0 h
    assume m0: "fs_mode os fs p = Ok m0" and h: "fs_open os fs p = Ok h"
    with m' mode have bits: "permission_bits m0 = REQUIRED_MODE" by simp
    obtain rd h' where rd: "fs_read os h 32 = (rd, h')" by fastforce
    show ?thesis
    proof (cases "\<exists>buf. rd = Ok buf \<and> length buf = 32")
      case True
      then obtain buf where buf: "fs_read os h 32 = (Ok buf, h')" "length buf = 32" using rd by blast
      obtain ex h'' where ex: "fs_read os h' 1 = (ex, h'')" by fastforce
      show ?thesis
        using full [OF h buf] m0 h bits buf ex by (cases ex) (simp_all add: load_at_def)
    next
      case False
      then show ?thesis
        using short [of h _ h'] m0 h bits rd by (cases rd) (auto simp: load_at_def)
    qed
  qed (use mode m' in \<open>auto simp: load_at_def\<close>)
  show "load_at os keys fs p = Ok (identity_of keys (key_from_bytes keys c))"
    if "fs_mode os fs p = Ok m'" "fs_open os fs p = Ok h" "fs_read os h 32 = (Ok buf, h')"
      "length buf = 32" "fs_read os h' 1 = (Ok extra, h'')"
    using mode m' [OF that(1)] full [OF that(2-4)] that by (simp add: load_at_def Let_def)
qed

section \<open>One identity per home\<close>

text \<open>
  C28: A node keeps its identity, and starts only with a private key file. Whatever
  \<open>load_or_create_at\<close> returns, no other file changed and a file that was there is as it was. When it succeeds,
  the key file exists with permission bits exactly \<open>0600\<close> and 32 bytes, and the identity is the one of those
  bytes. Every later start on that file, whatever new key it could have generated, leaves all files as
  they are and yields the same identity or an error, which is one of the system's or, after a read that
  was cut short, \<open>BadKeyLength\<close>; and it does yield the same identity when the system answers the
  queries, opens the file and reads its 32 bytes at once.
\<close>

theorem identity_survives_restart:
  assumes "fs_sound os files rest"
    and "key_from_bytes keys (key_to_bytes keys secret) = secret"
    and "length (key_to_bytes keys secret) = 32"
    and "load_or_create_at os keys secret fs path = (r, fs')"
  shows "(\<forall>q. q \<noteq> path \<or> files fs q \<noteq> None \<longrightarrow> files fs' q = files fs q) \<and>
    (\<forall>i. r = Ok i \<longrightarrow>
      (\<exists>m c. files fs' path = Some (m, c) \<and> permission_bits m = REQUIRED_MODE \<and> length c = 32 \<and>
         identity_secret i = key_from_bytes keys c \<and>
         identity_node_id i = public_key_to_node_id (key_public keys (key_from_bytes keys c))) \<and>
      (\<forall>secret2 fs2 r2 fs3. files fs2 path = files fs' path \<and>
         load_or_create_at os keys secret2 fs2 path = (r2, fs3) \<longrightarrow>
           files fs3 = files fs2 \<and>
           (r2 = Ok i \<and> fs3 = fs2 \<or> (\<exists>e. r2 = Err (IdentityError_Io e)) \<or>
            r2 = Err IdentityError_BadKeyLength \<and>
              (\<exists>h buf h'. fs_open os fs2 path = Ok h \<and> fs_read os h 32 = (Ok buf, h') \<and> length buf < 32))) \<and>
      (\<forall>secret2 fs2 m h buf h' extra h''. files fs2 path = files fs' path \<and>
         fs_exists os fs2 path \<and> fs_mode os fs2 path = Ok m \<and> fs_open os fs2 path = Ok h \<and>
         fs_read os h 32 = (Ok buf, h') \<and> length buf = 32 \<and> fs_read os h' 1 = (Ok extra, h'') \<longrightarrow>
           load_or_create_at os keys secret2 fs2 path = (Ok i, fs2)))"
proof (intro conjI [of "\<forall>q. _ q"] allI [where P = "\<lambda>i. r = Ok i \<longrightarrow> _ i"] impI [of "r = Ok _"])
  show "\<forall>q. q \<noteq> path \<or> files fs q \<noteq> None \<longrightarrow> files fs' q = files fs q"
  proof (cases "files fs path = None")
    case True
    then have "others_kept files path fs fs'"
      using assms(4) create_at_others [OF assms(1), of path fs keys secret]
      by (auto simp: load_or_create_at_def others_kept_def split: if_splits)
    with True show ?thesis by (auto simp: others_kept_def)
  next
    case False
    from load_or_create_taken(1) [OF assms(1) False assms(4)] show ?thesis by simp
  qed
next
  fix i
  assume r: "r = Ok i"
  have "\<exists>m c. files fs' path = Some (m, c) \<and> permission_bits m = REQUIRED_MODE \<and> length c = 32 \<and>
      i = identity_of keys (key_from_bytes keys c)"
  proof (cases "fs_exists os fs path")
    case True
    with assms(4) r have "load_at os keys fs path = Ok i" "fs' = fs"
      by (auto simp: load_or_create_at_def)
    with load_at_Ok [OF assms(1) this(1)] show ?thesis by simp
  next
    case False
    with assms(4) r have "create_at os keys secret fs path = (Ok i, fs')"
      by (simp add: load_or_create_at_def)
    from create_at_Ok [OF assms(1) this] assms(2,3) show ?thesis by auto
  qed
  then obtain m c where f: "files fs' path = Some (m, c)" "permission_bits m = REQUIRED_MODE" "length c = 32"
    and i: "i = identity_of keys (key_from_bytes keys c)" by blast
  have "files fs3 = files fs2 \<and>
      (r2 = Ok i \<and> fs3 = fs2 \<or> (\<exists>e. r2 = Err (IdentityError_Io e)) \<or>
       r2 = Err IdentityError_BadKeyLength \<and>
         (\<exists>h buf h'. fs_open os fs2 path = Ok h \<and> fs_read os h 32 = (Ok buf, h') \<and> length buf < 32))"
    if "files fs2 path = files fs' path" "load_or_create_at os keys secret2 fs2 path = (r2, fs3)"
    for secret2 fs2 r2 fs3
  proof -
    have there: "files fs2 path = Some (m, c)" using that(1) f(1) by simp
    then have taken: "files fs2 path \<noteq> None" by simp
    note start = load_or_create_taken [OF assms(1) taken that(2)]
    from start(3) load_at_good(1) [OF assms(1) there f(2,3), of keys] i start(1,2)
    show ?thesis by auto
  qed
  moreover have "load_or_create_at os keys secret2 fs2 path = (Ok i, fs2)"
    if "files fs2 path = files fs' path" "fs_exists os fs2 path" "fs_mode os fs2 path = Ok m'"
      "fs_open os fs2 path = Ok h" "fs_read os h 32 = (Ok buf, h')" "length buf = 32"
      "fs_read os h' 1 = (Ok extra, h'')" for secret2 fs2 m' h buf h' extra h''
    using load_at_good(2) [OF assms(1) that(1) [unfolded f(1)] f(2,3) that(3-7), of keys] that(2) i
    by (simp add: load_or_create_at_def)
  moreover have "\<exists>m c. files fs' path = Some (m, c) \<and> permission_bits m = REQUIRED_MODE \<and> length c = 32 \<and>
      identity_secret i = key_from_bytes keys c \<and>
      identity_node_id i = public_key_to_node_id (key_public keys (key_from_bytes keys c))"
    using f i by (auto simp: identity_of_def)
  ultimately show "(\<exists>m c. files fs' path = Some (m, c) \<and> permission_bits m = REQUIRED_MODE \<and> length c = 32 \<and>
         identity_secret i = key_from_bytes keys c \<and>
         identity_node_id i = public_key_to_node_id (key_public keys (key_from_bytes keys c))) \<and>
      (\<forall>secret2 fs2 r2 fs3. files fs2 path = files fs' path \<and>
         load_or_create_at os keys secret2 fs2 path = (r2, fs3) \<longrightarrow>
           files fs3 = files fs2 \<and>
           (r2 = Ok i \<and> fs3 = fs2 \<or> (\<exists>e. r2 = Err (IdentityError_Io e)) \<or>
            r2 = Err IdentityError_BadKeyLength \<and>
              (\<exists>h buf h'. fs_open os fs2 path = Ok h \<and> fs_read os h 32 = (Ok buf, h') \<and> length buf < 32))) \<and>
      (\<forall>secret2 fs2 m h buf h' extra h''. files fs2 path = files fs' path \<and>
         fs_exists os fs2 path \<and> fs_mode os fs2 path = Ok m \<and> fs_open os fs2 path = Ok h \<and>
         fs_read os h 32 = (Ok buf, h') \<and> length buf = 32 \<and> fs_read os h' 1 = (Ok extra, h'') \<longrightarrow>
           load_or_create_at os keys secret2 fs2 path = (Ok i, fs2))"
    by blast
qed

text \<open>A file system that is its own map, for the witness.\<close>

definition map_id_os :: "(string \<rightharpoonup> u32 \<times> bytes, bytes) id_os" where
  "map_id_os =
     \<lparr>fs_exists = (\<lambda>fs p. fs p \<noteq> None),
      fs_mode = (\<lambda>fs p. case fs p of Some (m, c) \<Rightarrow> Ok m | None \<Rightarrow> Err (IoError Kind_NotFound [])),
      fs_open = (\<lambda>fs p. case fs p of Some (m, c) \<Rightarrow> Ok c | None \<Rightarrow> Err (IoError Kind_NotFound [])),
      fs_read = (\<lambda>h n. (Ok (take n h), drop n h)),
      fs_create_dir_all = (\<lambda>fs p. (Ok (), fs)),
      fs_create_new = (\<lambda>fs p mo. case fs p of
         Some _ \<Rightarrow> (Err (IoError Kind_AlreadyExists []), fs)
       | None \<Rightarrow> (Ok (), fs(p \<mapsto> (case mo of Some m \<Rightarrow> m | None \<Rightarrow> 420, [])))),
      fs_write_all = (\<lambda>fs p b. case fs p of
         Some (m, c) \<Rightarrow> (Ok (), fs(p \<mapsto> (m, c @ b))) | None \<Rightarrow> (Err (IoError Kind_NotFound []), fs)),
      fs_sync_all = (\<lambda>fs p. (Ok (), fs)),
      fs_set_mode = (\<lambda>fs p w. case fs p of
         Some (m, c) \<Rightarrow> (Ok (), fs(p \<mapsto> (w, c))) | None \<Rightarrow> (Err (IoError Kind_NotFound []), fs))\<rparr>"

lemma map_id_os_sound: "fs_sound map_id_os (\<lambda>fs. fs) (\<lambda>h. h)"
  by (auto simp: fs_sound_def map_id_os_def split: option.splits)

definition sample_keys :: "bytes key_lib" where
  "sample_keys = \<lparr>key_from_bytes = (\<lambda>b. b), key_to_bytes = (\<lambda>b. b), key_public = rev,
     public_from_bytes = (\<lambda>b. if length b = 32 then Some b else None)\<rparr>"

lemma bits_384: "permission_bits 384 = REQUIRED_MODE"
  by (simp add: permission_bits_def REQUIRED_MODE_def)

lemma map_load:
  "fs p = Some (384, k) \<Longrightarrow> length k = 32 \<Longrightarrow>
     load_at map_id_os keys fs p = Ok (identity_of keys (key_from_bytes keys k))"
  by (simp add: load_at_def map_id_os_def bits_384 Let_def)

lemma map_create:
  "fs p = None \<Longrightarrow>
     create_at map_id_os keys sk fs p = (Ok (identity_of keys sk), fs(p \<mapsto> (384, key_to_bytes keys sk)))"
  by (cases "path_parent p")
    (simp_all add: create_at_def io_then_def write_key_def map_id_os_def identity_of_def bits_384
      REQUIRED_MODE_def permission_bits_def)

lemma map_exists: "fs_exists map_id_os fs p \<longleftrightarrow> fs p \<noteq> None"
  by (simp add: map_id_os_def)

definition sample_key :: bytes where "sample_key = map word_of_nat [0..<32]"

theorem identity_survives_restart_witness:
  "\<exists>i fs. load_or_create_at map_id_os sample_keys sample_key Map.empty ''k'' = (Ok i, fs) \<and>
     load_or_create_at map_id_os sample_keys (rev sample_key) fs ''k'' = (Ok i, fs)"
proof -
  let ?k = "sample_key" and ?k2 = "rev sample_key"
  have k: "length ?k = 32" by (simp add: sample_key_def)
  let ?fs = "[''k'' \<mapsto> (384, ?k)] :: string \<rightharpoonup> u32 \<times> bytes"
  have to_bytes: "key_to_bytes sample_keys = (\<lambda>b. b)" and from_bytes: "key_from_bytes sample_keys = (\<lambda>b. b)"
    by (simp_all add: sample_keys_def)
  have first: "load_or_create_at map_id_os sample_keys ?k Map.empty ''k'' = (Ok (identity_of sample_keys ?k), ?fs)"
    by (simp add: load_or_create_at_def map_create map_exists to_bytes)
  have "key_from_bytes sample_keys (key_to_bytes sample_keys ?k) = ?k" "length (key_to_bytes sample_keys ?k) = 32"
    using k by (simp_all add: to_bytes from_bytes)
  note again = identity_survives_restart [OF map_id_os_sound this first, THEN conjunct2, rule_format, OF refl,
      THEN conjunct2, THEN conjunct2, rule_format]
  have "load_or_create_at map_id_os sample_keys ?k2 ?fs ''k'' = (Ok (identity_of sample_keys ?k), ?fs)"
    by (rule again) (auto simp: map_id_os_def k)
  with first show ?thesis by blast
qed

end
