(* ===== verification/Local_Codec.thy ===== *)
theory Local_Codec
  imports Frame_Codec
begin

text \<open>
  The vocabulary and the frame codec of the local control socket,
  src/crates/uat-node/src/local.rs. The JSON library stays a parameter, as in the peer codec.
  The layout functions are the module's own copies of those of uat-core; \<open>local_frame\<close> is the
  second interpretation of the frame interface.
\<close>

section \<open>Vocabulary\<close>

definition SOCK_FILE :: string where "SOCK_FILE = ''node.sock''"
definition SOCK_MODE :: u32 where "SOCK_MODE = 384"

definition sock_path :: "string \<Rightarrow> string" where
  "sock_path uat_home = path_join uat_home SOCK_FILE"

record inbox_event =
  ev_peer :: string
  ev_outcome :: outcome

text \<open>\<open>LocalRequest_Dial peer addrs task deadline content_type credential body\<close>.\<close>

datatype local_request =
    LocalRequest_Dial string "string list" task_id deadline content_type "credential option" bytes
  | LocalRequest_Inbox
  | LocalRequest_Message message

text \<open>\<open>LocalResponse_DialResult outcome rtt_ms\<close>, \<open>LocalResponse_InboxEvent peer outcome\<close>.\<close>

datatype local_response =
    LocalResponse_DialResult outcome "u64 option"
  | LocalResponse_InboxIdle
  | LocalResponse_InboxEvent string outcome
  | LocalResponse_Message message
  | LocalResponse_Error string

datatype local_codec_error =
    LocalCodecError_FrameTooLarge
  | LocalCodecError_Truncated
  | LocalCodecError_BadLength
  | LocalCodecError_MalformedHeader
  | LocalCodecError_HeaderTooLarge
  | LocalCodecError_EncodeTooLarge

section \<open>Bodies\<close>

fun local_message_body :: "message \<Rightarrow> bytes" where
  "local_message_body (Message_Submit t d c cr body) = body"
| "local_message_body (Message_Input body) = body"
| "local_message_body (Message_Completed body) = body"
| "local_message_body _ = []"

fun request_body :: "local_request \<Rightarrow> bytes" where
  "request_body (LocalRequest_Dial p a t d c cr body) = body"
| "request_body (LocalRequest_Message message) = local_message_body message"
| "request_body LocalRequest_Inbox = []"

fun response_body :: "local_response \<Rightarrow> bytes" where
  "response_body (LocalResponse_Message message) = local_message_body message"
| "response_body _ = []"

fun set_message_body :: "message \<Rightarrow> bytes \<Rightarrow> message" where
  "set_message_body (Message_Submit t d c cr _) body = Message_Submit t d c cr body"
| "set_message_body (Message_Input _) body = Message_Input body"
| "set_message_body (Message_Completed _) body = Message_Completed body"
| "set_message_body m body = m"

fun set_request_body :: "local_request \<Rightarrow> bytes \<Rightarrow> (local_request, local_codec_error) result" where
  "set_request_body (LocalRequest_Dial p a t d c cr _) body = Ok (LocalRequest_Dial p a t d c cr body)"
| "set_request_body (LocalRequest_Message message) body =
     (if carries_body message then Ok (LocalRequest_Message (set_message_body message body))
      else if body = [] then Ok (LocalRequest_Message message)
      else Err LocalCodecError_BadLength)"
| "set_request_body LocalRequest_Inbox body =
     (if body = [] then Ok LocalRequest_Inbox else Err LocalCodecError_BadLength)"

fun set_response_body :: "local_response \<Rightarrow> bytes \<Rightarrow> (local_response, local_codec_error) result" where
  "set_response_body (LocalResponse_Message message) body =
     (if carries_body message then Ok (LocalResponse_Message (set_message_body message body))
      else if body = [] then Ok (LocalResponse_Message message)
      else Err LocalCodecError_BadLength)"
| "set_response_body resp body = (if body = [] then Ok resp else Err LocalCodecError_BadLength)"

section \<open>Layout\<close>

definition encode_json_frame ::
  "bytes \<Rightarrow> bytes \<Rightarrow> bytes \<Rightarrow> (bytes, local_codec_error) result" where
  "encode_json_frame header body out =
     (if length header > unat MAX_HDR_LEN then Err LocalCodecError_HeaderTooLarge
      else case Option.bind (usize_checked_add 2 (length header))
                  (\<lambda>n. usize_checked_add n (length body)) of
        None \<Rightarrow> Err LocalCodecError_EncodeTooLarge
      | Some len_u \<Rightarrow>
          if len_u > unat MAX_FRAME then Err LocalCodecError_EncodeTooLarge
          else (case u32_try_from len_u of
                  None \<Rightarrow> Err LocalCodecError_EncodeTooLarge
                | Some len \<Rightarrow>
                    (case u16_try_from (length header) of
                       None \<Rightarrow> Err LocalCodecError_HeaderTooLarge
                     | Some hdr_len \<Rightarrow>
                         Ok (out @ to_be_bytes 4 len @ to_be_bytes 2 hdr_len @ header @ body))))"

definition local_decode_parts :: "bytes \<Rightarrow> (bytes \<times> bytes, local_codec_error) result" where
  "local_decode_parts buf =
     (if length buf < 4 then Err LocalCodecError_Truncated
      else
        let len = (from_be_bytes (take 4 buf) :: u32) in
        if len > MAX_FRAME then Err LocalCodecError_FrameTooLarge
        else
          let len_usize = unat len in
          if length buf < 4 + len_usize then Err LocalCodecError_Truncated
          else
            let payload = take len_usize (drop 4 buf) in
            if length payload < 2 then Err LocalCodecError_BadLength
            else
              let hdr_len = (from_be_bytes (take 2 payload) :: u16) in
              if hdr_len > MAX_HDR_LEN then Err LocalCodecError_FrameTooLarge
              else
                let hdr_len_usize = unat hdr_len in
                if length payload < 2 + hdr_len_usize then Err LocalCodecError_BadLength
                else if len_usize < 2 + hdr_len_usize then Err LocalCodecError_BadLength
                else
                  let header = take hdr_len_usize (drop 2 payload);
                      body = drop (2 + hdr_len_usize) payload in
                  if 2 + hdr_len_usize + length body \<noteq> len_usize
                  then Err LocalCodecError_BadLength
                  else Ok (header, body))"

section \<open>Requests and responses\<close>

definition encode_request ::
  "(local_request \<Rightarrow> bytes option) \<Rightarrow> local_request \<Rightarrow> bytes \<Rightarrow> (bytes, local_codec_error) result" where
  "encode_request to_vec req out =
     and_then (ok_or LocalCodecError_MalformedHeader (to_vec req)) (\<lambda>header.
       encode_json_frame header (request_body req) out)"

definition encode_response ::
  "(local_response \<Rightarrow> bytes option) \<Rightarrow> local_response \<Rightarrow> bytes \<Rightarrow> (bytes, local_codec_error) result" where
  "encode_response to_vec resp out =
     and_then (ok_or LocalCodecError_MalformedHeader (to_vec resp)) (\<lambda>header.
       encode_json_frame header (response_body resp) out)"

definition decode_request ::
  "(bytes \<Rightarrow> local_request option) \<Rightarrow> bytes \<Rightarrow> (local_request, local_codec_error) result" where
  "decode_request from_slice buf =
     and_then (local_decode_parts buf) (\<lambda>(header, body).
     and_then (ok_or LocalCodecError_MalformedHeader (from_slice header)) (\<lambda>req.
       set_request_body req body))"

definition decode_response ::
  "(bytes \<Rightarrow> local_response option) \<Rightarrow> bytes \<Rightarrow> (local_response, local_codec_error) result" where
  "decode_response from_slice buf =
     and_then (local_decode_parts buf) (\<lambda>(header, body).
     and_then (ok_or LocalCodecError_MalformedHeader (from_slice header)) (\<lambda>resp.
       set_response_body resp body))"

section \<open>The same layout\<close>

text \<open>The errors of the peer codec under their local names.\<close>

fun local_of_codec :: "codec_error \<Rightarrow> local_codec_error" where
  "local_of_codec CodecError_FrameTooLarge = LocalCodecError_FrameTooLarge"
| "local_of_codec CodecError_Truncated = LocalCodecError_Truncated"
| "local_of_codec CodecError_BadLength = LocalCodecError_BadLength"
| "local_of_codec CodecError_MalformedHeader = LocalCodecError_MalformedHeader"
| "local_of_codec CodecError_HeaderTooLarge = LocalCodecError_HeaderTooLarge"
| "local_of_codec CodecError_EncodeTooLarge = LocalCodecError_EncodeTooLarge"
| "local_of_codec CodecError_SubmitDenied = LocalCodecError_MalformedHeader"

lemma encode_json_frame_peer:
  "encode_json_frame h b out = map_err local_of_codec (put_frame h b out)"
  by (auto simp: encode_json_frame_def put_frame_eq map_err_simps u16_try_from_def u32_try_from_def
      usize_checked_add_def)

lemma local_decode_parts_peer: "local_decode_parts buf = map_err local_of_codec (frame_parts buf)"
  by (simp only: local_decode_parts_def frame_parts_def Let_def map_err_simps
      if_distrib [of "map_err local_of_codec"] local_of_codec.simps)

text \<open>
  C32: The local socket speaks the layout of the peer codec. For every header, body and buffer the
  frame it writes is byte for byte the peer codec's frame, it takes a buffer apart into the same
  header and body, and the two refuse the same inputs with the errors of the same name.
\<close>

theorem local_layout_is_peer_layout:
  "encode_json_frame h b out = map_err local_of_codec (put_frame h b out) \<and>
   local_decode_parts buf = map_err local_of_codec (frame_parts buf)"
  by (intro conjI encode_json_frame_peer local_decode_parts_peer)

interpretation local_frame: framing encode_json_frame local_decode_parts
proof unfold_locales
  show "encode_json_frame h b out = and_then (encode_json_frame h b []) (\<lambda>f. Ok (out @ f))" for h b out
    by (subst (1 2) encode_json_frame_peer, subst peer_frame.put_appends)
      (cases "put_frame h b []"; simp add: map_err_simps)
  show "length f = 6 + length h + length b" if "encode_json_frame h b [] = Ok f" for h b f
    using that peer_frame.put_length by (simp add: encode_json_frame_peer map_err_Ok_iff)
  show "local_decode_parts (f @ rest) = Ok (h, b)" if "encode_json_frame h b [] = Ok f" for h b f rest
    using that peer_frame.split_put
    by (simp add: encode_json_frame_peer local_decode_parts_peer map_err_Ok_iff)
  show "\<exists>f rest. encode_json_frame h b [] = Ok f \<and> buf = f @ rest"
    if "local_decode_parts buf = Ok (h, b)" for buf h b
    using that peer_frame.put_split
    by (simp add: encode_json_frame_peer local_decode_parts_peer map_err_Ok_iff)
qed

section \<open>Round trip\<close>

text \<open>
  What the derived impls document, as for the peer messages: the header of a request or response
  whose fields came out of their constructors parses back to it, without its body.
\<close>

fun request_wf :: "(bytes \<Rightarrow> bytes option) \<Rightarrow> local_request \<Rightarrow> bool" where
  "request_wf b64 (LocalRequest_Dial p a t d c cr body) \<longleftrightarrow>
     message_wf b64 (Message_Submit t d c cr body)"
| "request_wf b64 (LocalRequest_Message message) \<longleftrightarrow> message_wf b64 message"
| "request_wf b64 LocalRequest_Inbox \<longleftrightarrow> True"

fun response_wf :: "(bytes \<Rightarrow> bytes option) \<Rightarrow> local_response \<Rightarrow> bool" where
  "response_wf b64 (LocalResponse_Message message) \<longleftrightarrow> message_wf b64 message"
| "response_wf b64 _ \<longleftrightarrow> True"

fun request_header :: "local_request \<Rightarrow> local_request" where
  "request_header (LocalRequest_Dial p a t d c cr body) = LocalRequest_Dial p a t d c cr []"
| "request_header (LocalRequest_Message message) = LocalRequest_Message (header_of message)"
| "request_header LocalRequest_Inbox = LocalRequest_Inbox"

fun response_header :: "local_response \<Rightarrow> local_response" where
  "response_header (LocalResponse_Message message) = LocalResponse_Message (header_of message)"
| "response_header resp = resp"

definition serde_request ::
  "(bytes \<Rightarrow> bytes option) \<Rightarrow> (local_request \<Rightarrow> bytes option) \<Rightarrow> (bytes \<Rightarrow> local_request option) \<Rightarrow> bool" where
  "serde_request b64 to_vec from_slice \<longleftrightarrow>
     (\<forall>r h. request_wf b64 r \<and> to_vec r = Some h \<longrightarrow> from_slice h = Some (request_header r))"

definition serde_response ::
  "(bytes \<Rightarrow> bytes option) \<Rightarrow> (local_response \<Rightarrow> bytes option) \<Rightarrow> (bytes \<Rightarrow> local_response option) \<Rightarrow> bool" where
  "serde_response b64 to_vec from_slice \<longleftrightarrow>
     (\<forall>r h. response_wf b64 r \<and> to_vec r = Some h \<longrightarrow> from_slice h = Some (response_header r))"

lemma set_message_body_header [simp]:
  "set_message_body (header_of m) (local_message_body m) = m"
  "carries_body (header_of m) = carries_body m"
  "\<not> carries_body m \<Longrightarrow> local_message_body m = []"
  "\<not> carries_body m \<Longrightarrow> header_of m = m"
  by (cases m; simp add: header_of_def)+

lemma set_request_body_header: "set_request_body (request_header r) (request_body r) = Ok r"
  by (cases r) simp_all

lemma set_response_body_header: "set_response_body (response_header r) (response_body r) = Ok r"
  by (cases r) simp_all

lemma encode_request_Ok_iff:
  "encode_request to_vec r out = Ok out' \<longleftrightarrow>
     (\<exists>h f. to_vec r = Some h \<and> encode_json_frame h (request_body r) [] = Ok f \<and> out' = out @ f)"
  by (auto simp: encode_request_def ok_or_def local_frame.put_Ok_iff [of _ _ out] split: option.splits)

lemma encode_response_Ok_iff:
  "encode_response to_vec r out = Ok out' \<longleftrightarrow>
     (\<exists>h f. to_vec r = Some h \<and> encode_json_frame h (response_body r) [] = Ok f \<and> out' = out @ f)"
  by (auto simp: encode_response_def ok_or_def local_frame.put_Ok_iff [of _ _ out] split: option.splits)

lemma decode_encode_request:
  assumes "serde_request b64 to_vec from_slice" and "request_wf b64 r"
    and "encode_request to_vec r [] = Ok f"
  shows "decode_request from_slice (f @ rest) = Ok r"
  using assms
  by (auto simp: encode_request_Ok_iff decode_request_def serde_request_def local_frame.split_put
      ok_or_def set_request_body_header)

lemma decode_encode_response:
  assumes "serde_response b64 to_vec from_slice" and "response_wf b64 r"
    and "encode_response to_vec r [] = Ok f"
  shows "decode_response from_slice (f @ rest) = Ok r"
  using assms
  by (auto simp: encode_response_Ok_iff decode_response_def serde_response_def local_frame.split_put
      ok_or_def set_response_body_header)

end
