(* ===== verification/Sock_File.thy ===== *)
theory Sock_File
  imports Local_Codec
begin

text \<open>
  The socket file of the daemon, src/crates/uat-node/src/local.rs: binding
  \<open>$UAT_HOME/node.sock\<close> at mode 0600 over a stale file, removing it, and the client's connect.
  The operating system is a record of the operations the code calls; logging is left out.
\<close>

section \<open>Operations\<close>

record ('fs, 'st, 'ln) sock_os =
  so_create_dir_all :: "'fs \<Rightarrow> string \<Rightarrow> (unit, io_error) result \<times> 'fs"
  so_exists :: "'fs \<Rightarrow> string \<Rightarrow> bool"
  so_connect :: "'fs \<Rightarrow> string \<Rightarrow> ('st, io_error) result \<times> 'fs"
  so_remove_file :: "'fs \<Rightarrow> string \<Rightarrow> (unit, io_error) result \<times> 'fs"
  so_bind :: "'fs \<Rightarrow> string \<Rightarrow> ('ln, io_error) result \<times> 'fs"
  so_set_permissions :: "'fs \<Rightarrow> string \<Rightarrow> u32 \<Rightarrow> (unit, io_error) result \<times> 'fs"
  so_mode :: "'fs \<Rightarrow> string \<Rightarrow> (u32, io_error) result"

datatype local_bind_error =
    LocalBindError_AlreadyRunning string
  | LocalBindError_Io io_error

definition bind_then ::
  "('a, io_error) result \<times> 'fs \<Rightarrow> ('a \<Rightarrow> 'fs \<Rightarrow> ('b, local_bind_error) result \<times> 'fs)
     \<Rightarrow> ('b, local_bind_error) result \<times> 'fs" where
  "bind_then r f = (case r of (Err e, fs) \<Rightarrow> (Err (LocalBindError_Io e), fs) | (Ok x, fs) \<Rightarrow> f x fs)"

text \<open>What to do about an existing file: a listener that answers is left alone.\<close>

definition clear_stale_sock ::
  "('fs, 'st, 'ln) sock_os \<Rightarrow> 'fs \<Rightarrow> string \<Rightarrow> (unit, local_bind_error) result \<times> 'fs" where
  "clear_stale_sock os fs path =
     (if so_exists os fs path
      then case so_connect os fs path of
             (Ok _, fs) \<Rightarrow> (Err (LocalBindError_AlreadyRunning path), fs)
           | (Err _, fs) \<Rightarrow> bind_then (so_remove_file os fs path) (\<lambda>_ fs. (Ok (), fs))
      else (Ok (), fs))"

text \<open>The mode that is read back at the end is only logged when it is not \<open>0600\<close>.\<close>

definition bind_sock ::
  "('fs, 'st, 'ln) sock_os \<Rightarrow> 'fs \<Rightarrow> string \<Rightarrow> ('ln, local_bind_error) result \<times> 'fs" where
  "bind_sock os fs uat_home =
     bind_then (so_create_dir_all os fs uat_home) (\<lambda>_ fs.
       let path = sock_path uat_home in
       case clear_stale_sock os fs path of
         (Err e, fs) \<Rightarrow> (Err e, fs)
       | (Ok _, fs) \<Rightarrow>
           bind_then (so_bind os fs path) (\<lambda>listener fs.
           bind_then (so_set_permissions os fs path SOCK_MODE) (\<lambda>_ fs.
           bind_then (so_mode os fs path, fs) (\<lambda>mode fs. (Ok listener, fs)))))"

definition remove_sock_file :: "('fs, 'st, 'ln) sock_os \<Rightarrow> 'fs \<Rightarrow> string \<Rightarrow> 'fs" where
  "remove_sock_file os fs uat_home = snd (so_remove_file os fs (sock_path uat_home))"

section \<open>The file system\<close>

text \<open>
  What the operating system documents, over a view of the files as their mode and whether a
  listener of this machine is bound to them (\<open>files\<close>): connecting succeeds only on such a file,
  \<open>bind\<close> creates a fresh one, removing and changing a mode do what they say, and a failed call
  changes nothing.
\<close>

definition sock_sound ::
  "('fs, 'st, 'ln) sock_os \<Rightarrow> ('fs \<Rightarrow> string \<rightharpoonup> u32 \<times> bool) \<Rightarrow> bool" where
  "sock_sound os files \<longleftrightarrow>
     (\<forall>fs p r fs'. so_create_dir_all os fs p = (r, fs') \<longrightarrow> files fs' = files fs) \<and>
     (\<forall>fs p. so_exists os fs p \<longleftrightarrow> files fs p \<noteq> None) \<and>
     (\<forall>fs p r fs'. so_connect os fs p = (r, fs') \<longrightarrow> files fs' = files fs \<and>
        (is_ok r \<longrightarrow> (\<exists>m. files fs p = Some (m, True)))) \<and>
     (\<forall>fs p r fs'. so_remove_file os fs p = (r, fs') \<longrightarrow>
        files fs' = (if is_ok r then (files fs)(p := None) else files fs)) \<and>
     (\<forall>fs p r fs'. so_bind os fs p = (r, fs') \<longrightarrow>
        (if is_ok r then files fs p = None \<and> (\<exists>m. files fs' = (files fs)(p \<mapsto> (m, True)))
         else files fs' = files fs)) \<and>
     (\<forall>fs p w r fs'. so_set_permissions os fs p w = (r, fs') \<longrightarrow>
        (if is_ok r then (\<exists>m l. files fs p = Some (m, l) \<and> files fs' = (files fs)(p \<mapsto> (w, l)))
         else files fs' = files fs))"

lemma sock_soundD:
  assumes "sock_sound os files"
  shows "so_create_dir_all os fs p = (r, fs') \<Longrightarrow> files fs' = files fs"
    and "so_exists os fs p \<longleftrightarrow> files fs p \<noteq> None"
    and "so_connect os fs p = (rc, fs') \<Longrightarrow> files fs' = files fs \<and>
      (is_ok rc \<longrightarrow> (\<exists>m. files fs p = Some (m, True)))"
    and "so_remove_file os fs p = (r, fs') \<Longrightarrow>
      files fs' = (if is_ok r then (files fs)(p := None) else files fs)"
    and "so_bind os fs p = (rb, fs') \<Longrightarrow>
      (if is_ok rb then files fs p = None \<and> (\<exists>m. files fs' = (files fs)(p \<mapsto> (m, True)))
       else files fs' = files fs)"
    and "so_set_permissions os fs p w = (r, fs') \<Longrightarrow>
      (if is_ok r then (\<exists>m l. files fs p = Some (m, l) \<and> files fs' = (files fs)(p \<mapsto> (w, l)))
       else files fs' = files fs)"
proof -
  note law = assms [unfolded sock_sound_def]
  show "so_create_dir_all os fs p = (r, fs') \<Longrightarrow> files fs' = files fs"
    using law [THEN conjunct1] by blast
  show "so_exists os fs p \<longleftrightarrow> files fs p \<noteq> None"
    using law [THEN conjunct2, THEN conjunct1] by blast
  show "so_connect os fs p = (rc, fs') \<Longrightarrow> files fs' = files fs \<and>
      (is_ok rc \<longrightarrow> (\<exists>m. files fs p = Some (m, True)))"
    using law [THEN conjunct2, THEN conjunct2, THEN conjunct1] by blast
  show "so_remove_file os fs p = (r, fs') \<Longrightarrow>
      files fs' = (if is_ok r then (files fs)(p := None) else files fs)"
    using law [THEN conjunct2, THEN conjunct2, THEN conjunct2, THEN conjunct1] by blast
  show "so_bind os fs p = (rb, fs') \<Longrightarrow>
      (if is_ok rb then files fs p = None \<and> (\<exists>m. files fs' = (files fs)(p \<mapsto> (m, True)))
       else files fs' = files fs)"
    using law [THEN conjunct2, THEN conjunct2, THEN conjunct2, THEN conjunct2, THEN conjunct1] by blast
  show "so_set_permissions os fs p w = (r, fs') \<Longrightarrow>
      (if is_ok r then (\<exists>m l. files fs p = Some (m, l) \<and> files fs' = (files fs)(p \<mapsto> (w, l)))
       else files fs' = files fs)"
    using law [THEN conjunct2, THEN conjunct2, THEN conjunct2, THEN conjunct2, THEN conjunct2] by blast
qed

section \<open>Binding\<close>

lemma bind_then_cases:
  assumes "bind_then r f = (res, fs')"
  obtains (err) e where "r = (Err e, fs')" "res = Err (LocalBindError_Io e)"
    | (ok) x fs where "r = (Ok x, fs)" "f x fs = (res, fs')"
  using assms by (cases r; cases "fst r") (auto simp: bind_then_def)

lemma clear_stale_sock_facts:
  assumes sound: "sock_sound os files" and clear: "clear_stale_sock os fs path = (r, fs')"
  shows "(is_ok r \<longrightarrow> files fs' = (files fs)(path := None) \<and>
      (files fs path \<noteq> None \<longrightarrow> \<not> is_ok (fst (so_connect os fs path)))) \<and>
    (\<not> is_ok r \<longrightarrow> files fs' = files fs \<and>
      (\<forall>p. r = Err (LocalBindError_AlreadyRunning p) \<longrightarrow> p = path \<and> (\<exists>m. files fs path = Some (m, True))))"
proof (cases "so_exists os fs path")
  case False
  then have "files fs path = None" by (simp only: sock_soundD(2) [OF sound] not_not)
  with False clear show ?thesis
    by (auto simp: clear_stale_sock_def fun_upd_idem)
next
  case True
  obtain rc fs1 where c: "so_connect os fs path = (rc, fs1)" by fastforce
  note same = sock_soundD(3) [OF sound c]
  show ?thesis
  proof (cases rc)
    case (Inr st)
    with True c clear have "r = Err (LocalBindError_AlreadyRunning path)" "fs' = fs1"
      by (simp_all add: clear_stale_sock_def)
    with same Inr show ?thesis by simp
  next
    case (Inl e)
    with True c clear have "bind_then (so_remove_file os fs1 path) (\<lambda>_ fs. (Ok (), fs)) = (r, fs')"
      by (simp add: clear_stale_sock_def)
    then show ?thesis
    proof (cases rule: bind_then_cases)
      case (err e)
      with same c Inl sock_soundD(4) [OF sound err(1)] show ?thesis by simp
    next
      case (ok x fs2)
      with same c Inl sock_soundD(4) [OF sound ok(1)] show ?thesis by auto
    qed
  qed
qed

lemma clear_stale_sock_only_answers:
  "clear_stale_sock os fs path = (Err (LocalBindError_AlreadyRunning p), fs') \<Longrightarrow>
     so_exists os fs path \<and> is_ok (fst (so_connect os fs path))"
  by (auto simp: clear_stale_sock_def bind_then_def split: if_splits prod.splits sum.splits)

text \<open>When the daemon finds an answering listener, and a system on which nothing but connecting fails.\<close>

definition sock_answers :: "('fs, 'st, 'ln) sock_os \<Rightarrow> 'fs \<Rightarrow> string \<Rightarrow> bool" where
  "sock_answers os fs home \<longleftrightarrow>
     (case so_create_dir_all os fs home of
        (Ok _, fs1) \<Rightarrow> so_exists os fs1 (sock_path home) \<and> is_ok (fst (so_connect os fs1 (sock_path home)))
      | (Err _, fs1) \<Rightarrow> False)"

definition sock_os_works :: "('fs, 'st, 'ln) sock_os \<Rightarrow> ('fs \<Rightarrow> string \<rightharpoonup> u32 \<times> bool) \<Rightarrow> bool" where
  "sock_os_works os files \<longleftrightarrow>
     (\<forall>fs p. is_ok (fst (so_create_dir_all os fs p)) \<and>
        (files fs p \<noteq> None \<longrightarrow> is_ok (fst (so_remove_file os fs p)) \<and>
           (\<forall>w. is_ok (fst (so_set_permissions os fs p w))) \<and> is_ok (so_mode os fs p)) \<and>
        (files fs p = None \<longrightarrow> is_ok (fst (so_bind os fs p))))"

lemma sock_os_worksD:
  assumes "sock_os_works os files"
  shows "so_create_dir_all os fs p \<noteq> (Err e, fs')"
    and "files fs p \<noteq> None \<Longrightarrow> so_remove_file os fs p \<noteq> (Err e, fs')"
    and "files fs p \<noteq> None \<Longrightarrow> so_set_permissions os fs p w \<noteq> (Err e, fs')"
    and "files fs p \<noteq> None \<Longrightarrow> so_mode os fs p \<noteq> Err e"
    and "files fs p = None \<Longrightarrow> so_bind os fs p \<noteq> (Err e, fs')"
  using assms [unfolded sock_os_works_def, rule_format, of fs p] by (metis fst_conv is_ok_simps(2))+

lemma clear_stale_sock_answers:
  "so_exists os fs path \<and> is_ok (fst (so_connect os fs path)) \<Longrightarrow>
     \<exists>fs'. clear_stale_sock os fs path = (Err (LocalBindError_AlreadyRunning path), fs')"
  by (cases "so_connect os fs path"; cases "fst (so_connect os fs path)") (simp_all add: clear_stale_sock_def)

lemma clear_stale_sock_works:
  assumes sound: "sock_sound os files" and "sock_os_works os files"
    and "\<not> (so_exists os fs path \<and> is_ok (fst (so_connect os fs path)))"
  shows "is_ok (fst (clear_stale_sock os fs path))"
proof (cases "so_exists os fs path")
  case True
  then have there: "files fs path \<noteq> None" using sock_soundD(2) [OF sound] by blast
  obtain rc fs1 where c: "so_connect os fs path = (rc, fs1)" by fastforce
  with there sock_soundD(3) [OF sound c] have "files fs1 path \<noteq> None" by simp
  from sock_os_worksD(2) [OF assms(2) this] True c assms(3) show ?thesis
    by (cases rc; cases "so_remove_file os fs1 path"; cases "fst (so_remove_file os fs1 path)")
      (auto simp: clear_stale_sock_def bind_then_def)
qed (simp add: clear_stale_sock_def)

text \<open>The part of \<open>bind_sock\<close> after the stale file is gone.\<close>

lemma bind_fresh_facts:
  assumes sound: "sock_sound os files" and gone: "files fs p = None"
    and r: "bind_then (so_bind os fs p) (\<lambda>listener fs.
          bind_then (so_set_permissions os fs p SOCK_MODE) (\<lambda>_ fs.
          bind_then (so_mode os fs p, fs) (\<lambda>mode fs. (Ok listener, fs)))) = (r, fs')"
  shows "is_ok r \<Longrightarrow> files fs' = (files fs)(p \<mapsto> (SOCK_MODE, True))"
    and "r \<noteq> Err (LocalBindError_AlreadyRunning q)"
    and "q \<noteq> p \<Longrightarrow> files fs' q = files fs q"
    and "sock_os_works os files \<Longrightarrow> is_ok r"
proof -
  have "(is_ok r \<longrightarrow> files fs' = (files fs)(p \<mapsto> (SOCK_MODE, True))) \<and>
      (\<forall>q. r \<noteq> Err (LocalBindError_AlreadyRunning q)) \<and> (\<forall>q. q \<noteq> p \<longrightarrow> files fs' q = files fs q) \<and>
      (sock_os_works os files \<longrightarrow> is_ok r)"
    using r
  proof (cases rule: bind_then_cases)
    case (err e)
    have "\<not> sock_os_works os files"
      using sock_os_worksD(5) err(1) gone by metis
    with err gone sock_soundD(5) [OF sound err(1)] show ?thesis by simp
  next
    case (ok ln fs3)
    from sock_soundD(5) [OF sound ok(1)] obtain m where b: "files fs3 = (files fs)(p \<mapsto> (m, True))" by auto
    from ok(2) show ?thesis
    proof (cases rule: bind_then_cases)
      case (err e)
      have "files fs3 p \<noteq> None" unfolding b by simp
      with err(1) have "\<not> sock_os_works os files" using sock_os_worksD(3) by metis
      with err b sock_soundD(6) [OF sound err(1)] show ?thesis by simp
    next
      case (ok u fs4)
      with b sock_soundD(6) [OF sound ok(1)]
      have perm: "files fs4 = (files fs)(p \<mapsto> (SOCK_MODE, True))" by auto
      from ok(2) show ?thesis
      proof (cases rule: bind_then_cases)
        case (err e)
        have there: "files fs4 p \<noteq> None" unfolding perm by simp
        from err(1) have "so_mode os fs4 p = Err e" by auto
        with there have "\<not> sock_os_works os files" using sock_os_worksD(4) by metis
        with err perm show ?thesis by simp
      qed (use perm in auto)
    qed
  qed
  then show "is_ok r \<Longrightarrow> files fs' = (files fs)(p \<mapsto> (SOCK_MODE, True))"
    "r \<noteq> Err (LocalBindError_AlreadyRunning q)" "q \<noteq> p \<Longrightarrow> files fs' q = files fs q"
    "sock_os_works os files \<Longrightarrow> is_ok r" by simp_all
qed

text \<open>
  C29: The daemon spares the listener that answers it, and replaces whatever else is there. \<open>bind_sock\<close> reports
  \<open>AlreadyRunning\<close> exactly when a socket file exists and the connection it tries is accepted; then no
  file has changed, and somebody listens on that file. When it succeeds, the socket file is a fresh one with a
  listener at mode exactly \<open>0600\<close>, and what was there before did not accept that connection, whatever the error
  was: the file of a live daemon that only failed to accept it is replaced too. No other file ever
  changes. On a system where nothing but the connection can fail, it succeeds exactly when no listener answers.
\<close>

theorem bind_sock_spares_live_daemons:
  assumes "sock_sound os files" and "bind_sock os fs home = (r, fs')"
  shows "((\<exists>p. r = Err (LocalBindError_AlreadyRunning p)) \<longleftrightarrow> sock_answers os fs home) \<and>
    (\<forall>p. r = Err (LocalBindError_AlreadyRunning p) \<longrightarrow> p = sock_path home \<and> files fs' = files fs \<and>
      (\<exists>m. files fs p = Some (m, True))) \<and>
    (is_ok r \<longrightarrow> files fs' = (files fs)(sock_path home \<mapsto> (SOCK_MODE, True)) \<and> \<not> sock_answers os fs home) \<and>
    (\<forall>q. q \<noteq> sock_path home \<longrightarrow> files fs' q = files fs q) \<and>
    (sock_os_works os files \<longrightarrow> (is_ok r \<longleftrightarrow> \<not> sock_answers os fs home))"
proof -
  let ?p = "sock_path home"
  from assms(2) show ?thesis unfolding bind_sock_def
  proof (cases rule: bind_then_cases)
    case (err e)
    have no: "\<not> sock_os_works os files"
      using sock_os_worksD(1) err(1) by metis
    from err(1) have "\<not> sock_answers os fs home" by (simp add: sock_answers_def)
    with no err sock_soundD(1) [OF assms(1) err(1)] show ?thesis by simp
  next
    case (ok u fs1)
    note same = sock_soundD(1) [OF assms(1) ok(1)]
    have answers: "sock_answers os fs home \<longleftrightarrow> so_exists os fs1 ?p \<and> is_ok (fst (so_connect os fs1 ?p))"
      using ok(1) by (simp add: sock_answers_def)
    obtain rc fs2 where c: "clear_stale_sock os fs1 ?p = (rc, fs2)" by fastforce
    note clear = clear_stale_sock_facts [OF assms(1) c, unfolded same]
    show ?thesis
    proof (cases rc)
      case (Inl e)
      with ok(2) c have r: "r = Err e" "fs' = fs2" by (simp_all add: Let_def)
      have iff: "(\<exists>p. e = LocalBindError_AlreadyRunning p) \<longleftrightarrow> sock_answers os fs home"
      proof
        assume "\<exists>p. e = LocalBindError_AlreadyRunning p"
        then obtain p where "e = LocalBindError_AlreadyRunning p" by blast
        with c Inl clear_stale_sock_only_answers show "sock_answers os fs home" by (simp add: answers)
      next
        assume "sock_answers os fs home"
        with clear_stale_sock_answers [of os fs1 ?p] c Inl
        show "\<exists>p. e = LocalBindError_AlreadyRunning p" by (simp add: answers)
      qed
      have "sock_answers os fs home" if "sock_os_works os files"
      proof (rule ccontr)
        assume "\<not> sock_answers os fs home"
        with clear_stale_sock_works [OF assms(1) that, of fs1 ?p] c Inl show False by (simp add: answers)
      qed
      with r clear Inl iff show ?thesis by auto
    next
      case (Inr v)
      with clear have gone: "files fs2 = (files fs)(?p := None)" by simp
      have no: "\<not> sock_answers os fs home"
        using clear_stale_sock_answers [of os fs1 ?p] c Inr by (auto simp: answers)
      have "bind_then (so_bind os fs2 ?p) (\<lambda>listener fs.
          bind_then (so_set_permissions os fs ?p SOCK_MODE) (\<lambda>_ fs.
          bind_then (so_mode os fs ?p, fs) (\<lambda>mode fs. (Ok listener, fs)))) = (r, fs')"
        using ok(2) c Inr by (simp add: Let_def)
      from bind_fresh_facts [OF assms(1) _ this] gone no show ?thesis by auto
    qed
  qed
qed

text \<open>Sock files that are their own map, for the witness: connecting reaches bound files.\<close>

definition map_sock_os :: "(string \<rightharpoonup> u32 \<times> bool, unit, string) sock_os" where
  "map_sock_os =
     \<lparr>so_create_dir_all = (\<lambda>fs p. (Ok (), fs)),
      so_exists = (\<lambda>fs p. fs p \<noteq> None),
      so_connect = (\<lambda>fs p. case fs p of
         Some (m, l) \<Rightarrow> (if l then Ok () else Err (IoError Kind_Other []), fs)
       | None \<Rightarrow> (Err (IoError Kind_NotFound []), fs)),
      so_remove_file = (\<lambda>fs p. if fs p = None then (Err (IoError Kind_NotFound []), fs) else (Ok (), fs(p := None))),
      so_bind = (\<lambda>fs p. if fs p = None then (Ok p, fs(p \<mapsto> (493, True))) else (Err (IoError Kind_Other []), fs)),
      so_set_permissions = (\<lambda>fs p w. case fs p of
         Some (m, l) \<Rightarrow> (Ok (), fs(p \<mapsto> (w, l))) | None \<Rightarrow> (Err (IoError Kind_NotFound []), fs)),
      so_mode = (\<lambda>fs p. case fs p of Some (m, l) \<Rightarrow> Ok m | None \<Rightarrow> Err (IoError Kind_NotFound []))\<rparr>"

lemma map_sock_os_sound: "sock_sound map_sock_os (\<lambda>fs. fs)"
  unfolding sock_sound_def by (intro conjI) (auto simp: map_sock_os_def split: option.splits if_splits)

lemma map_sock_os_works: "sock_os_works map_sock_os (\<lambda>fs. fs)"
  by (auto simp: sock_os_works_def map_sock_os_def split: option.splits)

lemma map_sock_answers: "sock_answers map_sock_os fs home \<longleftrightarrow> (\<exists>m. fs (sock_path home) = Some (m, True))"
  by (auto simp: sock_answers_def map_sock_os_def split: option.splits)

theorem bind_sock_spares_live_daemons_witness:
  "snd (bind_sock map_sock_os [sock_path ''h'' \<mapsto> (420, False)] ''h'') = [sock_path ''h'' \<mapsto> (384, True)] \<and>
   bind_sock map_sock_os [sock_path ''h'' \<mapsto> (384, True)] ''h'' =
     (Err (LocalBindError_AlreadyRunning (sock_path ''h'')), [sock_path ''h'' \<mapsto> (384, True)])"
proof -
  obtain r fs where dead: "bind_sock map_sock_os [sock_path ''h'' \<mapsto> (420, False)] ''h'' = (r, fs)" by fastforce
  have one: "fs = [sock_path ''h'' \<mapsto> (384, True)]"
    using bind_sock_spares_live_daemons [OF map_sock_os_sound dead] map_sock_os_works
    by (auto simp: map_sock_answers SOCK_MODE_def)
  obtain r2 fs2 where live: "bind_sock map_sock_os [sock_path ''h'' \<mapsto> (384, True)] ''h'' = (r2, fs2)" by fastforce
  have "r2 = Err (LocalBindError_AlreadyRunning (sock_path ''h'')) \<and> fs2 = [sock_path ''h'' \<mapsto> (384, True)]"
    using bind_sock_spares_live_daemons [OF map_sock_os_sound live]
    by (auto simp: map_sock_answers)
  with one dead live show ?thesis by simp
qed

end
