(* ===== verification/Node.thy ===== *)
theory Node
  imports Call_Tasks Callee_Tasks Rate_Limit Identity Sock_File
begin

text \<open>
  The daemon, src/crates/uat-node/src/node.rs: binding an endpoint, the accept loop, the handler of
  one inbound connection, outbound dials, the local socket's registration and shutdown. The iroh
  endpoint is a parameter: what it answers (a handshake, a connection) is an argument. A node is a
  record that its tasks share; a handler is a function on it, and tasks interleave between the
  admission of a connection and the end of its call.
\<close>

section \<open>Errors\<close>

datatype daemon_error =
    DaemonError_Identity identity_error
  | DaemonError_Node node_error
  | DaemonError_Bind string
  | DaemonError_Connect string
  | DaemonError_Call call_error
  | DaemonError_LocalSock local_bind_error

fun octal :: "nat \<Rightarrow> string" where
  "octal n = (if n < 8 then [char_of (48 + n)] else octal (n div 8) @ [char_of (48 + n mod 8)])"

declare octal.simps [simp del]

definition NodeError_to_string :: "node_error \<Rightarrow> string" where
  "NodeError_to_string e = (case e of NodeError_InvalidPublicKey \<Rightarrow> ''invalid node public key'')"

definition IdentityError_to_string :: "identity_error \<Rightarrow> string" where
  "IdentityError_to_string e =
     (case e of
        IdentityError_NoHome \<Rightarrow> ''cannot resolve UAT home directory''
      | IdentityError_InsecurePermissions mode \<Rightarrow>
          ''identity key permissions are '' @ octal (unat mode) @ ''; refusing to start (want '' @
          octal (unat REQUIRED_MODE) @ '')''
      | IdentityError_BadKeyLength \<Rightarrow> ''identity key file must be exactly 32 bytes''
      | IdentityError_Io io \<Rightarrow> io_message io
      | IdentityError_Node n \<Rightarrow> NodeError_to_string n)"

definition LocalBindError_to_string :: "local_bind_error \<Rightarrow> string" where
  "LocalBindError_to_string e =
     (case e of
        LocalBindError_AlreadyRunning path \<Rightarrow>
          ''uat-node already running (socket '' @ path @ '' accepts connections)''
      | LocalBindError_Io io \<Rightarrow> io_message io)"

definition DaemonError_to_string :: "daemon_error \<Rightarrow> string" where
  "DaemonError_to_string e =
     (case e of
        DaemonError_Identity i \<Rightarrow> IdentityError_to_string i
      | DaemonError_Node n \<Rightarrow> NodeError_to_string n
      | DaemonError_Bind s \<Rightarrow> ''endpoint bind failed: '' @ s
      | DaemonError_Connect s \<Rightarrow> ''connect failed: '' @ s
      | DaemonError_Call c \<Rightarrow> CallError_to_string c
      | DaemonError_LocalSock l \<Rightarrow> LocalBindError_to_string l)"

section \<open>Options\<close>

definition ALPN :: bytes where "ALPN = as_bytes ''/uat/0.2''"

datatype relay_mode = RelayMode_Default | RelayMode_Disabled

record node_bind_opts =
  nbo_relay :: bool
  nbo_rate_limits :: rate_limit_config

definition NodeBindOpts_default :: node_bind_opts where
  "NodeBindOpts_default = \<lparr>nbo_relay = False, nbo_rate_limits = RateLimitConfig_defaults\<rparr>"

definition NodeBindOpts_disabled :: node_bind_opts where
  "NodeBindOpts_disabled = \<lparr>nbo_relay = False, nbo_rate_limits = RateLimitConfig_defaults\<rparr>"

definition NodeBindOpts_with_relay :: node_bind_opts where
  "NodeBindOpts_with_relay = \<lparr>nbo_relay = True, nbo_rate_limits = RateLimitConfig_defaults\<rparr>"

definition with_rate_limits :: "node_bind_opts \<Rightarrow> rate_limit_config \<Rightarrow> node_bind_opts" where
  "with_rate_limits opts rl = opts\<lparr>nbo_rate_limits := rl\<rparr>"

definition relay_mode_of :: "node_bind_opts \<Rightarrow> relay_mode" where
  "relay_mode_of opts = (if nbo_relay opts then RelayMode_Default else RelayMode_Disabled)"

record dial_finish =
  df_outcome :: outcome
  df_rtt :: "nat option"

section \<open>The node\<close>

text \<open>The bounded channel of finished inbound calls: \<open>try_send\<close> drops the event when it is full
  or its receiver is gone.\<close>

record inbox_channel =
  ch_capacity :: nat
  ch_queue :: "inbox_event list"
  ch_closed :: bool

definition inbox_try_send :: "inbox_channel \<Rightarrow> inbox_event \<Rightarrow> inbox_channel" where
  "inbox_try_send ch ev =
     (if ch_closed ch \<or> length (ch_queue ch) \<ge> ch_capacity ch then ch
      else ch\<lparr>ch_queue := ch_queue ch @ [ev]\<rparr>)"

record ('pk, 's, 'sk, 'snk) node =
  nd_identity :: "'sk identity"
  nd_verify :: "('pk, 's) policy"
  nd_cancelled :: bool
  nd_tracker_closed :: bool
  nd_callee_behavior :: callee_behavior
  nd_records :: 'snk
  nd_rate_limiter :: rate_limiter
  nd_inbox :: inbox_channel
  nd_inbox_rx_taken :: bool
  nd_sock_home :: "string option"
  nd_endpoint_closed :: bool

text \<open>\<open>bind_endpoint secret alpn relay transport\<close> is iroh's builder.\<close>

type_synonym 'sk bind_endpoint =
  "'sk \<Rightarrow> bytes \<Rightarrow> relay_mode \<Rightarrow> transport_config \<Rightarrow> (unit, string) result"

definition Node_bind_with_opts ::
  "'sk bind_endpoint \<Rightarrow> 'sk identity \<Rightarrow> ('pk, 's) policy \<Rightarrow> callee_behavior \<Rightarrow> 'snk \<Rightarrow> node_bind_opts
     \<Rightarrow> (('pk, 's, 'sk, 'snk) node, daemon_error) result" where
  "Node_bind_with_opts bind_endpoint identity verify behavior records opts =
     and_then (map_err DaemonError_Bind
       (bind_endpoint (identity_secret identity) ALPN (relay_mode_of opts) uat_transport_config)) (\<lambda>_.
     Ok \<lparr>nd_identity = identity, nd_verify = verify, nd_cancelled = False, nd_tracker_closed = False,
         nd_callee_behavior = behavior, nd_records = records,
         nd_rate_limiter = RateLimiter_new (nbo_rate_limits opts),
         nd_inbox = \<lparr>ch_capacity = 32, ch_queue = [], ch_closed = False\<rparr>,
         nd_inbox_rx_taken = False, nd_sock_home = None, nd_endpoint_closed = False\<rparr>)"

definition Node_bind_with_behavior_and_sink ::
  "'sk bind_endpoint \<Rightarrow> 'sk identity \<Rightarrow> ('pk, 's) policy \<Rightarrow> callee_behavior \<Rightarrow> 'snk
     \<Rightarrow> (('pk, 's, 'sk, 'snk) node, daemon_error) result" where
  "Node_bind_with_behavior_and_sink bind_endpoint identity verify behavior records =
     Node_bind_with_opts bind_endpoint identity verify behavior records NodeBindOpts_default"

text \<open>\<open>tracing\<close> is the sink that only logs.\<close>

definition Node_bind_with_behavior ::
  "'snk \<Rightarrow> 'sk bind_endpoint \<Rightarrow> 'sk identity \<Rightarrow> ('pk, 's) policy \<Rightarrow> callee_behavior
     \<Rightarrow> (('pk, 's, 'sk, 'snk) node, daemon_error) result" where
  "Node_bind_with_behavior tracing bind_endpoint identity verify behavior =
     Node_bind_with_behavior_and_sink bind_endpoint identity verify behavior tracing"

definition Node_bind ::
  "'snk \<Rightarrow> 'sk bind_endpoint \<Rightarrow> 'sk identity \<Rightarrow> ('pk, 's) policy
     \<Rightarrow> (('pk, 's, 'sk, 'snk) node, daemon_error) result" where
  "Node_bind tracing bind_endpoint identity verify =
     Node_bind_with_behavior tracing bind_endpoint identity verify StubComplete"

text \<open>The \<open>bind_at\<close> family loads or creates the identity under the UAT home and then binds.\<close>

definition bind_at_then ::
  "('fs, 'h) id_os \<Rightarrow> 'sk key_lib \<Rightarrow> 'sk \<Rightarrow> 'fs \<Rightarrow> string \<Rightarrow> ('sk identity \<Rightarrow> ('n, daemon_error) result)
     \<Rightarrow> ('n, daemon_error) result \<times> 'fs" where
  "bind_at_then os keys secret fs home bind =
     (case load_or_create_at os keys secret fs (path_join home IDENTITY_FILE) of
        (Err e, fs) \<Rightarrow> (Err (DaemonError_Identity e), fs)
      | (Ok identity, fs) \<Rightarrow> (bind identity, fs))"

definition Node_bind_at ::
  "('fs, 'h) id_os \<Rightarrow> 'sk key_lib \<Rightarrow> 'sk \<Rightarrow> 'fs \<Rightarrow> 'snk \<Rightarrow> 'sk bind_endpoint \<Rightarrow> string \<Rightarrow> ('pk, 's) policy
     \<Rightarrow> (('pk, 's, 'sk, 'snk) node, daemon_error) result \<times> 'fs" where
  "Node_bind_at os keys secret fs tracing bind_endpoint home verify =
     bind_at_then os keys secret fs home
       (\<lambda>identity. Node_bind tracing bind_endpoint identity verify)"

definition Node_bind_at_with_behavior ::
  "('fs, 'h) id_os \<Rightarrow> 'sk key_lib \<Rightarrow> 'sk \<Rightarrow> 'fs \<Rightarrow> 'snk \<Rightarrow> 'sk bind_endpoint \<Rightarrow> string \<Rightarrow> ('pk, 's) policy
     \<Rightarrow> callee_behavior \<Rightarrow> (('pk, 's, 'sk, 'snk) node, daemon_error) result \<times> 'fs" where
  "Node_bind_at_with_behavior os keys secret fs tracing bind_endpoint home verify behavior =
     bind_at_then os keys secret fs home
       (\<lambda>identity. Node_bind_with_behavior tracing bind_endpoint identity verify behavior)"

definition Node_bind_at_with_behavior_and_sink ::
  "('fs, 'h) id_os \<Rightarrow> 'sk key_lib \<Rightarrow> 'sk \<Rightarrow> 'fs \<Rightarrow> 'sk bind_endpoint \<Rightarrow> string \<Rightarrow> ('pk, 's) policy
     \<Rightarrow> callee_behavior \<Rightarrow> 'snk \<Rightarrow> (('pk, 's, 'sk, 'snk) node, daemon_error) result \<times> 'fs" where
  "Node_bind_at_with_behavior_and_sink os keys secret fs bind_endpoint home verify behavior records =
     bind_at_then os keys secret fs home
       (\<lambda>identity. Node_bind_with_behavior_and_sink bind_endpoint identity verify behavior records)"

definition Node_bind_at_with_opts ::
  "('fs, 'h) id_os \<Rightarrow> 'sk key_lib \<Rightarrow> 'sk \<Rightarrow> 'fs \<Rightarrow> 'sk bind_endpoint \<Rightarrow> string \<Rightarrow> ('pk, 's) policy
     \<Rightarrow> callee_behavior \<Rightarrow> 'snk \<Rightarrow> node_bind_opts
     \<Rightarrow> (('pk, 's, 'sk, 'snk) node, daemon_error) result \<times> 'fs" where
  "Node_bind_at_with_opts os keys secret fs bind_endpoint home verify behavior records opts =
     bind_at_then os keys secret fs home
       (\<lambda>identity. Node_bind_with_opts bind_endpoint identity verify behavior records opts)"

definition Node_node_id :: "('pk, 's, 'sk, 'snk) node \<Rightarrow> node_id" where
  "Node_node_id nd = identity_node_id (nd_identity nd)"

definition local_sock_path :: "('pk, 's, 'sk, 'snk) node \<Rightarrow> string option" where
  "local_sock_path nd = map_option (\<lambda>home. path_join home SOCK_FILE) (nd_sock_home nd)"

section \<open>The accept loop\<close>

text \<open>One answer per iteration; the incoming connections it spawns handlers for, and whether it
  has ended.\<close>

datatype 'i accept_answer = Acc_Cancelled | Acc_Incoming "'i option"

fun accept_loop :: "'i accept_answer list \<Rightarrow> 'i list \<times> bool" where
  "accept_loop [] = ([], False)"
| "accept_loop (Acc_Cancelled # as) = ([], True)"
| "accept_loop (Acc_Incoming None # as) = ([], True)"
| "accept_loop (Acc_Incoming (Some i) # as) = (case accept_loop as of (is, e) \<Rightarrow> (i # is, e))"

section \<open>One inbound connection\<close>

text \<open>Rust's derived \<open>Debug\<close> of a \<open>NodeId\<close>: the tuple struct with the list of its bytes.\<close>

fun comma_separated :: "string list \<Rightarrow> string" where
  "comma_separated [] = []"
| "comma_separated [s] = s"
| "comma_separated (s # ss) = s @ '', '' @ comma_separated ss"

definition node_id_debug :: "node_id \<Rightarrow> string" where
  "node_id_debug n =
     ''NodeId(['' @ comma_separated (map (\<lambda>b. decimal (unat b)) (NodeId_as_bytes n)) @ ''])''"

text \<open>The record of a connection that was closed before its call task.\<close>

definition refused_record ::
  "system_time \<Rightarrow> nat \<Rightarrow> nat \<Rightarrow> node_id \<Rightarrow> auth_outcome \<Rightarrow> close_code \<Rightarrow> conn_view \<Rightarrow> call_record" where
  "refused_record started_at start t_end peer authorization code conn =
     (case connection_bytes conn of (bytes_sent, bytes_recv) \<Rightarrow>
        \<lparr>cr_schema_version = CALL_RECORD_SCHEMA_VERSION, cr_started_at = started_at, cr_task = None,
         cr_direction = Direction_Inbound, cr_peer = peer, cr_authorization = authorization,
         cr_outcome = Outcome_Closed code, cr_path = connection_path conn,
         cr_bytes_sent = bytes_sent, cr_bytes_recv = bytes_recv,
         cr_wall_time_ms = duration_ms (t_end - start)\<rparr>)"

text \<open>
  The gates of \<open>handle_incoming\<close>: the handshake, the allowlist, the rate limiter. \<open>incoming\<close> is the
  handshake's answer (the remote key and the connection), \<open>admit_now\<close> the limiter's clock, \<open>t_end\<close>
  the clock of the record.
\<close>

datatype gate = Gate_Done "(unit, daemon_error) result" | Gate_Call node_id rate_limit_permit

record gate_env =
  ge_incoming :: "(bytes \<times> conn_view, string) result"
  ge_started_at :: system_time
  ge_start :: nat
  ge_admit_now :: instant
  ge_end :: nat

text \<open>
  What a task does to the objects it shares with the other tasks once its fate is decided: it emits a
  record, puts a notice in the inbox and drops its permit, each under a lock of its own. Between
  them the other tasks of the node may run, so a handler is given as its decision and the effects that
  are left for it to perform, in order.
\<close>

datatype node_effect =
    Eff_Record call_record
  | Eff_Notify inbox_event
  | Eff_Release rate_limit_permit

fun perform_effect :: "('snk \<Rightarrow> call_record \<Rightarrow> 'snk) \<Rightarrow> node_effect
    \<Rightarrow> ('pk, 's, 'sk, 'snk) node \<Rightarrow> ('pk, 's, 'sk, 'snk) node" where
  "perform_effect emit (Eff_Record r) nd = nd\<lparr>nd_records := emit (nd_records nd) r\<rparr>"
| "perform_effect emit (Eff_Notify ev) nd = nd\<lparr>nd_inbox := inbox_try_send (nd_inbox nd) ev\<rparr>"
| "perform_effect emit (Eff_Release permit) nd =
     nd\<lparr>nd_rate_limiter := RateLimitPermit_drop permit (nd_rate_limiter nd)\<rparr>"

definition perform_effects :: "('snk \<Rightarrow> call_record \<Rightarrow> 'snk) \<Rightarrow> node_effect list
    \<Rightarrow> ('pk, 's, 'sk, 'snk) node \<Rightarrow> ('pk, 's, 'sk, 'snk) node" where
  "perform_effects emit effs nd = foldl (\<lambda>nd eff. perform_effect emit eff nd) nd effs"

definition gate_decision ::
  "gate_env \<Rightarrow> ('pk, 's, 'sk, 'snk) node
     \<Rightarrow> (gate \<times> wire_action list) \<times> node_effect list \<times> ('pk, 's, 'sk, 'snk) node" where
  "gate_decision ge nd =
     (case ge_incoming ge of
        Err e \<Rightarrow> ((Gate_Done (Err (DaemonError_Connect e)), []), [], nd)
      | Ok (key, conn) \<Rightarrow>
          (let peer = public_key_to_node_id key in
           if \<not> verify_peer (nd_verify nd) peer
           then ((Gate_Done (Ok ()), [close_with CloseCode_Normal]),
                 [Eff_Record (refused_record (ge_started_at ge) (ge_start ge) (ge_end ge) peer
                    (AuthOutcome_Denied ''not on allowlist'') CloseCode_Normal conn)], nd)
           else case try_admit_at (nd_rate_limiter nd) peer (ge_admit_now ge) of
                  (Ok permit, lim) \<Rightarrow> ((Gate_Call peer permit, []), [], nd\<lparr>nd_rate_limiter := lim\<rparr>)
                | (Err reason, lim) \<Rightarrow>
                    ((Gate_Done (Ok ()), [close_with CloseCode_RateLimited]),
                     [Eff_Record (refused_record (ge_started_at ge) (ge_start ge) (ge_end ge) peer
                        AuthOutcome_NotReached CloseCode_RateLimited conn)],
                     nd\<lparr>nd_rate_limiter := lim\<rparr>)))"

definition incoming_gate ::
  "('snk \<Rightarrow> call_record \<Rightarrow> 'snk) \<Rightarrow> gate_env \<Rightarrow> ('pk, 's, 'sk, 'snk) node
     \<Rightarrow> (gate \<times> wire_action list) \<times> ('pk, 's, 'sk, 'snk) node" where
  "incoming_gate emit ge nd =
     (case gate_decision ge nd of (r, effs, nd) \<Rightarrow> (r, perform_effects emit effs nd))"

text \<open>
  The admitted call. When its first \<open>select!\<close> completes, the frame it read is authorized against the
  policy all tasks share (\<open>incoming_submit\<close>). When it ends (\<open>call_finish\<close>, which runs the task on the
  policy as it was at that moment), its record is left to be emitted, the inbox to be notified of an
  outcome, and its permit to be dropped, by a result or by a panic.
\<close>

record callee_env =
  ce_view :: conn_view
  ce_end :: nat
  ce_started :: system_time
  ce_start :: nat
  ce_now :: system_time
  ce_accepted :: stream_answer
  ce_first :: "first_select option"
  ce_writes :: "write_answer list"
  ce_selects :: "callee_select list"
  ce_linger :: "linger option"

definition incoming_submit ::
  "(bytes \<Rightarrow> message option) \<Rightarrow> ('pk, 'tok, 'az) biscuit_lib \<Rightarrow> 's spent_ops \<Rightarrow> node_id
     \<Rightarrow> stream_answer \<Rightarrow> system_time \<Rightarrow> first_select option
     \<Rightarrow> ('pk, 's, 'sk, 'snk) node \<Rightarrow> ('pk, 's, 'sk, 'snk) node" where
  "incoming_submit from_slice lib ops peer accepted now first nd =
     (if verify_peer (nd_verify nd) peer \<and> accepted = Stream_Opened
      then nd\<lparr>nd_verify := snd (authorize_first from_slice lib ops peer (nd_verify nd) now first)\<rparr>
      else nd)"

definition call_finish ::
  "(bytes \<Rightarrow> message option) \<Rightarrow> ('pk, 'tok, 'az) biscuit_lib \<Rightarrow> 's spent_ops \<Rightarrow> callee_behavior
     \<Rightarrow> callee_env \<Rightarrow> node_id \<Rightarrow> rate_limit_permit \<Rightarrow> ('pk, 's) policy
     \<Rightarrow> ((unit, daemon_error) result progress \<times> wire_action list) \<times> node_effect list" where
  "call_finish from_slice lib ops behavior env peer permit p =
     (case run_callee_with (\<lambda>emitted r. emitted @ [r]) (ce_view env) (ce_end env) [] from_slice lib ops
             (ce_started env) (ce_start env) peer p (ce_now env) behavior
             (ce_accepted env) (ce_first env) (ce_writes env) (ce_selects env) (ce_linger env) of
        ((call, acts, emitted), _) \<Rightarrow>
          (let records = map Eff_Record emitted; release = [Eff_Release permit] in
           case call of
             Waiting \<Rightarrow> ((Waiting, acts), records)
           | Panicked \<Rightarrow> ((Panicked, acts), records @ release)
           | Done (Ok out) \<Rightarrow>
               ((Done (Ok ()), acts),
                records @ Eff_Notify \<lparr>ev_peer = node_id_debug peer, ev_outcome = out\<rparr> # release)
           | Done (Err CallError_Cancelled) \<Rightarrow> ((Done (Ok ()), acts), records @ release)
           | Done (Err err) \<Rightarrow> ((Done (Err (DaemonError_Call err)), acts), records @ release)))"

definition incoming_call ::
  "('snk \<Rightarrow> call_record \<Rightarrow> 'snk) \<Rightarrow> (bytes \<Rightarrow> message option) \<Rightarrow> ('pk, 'tok, 'az) biscuit_lib
     \<Rightarrow> 's spent_ops \<Rightarrow> callee_env \<Rightarrow> node_id \<Rightarrow> rate_limit_permit \<Rightarrow> ('pk, 's) policy
     \<Rightarrow> ('pk, 's, 'sk, 'snk) node
     \<Rightarrow> ((unit, daemon_error) result progress \<times> wire_action list) \<times> ('pk, 's, 'sk, 'snk) node" where
  "incoming_call emit from_slice lib ops env peer permit p nd =
     (case call_finish from_slice lib ops (nd_callee_behavior nd) env peer permit p of
        (r, effs) \<Rightarrow> (r, perform_effects emit effs nd))"

text \<open>
  \<open>others\<close> and \<open>others'\<close> are what the other tasks of the node do to it between the admission and the
  first frame, and between the first frame and the end of the call.
\<close>

definition handle_incoming ::
  "('snk \<Rightarrow> call_record \<Rightarrow> 'snk) \<Rightarrow> (bytes \<Rightarrow> message option) \<Rightarrow> ('pk, 'tok, 'az) biscuit_lib
     \<Rightarrow> 's spent_ops \<Rightarrow> gate_env \<Rightarrow> (('pk, 's, 'sk, 'snk) node \<Rightarrow> ('pk, 's, 'sk, 'snk) node)
     \<Rightarrow> callee_env \<Rightarrow> (('pk, 's, 'sk, 'snk) node \<Rightarrow> ('pk, 's, 'sk, 'snk) node)
     \<Rightarrow> ('pk, 's, 'sk, 'snk) node
     \<Rightarrow> ((unit, daemon_error) result progress \<times> wire_action list) \<times> ('pk, 's, 'sk, 'snk) node" where
  "handle_incoming emit from_slice lib ops ge others env others' nd =
     (case incoming_gate emit ge nd of
        ((Gate_Done r, acts), nd) \<Rightarrow> ((Done r, acts), nd)
      | ((Gate_Call peer permit, acts), nd) \<Rightarrow>
          (let nd = others nd; p = nd_verify nd;
               nd = others' (incoming_submit from_slice lib ops peer (ce_accepted env) (ce_now env)
                      (ce_first env) nd) in
           case incoming_call emit from_slice lib ops env peer permit p nd of
             ((r, acts'), nd) \<Rightarrow> ((r, acts @ acts'), nd)))"

section \<open>Dialing\<close>

record caller_env =
  de_connect :: "(bytes \<times> conn_view, string) result"
  de_view :: conn_view
  de_end :: nat
  de_started :: system_time
  de_start :: nat
  de_opened :: stream_answer
  de_write :: write_answer
  de_close_reason :: "conn_error option"
  de_selects :: "caller_select list"

definition rtt_line :: "nat option \<Rightarrow> string" where
  "rtt_line rtt =
     (case rtt of
        Some ns \<Rightarrow> ''rtt_ms='' @ decimal (unat (duration_ms ns))
      | None \<Rightarrow> ''rtt_ms=unknown'')"

text \<open>The result, what goes on the wire, what is printed, the node.\<close>

definition Node_dial ::
  "('snk \<Rightarrow> call_record \<Rightarrow> 'snk) \<Rightarrow> caller_env \<Rightarrow> message \<Rightarrow> ('pk, 's, 'sk, 'snk) node
     \<Rightarrow> ((dial_finish, daemon_error) result progress \<times> wire_action list \<times> string list)
        \<times> ('pk, 's, 'sk, 'snk) node" where
  "Node_dial emit env submit nd =
     (case de_connect env of
        Err e \<Rightarrow> ((Done (Err (DaemonError_Connect e)), [], []), nd)
      | Ok (key, conn) \<Rightarrow>
          (let rtt = connection_rtt conn; peer = public_key_to_node_id key in
           case run_caller emit (de_view env) (de_end env) (nd_records nd) (de_started env)
                  (de_start env) peer submit (de_opened env) (de_write env) (de_close_reason env)
                  (de_selects env) of
             (call, acts, sink) \<Rightarrow>
               (let nd = nd\<lparr>nd_records := sink\<rparr> in
                case call of
                  Waiting \<Rightarrow> ((Waiting, acts, [rtt_line rtt]), nd)
                | Panicked \<Rightarrow> ((Panicked, acts, [rtt_line rtt]), nd)
                | Done (Ok out) \<Rightarrow>
                    ((Done (Ok \<lparr>df_outcome = out, df_rtt = rtt\<rparr>), acts, [rtt_line rtt]), nd)
                | Done (Err e) \<Rightarrow>
                    ((Done (Err (DaemonError_Call e)), acts, [rtt_line rtt]), nd))))"

section \<open>The local socket and shutdown\<close>

text \<open>On success the listener is what the local accept loop is spawned on.\<close>

definition spawn_local_socket ::
  "('fs, 'st, 'ln) sock_os \<Rightarrow> 'fs \<Rightarrow> string \<Rightarrow> ('pk, 's, 'sk, 'snk) node
     \<Rightarrow> ('ln, daemon_error) result \<times> ('pk, 's, 'sk, 'snk) node \<times> 'fs" where
  "spawn_local_socket os fs home nd =
     (case bind_sock os fs home of
        (Err e, fs) \<Rightarrow> (Err (DaemonError_LocalSock e), nd, fs)
      | (Ok listener, fs) \<Rightarrow>
          (let nd = nd\<lparr>nd_sock_home := Some home\<rparr> in
           if nd_inbox_rx_taken nd
           then (Err (DaemonError_Bind ''local socket inbox already taken''), nd, fs)
           else (Ok listener, nd\<lparr>nd_inbox_rx_taken := True\<rparr>, fs)))"

text \<open>\<open>wait\<close> is what the tracked tasks do to the node and the files until the last of them ended.\<close>

definition Node_shutdown ::
  "('fs, 'st, 'ln) sock_os
     \<Rightarrow> (('pk, 's, 'sk, 'snk) node \<times> 'fs \<Rightarrow> ('pk, 's, 'sk, 'snk) node \<times> 'fs)
     \<Rightarrow> ('pk, 's, 'sk, 'snk) node \<times> 'fs \<Rightarrow> ('pk, 's, 'sk, 'snk) node \<times> 'fs" where
  "Node_shutdown os wait st =
     (case st of (nd, fs) \<Rightarrow>
        case wait (nd\<lparr>nd_cancelled := True, nd_tracker_closed := True\<rparr>, fs) of (nd, fs) \<Rightarrow>
          (let fs = (case nd_sock_home nd of Some home \<Rightarrow> remove_sock_file os fs home | None \<Rightarrow> fs) in
           (nd\<lparr>nd_sock_home := None, nd_endpoint_closed := True\<rparr>, fs)))"

text \<open>A node of the allowlist [1] and an idle connection, for the witnesses.\<close>

definition sample_node :: "(nat, memory_spent_set, unit, memory_sink) node" where
  "sample_node =
     \<lparr>nd_identity = \<lparr>identity_secret = (), identity_node_id = NodeId [0]\<rparr>,
      nd_verify = Policy_allow (NodeId [1]), nd_cancelled = False, nd_tracker_closed = False,
      nd_callee_behavior = StubComplete, nd_records = MemoryCallRecordSink_new,
      nd_rate_limiter = RateLimiter_new RateLimitConfig_defaults,
      nd_inbox = \<lparr>ch_capacity = 32, ch_queue = [], ch_closed = False\<rparr>,
      nd_inbox_rx_taken = False, nd_sock_home = None, nd_endpoint_closed = False\<rparr>"

definition sample_view :: conn_view where
  "sample_view = \<lparr>cv_udp_tx = 0, cv_udp_rx = 0, cv_paths = []\<rparr>"

end
