(* ===== verification/Local_Socket.thy ===== *)
theory Local_Socket
  imports Node
begin

text \<open>
  Sessions on the local control socket, src/crates/uat-node/src/local.rs: the client's one-shot
  round trip, the daemon's handler of a client, the slot of the latest inbox event and the accept
  loop. The Unix stream, the parsers of endpoint ids and socket addresses (iroh and the standard
  library) and Rust's \<open>Debug\<close> texts are parameters.
\<close>

section \<open>Errors and streams\<close>

datatype local_client_error =
    LocalClientError_NotRunning string
  | LocalClientError_StaleSocket string
  | LocalClientError_Daemon string
  | LocalClientError_Codec local_codec_error
  | LocalClientError_Io io_error
  | LocalClientError_DaemonCall daemon_error

definition LocalCodecError_to_string :: "local_codec_error \<Rightarrow> string" where
  "LocalCodecError_to_string e =
     (case e of
        LocalCodecError_FrameTooLarge \<Rightarrow> ''frame too large''
      | LocalCodecError_Truncated \<Rightarrow> ''truncated frame''
      | LocalCodecError_BadLength \<Rightarrow> ''len inconsistent with hdr_len''
      | LocalCodecError_MalformedHeader \<Rightarrow> ''malformed header json''
      | LocalCodecError_HeaderTooLarge \<Rightarrow> ''header too large to encode''
      | LocalCodecError_EncodeTooLarge \<Rightarrow> ''frame too large to encode'')"

definition LocalClientError_to_string :: "local_client_error \<Rightarrow> string" where
  "LocalClientError_to_string e =
     (case e of
        LocalClientError_NotRunning path \<Rightarrow>
          ''uat-node is not running (no socket at '' @ path @
          ''); start the node with `uat-node listen`''
      | LocalClientError_StaleSocket path \<Rightarrow>
          ''stale socket at '' @ path @
          '' (daemon not running); remove it and start the node with `uat-node listen`''
      | LocalClientError_Daemon s \<Rightarrow> s
      | LocalClientError_Codec c \<Rightarrow> LocalCodecError_to_string c
      | LocalClientError_Io io \<Rightarrow> io_message io
      | LocalClientError_DaemonCall d \<Rightarrow> DaemonError_to_string d)"

record 's unix_io =
  ux_read_exact :: "'s \<Rightarrow> nat \<Rightarrow> (bytes, io_error) result \<times> 's"
  ux_write_all :: "'s \<Rightarrow> bytes \<Rightarrow> (unit, io_error) result \<times> 's"
  ux_flush :: "'s \<Rightarrow> (unit, io_error) result \<times> 's"

definition local_read_frame :: "'s unix_io \<Rightarrow> 's \<Rightarrow> (bytes, local_client_error) result \<times> 's" where
  "local_read_frame io reader =
     (case ux_read_exact io reader 4 of
        (Err e, reader) \<Rightarrow> (Err (LocalClientError_Io e), reader)
      | (Ok len_buf, reader) \<Rightarrow>
          (let len = (from_be_bytes len_buf :: u32) in
           if len > MAX_FRAME
           then (Err (LocalClientError_Codec LocalCodecError_FrameTooLarge), reader)
           else case ux_read_exact io reader (unat len) of
                  (Err e, reader) \<Rightarrow> (Err (LocalClientError_Io e), reader)
                | (Ok payload, reader) \<Rightarrow> (Ok (len_buf @ payload), reader)))"

definition local_write_frame ::
  "'s unix_io \<Rightarrow> 's \<Rightarrow> bytes \<Rightarrow> (unit, local_client_error) result \<times> 's" where
  "local_write_frame io writer frame =
     (case ux_write_all io writer frame of
        (Err e, writer) \<Rightarrow> (Err (LocalClientError_Io e), writer)
      | (Ok _, writer) \<Rightarrow>
          (case ux_flush io writer of
             (Err e, writer) \<Rightarrow> (Err (LocalClientError_Io e), writer)
           | (Ok _, writer) \<Rightarrow> (Ok (), writer)))"

section \<open>The client\<close>

definition connect_local ::
  "('fs, 'st, 'ln) sock_os \<Rightarrow> 'fs \<Rightarrow> string \<Rightarrow> ('st, local_client_error) result \<times> 'fs" where
  "connect_local os fs home =
     (let path = sock_path home in
      if \<not> so_exists os fs path then (Err (LocalClientError_NotRunning path), fs)
      else case so_connect os fs path of
             (Ok stream, fs) \<Rightarrow> (Ok stream, fs)
           | (Err _, fs) \<Rightarrow> (Err (LocalClientError_StaleSocket path), fs))"

text \<open>The two halves of \<open>roundtrip\<close>: the daemon acts between them.\<close>

record local_json =
  lj_request_to_vec :: "local_request \<Rightarrow> bytes option"
  lj_request_from_slice :: "bytes \<Rightarrow> local_request option"
  lj_response_to_vec :: "local_response \<Rightarrow> bytes option"
  lj_response_from_slice :: "bytes \<Rightarrow> local_response option"

definition roundtrip_send ::
  "local_json \<Rightarrow> 's unix_io \<Rightarrow> 's \<Rightarrow> local_request \<Rightarrow> (unit, local_client_error) result \<times> 's" where
  "roundtrip_send json io stream req =
     (case encode_request (lj_request_to_vec json) req [] of
        Err e \<Rightarrow> (Err (LocalClientError_Codec e), stream)
      | Ok buf \<Rightarrow> local_write_frame io stream buf)"

definition roundtrip_recv ::
  "local_json \<Rightarrow> 's unix_io \<Rightarrow> 's \<Rightarrow> (local_response, local_client_error) result \<times> 's" where
  "roundtrip_recv json io stream =
     (case local_read_frame io stream of
        (Err e, stream) \<Rightarrow> (Err e, stream)
      | (Ok frame, stream) \<Rightarrow>
          (map_err LocalClientError_Codec (decode_response (lj_response_from_slice json) frame), stream))"

definition roundtrip ::
  "local_json \<Rightarrow> 's unix_io \<Rightarrow> 's \<Rightarrow> local_request \<Rightarrow> (local_response, local_client_error) result \<times> 's" where
  "roundtrip json io stream req =
     (case roundtrip_send json io stream req of
        (Err e, stream) \<Rightarrow> (Err e, stream)
      | (Ok _, stream) \<Rightarrow> roundtrip_recv json io stream)"

text \<open>\<open>show_addr\<close> is \<open>SocketAddr\<close>'s \<open>Display\<close>, \<open>debug\<close> the \<open>Debug\<close> text of a response.\<close>

definition dial_via_sock ::
  "('fs, 's, 'ln) sock_os \<Rightarrow> local_json \<Rightarrow> 's unix_io \<Rightarrow> ('a \<Rightarrow> string) \<Rightarrow> (local_response \<Rightarrow> string) \<Rightarrow> 'fs
     \<Rightarrow> string \<Rightarrow> string \<Rightarrow> 'a list \<Rightarrow> message
     \<Rightarrow> (outcome \<times> u64 option, local_client_error) result \<times> 'fs" where
  "dial_via_sock os json io show_addr debug fs home peer addrs submit =
     (case submit of
        Message_Submit task deadline content_type credential body \<Rightarrow>
          (case connect_local os fs home of
             (Err e, fs) \<Rightarrow> (Err e, fs)
           | (Ok stream, fs) \<Rightarrow>
               (let req = LocalRequest_Dial peer (map show_addr addrs) task deadline content_type
                            credential body in
                case fst (roundtrip json io stream req) of
                  Err e \<Rightarrow> (Err e, fs)
                | Ok (LocalResponse_DialResult outcome rtt_ms) \<Rightarrow> (Ok (outcome, rtt_ms), fs)
                | Ok (LocalResponse_Error message) \<Rightarrow> (Err (LocalClientError_Daemon message), fs)
                | Ok other \<Rightarrow>
                    (Err (LocalClientError_Daemon (''unexpected response to dial: '' @ debug other)), fs)))
      | _ \<Rightarrow> (Err (LocalClientError_Daemon ''dial requires a Submit message''), fs))"

definition inbox_via_sock ::
  "('fs, 's, 'ln) sock_os \<Rightarrow> local_json \<Rightarrow> 's unix_io \<Rightarrow> 'fs \<Rightarrow> string
     \<Rightarrow> (local_response, local_client_error) result \<times> 'fs" where
  "inbox_via_sock os json io fs home =
     (case connect_local os fs home of
        (Err e, fs) \<Rightarrow> (Err e, fs)
      | (Ok stream, fs) \<Rightarrow> (fst (roundtrip json io stream LocalRequest_Inbox), fs))"

section \<open>The daemon\<close>

record 'a endpoint_addr =
  ea_id :: bytes
  ea_addrs :: "'a list"

record 'a addr_lib =
  al_parse_id :: "string \<Rightarrow> (bytes, string) result"
  al_parse_addr :: "string \<Rightarrow> ('a, string) result"
  al_debug_str :: "string \<Rightarrow> string"

text \<open>The loop over the addresses stops at the first that does not parse.\<close>

fun parse_addrs :: "'a addr_lib \<Rightarrow> string list \<Rightarrow> ('a list, string) result" where
  "parse_addrs lib [] = Ok []"
| "parse_addrs lib (a # as) =
     (case al_parse_addr lib a of
        Err e \<Rightarrow> Err (''invalid addr '' @ al_debug_str lib a @ '': '' @ e)
      | Ok sa \<Rightarrow> and_then (parse_addrs lib as) (\<lambda>sas. Ok (sa # sas)))"

definition build_dial ::
  "'a addr_lib \<Rightarrow> string \<Rightarrow> string list \<Rightarrow> task_id \<Rightarrow> deadline \<Rightarrow> content_type \<Rightarrow> credential option
     \<Rightarrow> bytes \<Rightarrow> ('a endpoint_addr \<times> message, string) result" where
  "build_dial lib peer addrs task deadline content_type credential body =
     (case al_parse_id lib peer of
        Err e \<Rightarrow> Err (''invalid peer endpoint id: '' @ e)
      | Ok peer_id \<Rightarrow>
          if addrs = [] then Err ''dial requires at least one addr''
          else and_then (parse_addrs lib addrs) (\<lambda>sock_addrs.
            Ok (\<lparr>ea_id = peer_id, ea_addrs = sock_addrs\<rparr>,
                Message_Submit task deadline content_type credential body)))"

text \<open>
  The answer to one request. \<open>dial\<close> gives the environment of the outbound call that
  \<open>Node::dial\<close> makes for an address and a Submit; the second state is the inbox slot.
\<close>

definition client_response ::
  "('snk \<Rightarrow> call_record \<Rightarrow> 'snk) \<Rightarrow> 'a addr_lib \<Rightarrow> ('a endpoint_addr \<Rightarrow> message \<Rightarrow> caller_env)
     \<Rightarrow> local_request \<Rightarrow> ('pk, 'st, 'sk, 'snk) node \<Rightarrow> inbox_event option
     \<Rightarrow> local_response progress \<times> ('pk, 'st, 'sk, 'snk) node \<times> inbox_event option" where
  "client_response emit lib dial req nd latest =
     (case req of
        LocalRequest_Dial peer addrs task deadline content_type credential body \<Rightarrow>
          (case build_dial lib peer addrs task deadline content_type credential body of
             Err message \<Rightarrow> (Done (LocalResponse_Error message), nd, latest)
           | Ok (addr, submit) \<Rightarrow>
               (case Node_dial emit (dial addr submit) submit nd of
                  ((Done (Ok finish), _), nd) \<Rightarrow>
                    (Done (LocalResponse_DialResult (df_outcome finish)
                             (map_option duration_ms (df_rtt finish))), nd, latest)
                | ((Done (Err err), _), nd) \<Rightarrow>
                    (Done (LocalResponse_Error (DaemonError_to_string err)), nd, latest)
                | ((Waiting, _), nd) \<Rightarrow> (Waiting, nd, latest)
                | ((Panicked, _), nd) \<Rightarrow> (Panicked, nd, latest)))
      | LocalRequest_Inbox \<Rightarrow>
          (case latest of
             Some ev \<Rightarrow> (Done (LocalResponse_InboxEvent (ev_peer ev) (ev_outcome ev)), nd, None)
           | None \<Rightarrow> (Done LocalResponse_InboxIdle, nd, None))
      | LocalRequest_Message _ \<Rightarrow>
          (Done (LocalResponse_Error (''message forwarding on the local socket requires an active '' @
             ''call session (M1 dial is one-shot; use Dial)'')), nd, latest))"

definition handle_client ::
  "('snk \<Rightarrow> call_record \<Rightarrow> 'snk) \<Rightarrow> local_json \<Rightarrow> 's unix_io \<Rightarrow> 'a addr_lib
     \<Rightarrow> ('a endpoint_addr \<Rightarrow> message \<Rightarrow> caller_env) \<Rightarrow> 's \<Rightarrow> ('pk, 'st, 'sk, 'snk) node
     \<Rightarrow> inbox_event option
     \<Rightarrow> (unit, local_client_error) result progress \<times> 's \<times> ('pk, 'st, 'sk, 'snk) node \<times> inbox_event option"
where
  "handle_client emit json io lib dial stream nd latest =
     (case local_read_frame io stream of
        (Err e, stream) \<Rightarrow> (Done (Err e), stream, nd, latest)
      | (Ok frame, stream) \<Rightarrow>
          (case decode_request (lj_request_from_slice json) frame of
             Err e \<Rightarrow> (Done (Err (LocalClientError_Codec e)), stream, nd, latest)
           | Ok req \<Rightarrow>
               (case client_response emit lib dial req nd latest of
                  (Waiting, nd, latest) \<Rightarrow> (Waiting, stream, nd, latest)
                | (Panicked, nd, latest) \<Rightarrow> (Panicked, stream, nd, latest)
                | (Done resp, nd, latest) \<Rightarrow>
                    (case encode_response (lj_response_to_vec json) resp [] of
                       Err e \<Rightarrow> (Done (Err (LocalClientError_Codec e)), stream, nd, latest)
                     | Ok out \<Rightarrow>
                         (case local_write_frame io stream out of
                            (r, stream) \<Rightarrow> (Done r, stream, nd, latest))))))"

section \<open>The accept loop and the inbox forwarder\<close>

text \<open>The forwarder keeps the latest event only; one answer per iteration.\<close>

datatype forward_answer = Fwd_Cancelled | Fwd_Received "inbox_event option"

fun inbox_forward :: "forward_answer list \<Rightarrow> inbox_event option \<Rightarrow> inbox_event option \<times> bool" where
  "inbox_forward [] latest = (latest, False)"
| "inbox_forward (Fwd_Cancelled # as) latest = (latest, True)"
| "inbox_forward (Fwd_Received None # as) latest = (latest, True)"
| "inbox_forward (Fwd_Received (Some ev) # as) latest = inbox_forward as (Some ev)"

datatype 's local_accept = LAcc_Cancelled | LAcc_Accepted "('s, io_error) result"

text \<open>The streams that handlers are spawned on, and the files when the loop has ended.\<close>

fun local_accept_loop ::
  "('fs, 'st, 'ln) sock_os \<Rightarrow> string \<Rightarrow> 's local_accept list \<Rightarrow> 'fs \<Rightarrow> 's list \<times> 'fs \<times> bool" where
  "local_accept_loop os home [] fs = ([], fs, False)"
| "local_accept_loop os home (LAcc_Cancelled # as) fs = ([], remove_sock_file os fs home, True)"
| "local_accept_loop os home (LAcc_Accepted (Err e) # as) fs = ([], remove_sock_file os fs home, True)"
| "local_accept_loop os home (LAcc_Accepted (Ok s) # as) fs =
     (case local_accept_loop os home as fs of (ss, fs, e) \<Rightarrow> (s # ss, fs, e))"

section \<open>The stream\<close>

text \<open>
  A connected Unix stream: \<open>view\<close> is what is left to read, \<open>sent\<close> what was accepted for sending.
  Reading and flushing send nothing.
\<close>

definition duplex :: "'s unix_io \<Rightarrow> ('s \<Rightarrow> bytes) \<Rightarrow> ('s \<Rightarrow> bytes) \<Rightarrow> bool" where
  "duplex io view sent \<longleftrightarrow>
     reads_from (ux_read_exact io) view \<and> writes_to (ux_write_all io) sent \<and>
     (\<forall>s n. sent (snd (ux_read_exact io s n)) = sent s) \<and> (\<forall>s. sent (snd (ux_flush io s)) = sent s)"

lemma duplexD:
  assumes "duplex io view sent"
  shows "reads_from (ux_read_exact io) view" "writes_to (ux_write_all io) sent"
    "sent (snd (ux_read_exact io s n)) = sent s" "sent (snd (ux_flush io s)) = sent s"
  using assms by (simp_all add: duplex_def)

lemma local_read_frame_of_put:
  assumes reads: "reads_from (ux_read_exact io) view"
    and f: "encode_json_frame h b [] = Ok f" and view: "view s = f @ rest"
  shows "\<exists>s'. local_read_frame io s = (Ok f, s') \<and> view s' = rest"
proof -
  from f have put: "put_frame h b [] = Ok f" by (simp add: encode_json_frame_peer map_err_Ok_iff)
  note len = put_frame_split [OF put]
  from reads view len(3) obtain s1 where s1: "ux_read_exact io s 4 = (Ok (take 4 (view s)), s1)"
    and v1: "view s1 = drop 4 (view s)" by (auto elim: reads_fromE [of _ _ 4 s])
  have take4: "take 4 (view s) = take 4 f" and drop4: "view s1 = drop 4 f @ rest"
    using view v1 len(3) by simp_all
  have "length f - 4 \<le> length (view s1)" using drop4 by simp
  with reads obtain s2 where s2: "ux_read_exact io s1 (length f - 4) = (Ok (take (length f - 4) (view s1)), s2)"
    and v2: "view s2 = drop (length f - 4) (view s1)" by (rule reads_fromE)
  have pay: "take (length f - 4) (view s1) = drop 4 f" and "view s2 = rest"
    using drop4 v2 by simp_all
  moreover have "\<not> (from_be_bytes (take 4 f) :: u32) > MAX_FRAME"
    using len by (simp add: word_less_nat_alt)
  ultimately show ?thesis
    using s1 s2 len take4 by (simp add: local_read_frame_def Let_def)
qed

lemma local_read_frame_sent:
  assumes "duplex io view sent" and "local_read_frame io s = (r, s')"
  shows "sent s' = sent s"
proof -
  have "sent (snd (local_read_frame io s)) = sent s"
    using duplexD(3) [OF assms(1)]
    by (auto simp: local_read_frame_def Let_def split: prod.splits sum.splits) (metis snd_conv)+
  with assms(2) show ?thesis by simp
qed

lemma local_write_frame_sent:
  assumes "duplex io view sent" and "local_write_frame io s f = (Ok (), s')"
  shows "sent s' = sent s @ f"
proof -
  from assms(2) obtain u s1 where w: "ux_write_all io s f = (Ok u, s1)" and fl: "ux_flush io s1 = (Ok (), s')"
    by (auto simp: local_write_frame_def split: prod.splits sum.splits)
  from w duplexD(2) [OF assms(1)] have "sent s1 = sent s @ f" by (simp add: writes_to_def)
  with duplexD(4) [OF assms(1), of s1] fl show ?thesis by simp
qed

section \<open>A session, end to end\<close>

definition local_serde :: "(bytes \<Rightarrow> bytes option) \<Rightarrow> local_json \<Rightarrow> bool" where
  "local_serde b64 json \<longleftrightarrow>
     serde_request b64 (lj_request_to_vec json) (lj_request_from_slice json) \<and>
     serde_response b64 (lj_response_to_vec json) (lj_response_from_slice json)"

lemma client_response_wf:
  "client_response emit lib dial req nd latest = (Done resp, nd', latest') \<Longrightarrow> response_wf b64 resp"
  by (auto simp: client_response_def split: local_request.splits option.splits sum.splits prod.splits
      progress.splits)

lemma local_session:
  assumes "local_serde b64 json" and "request_wf b64 req"
    and "duplex cio cview csent" and "duplex sio sview ssent"
    and "roundtrip_send json cio c req = (Ok (), c1)" and "csent c = []"
    and "sview s = csent c1" and "ssent s = []"
    and "handle_client emit json sio lib dial s nd latest = (Done (Ok ()), s', nd', latest')"
    and "cview c2 = ssent s'"
  shows "\<exists>resp. client_response emit lib dial req nd latest = (Done resp, nd', latest') \<and>
    fst (roundtrip_recv json cio c2) = Ok resp"
proof -
  have rq: "serde_request b64 (lj_request_to_vec json) (lj_request_from_slice json)"
    and rp: "serde_response b64 (lj_response_to_vec json) (lj_response_from_slice json)"
    using assms(1) by (simp_all add: local_serde_def)
  from assms(5) obtain f where enc: "encode_request (lj_request_to_vec json) req [] = Ok f"
    and w: "local_write_frame cio c f = (Ok (), c1)"
    by (auto simp: roundtrip_send_def split: sum.splits)
  from local_write_frame_sent [OF assms(3) w] assms(6,7) have view: "sview s = f @ []" by simp
  from enc obtain h where put: "encode_json_frame h (request_body req) [] = Ok f"
    by (auto simp: encode_request_Ok_iff)
  from local_read_frame_of_put [OF duplexD(1) [OF assms(4)] put view]
  obtain s1 where rd: "local_read_frame sio s = (Ok f, s1)" by blast
  have dec: "decode_request (lj_request_from_slice json) f = Ok req"
    using decode_encode_request [OF rq assms(2) enc, of "[]"] by simp
  from assms(9) rd dec obtain resp out where
    resp: "client_response emit lib dial req nd latest = (Done resp, nd', latest')"
    and out: "encode_response (lj_response_to_vec json) resp [] = Ok out"
    and wr: "local_write_frame sio s1 out = (Ok (), s')"
    by (auto simp: handle_client_def split: prod.splits progress.splits sum.splits)
  from local_read_frame_sent [OF assms(4) rd] local_write_frame_sent [OF assms(4) wr] assms(8,10)
  have view2: "cview c2 = out @ []" by simp
  from out obtain h2 where put2: "encode_json_frame h2 (response_body resp) [] = Ok out"
    by (auto simp: encode_response_Ok_iff)
  from local_read_frame_of_put [OF duplexD(1) [OF assms(3)] put2 view2]
  obtain c3 where "local_read_frame cio c2 = (Ok out, c3)" by blast
  with decode_encode_response [OF rp client_response_wf [OF resp] out, of "[]"]
  have "fst (roundtrip_recv json cio c2) = Ok resp"
    by (simp add: roundtrip_recv_def map_err_simps)
  with resp show ?thesis by blast
qed

text \<open>
  C17: A session on the local socket is one call of the daemon. When the client's request went out, the
  daemon read it off its end of the stream and its handler finished, and the client then reads what
  the daemon sent, the client's \<open>roundtrip\<close> returns exactly the response the daemon computed for
  exactly the request that was made, with the Submit's body, in the state the daemon was in.
\<close>

theorem local_session_end_to_end:
  assumes "local_serde b64 json" and "request_wf b64 req"
    and "duplex cio cview csent" and "duplex sio sview ssent"
    and "roundtrip_send json cio c req = (Ok (), c1)" and "csent c = []"
    and "sview s = csent c1" and "ssent s = []"
    and "handle_client emit json sio lib dial s nd latest = (Done (Ok ()), s', nd', latest')"
    and "cview c2 = ssent s'"
  shows "\<exists>resp. client_response emit lib dial req nd latest = (Done resp, nd', latest') \<and>
    fst (roundtrip_recv json cio c2) = Ok resp"
  using assms by (rule local_session)

text \<open>A JSON coding of the inbox poll, and a stream made of two lists of bytes.\<close>

definition sample_local_json :: local_json where
  "sample_local_json =
     \<lparr>lj_request_to_vec = (\<lambda>r. case r of LocalRequest_Inbox \<Rightarrow> Some [1] | _ \<Rightarrow> None),
      lj_request_from_slice = (\<lambda>h. if h = [1] then Some LocalRequest_Inbox else None),
      lj_response_to_vec = (\<lambda>r. case r of LocalResponse_InboxIdle \<Rightarrow> Some [2] | _ \<Rightarrow> None),
      lj_response_from_slice = (\<lambda>h. if h = [2] then Some LocalResponse_InboxIdle else None)\<rparr>"

definition pair_io :: "(bytes \<times> bytes) unix_io" where
  "pair_io =
     \<lparr>ux_read_exact = (\<lambda>(i, out) n. if n \<le> length i then (Ok (take n i), (drop n i, out))
        else (Err (IoError Kind_Other ''early eof''), ([], out))),
      ux_write_all = (\<lambda>(i, out) b. (Ok (), (i, out @ b))),
      ux_flush = (\<lambda>s. (Ok (), s))\<rparr>"

lemma sample_local_serde: "local_serde b64 sample_local_json"
  by (auto simp: local_serde_def serde_request_def serde_response_def sample_local_json_def
      split: local_request.splits local_response.splits)

lemma pair_duplex: "duplex pair_io fst snd"
  by (auto simp: duplex_def reads_from_def writes_to_def pair_io_def split: if_splits)

definition sample_addr_lib :: "string addr_lib" where
  "sample_addr_lib =
     \<lparr>al_parse_id = (\<lambda>s. if s = [] then Err ''empty'' else Ok (as_bytes s)),
      al_parse_addr = (\<lambda>s. if s = [] then Err ''empty'' else Ok s), al_debug_str = (\<lambda>s. s)\<rparr>"

definition sample_caller_env :: caller_env where
  "sample_caller_env = \<lparr>de_connect = Err ''unreachable'', de_view = sample_view, de_end = 0,
     de_started = 0, de_start = 0, de_opened = Stream_Opened, de_write = None,
     de_close_reason = None, de_selects = []\<rparr>"

theorem local_session_end_to_end_witness:
  "\<exists>s'. handle_client MemoryCallRecordSink_emit sample_local_json pair_io sample_addr_lib
       (\<lambda>_ _. sample_caller_env) ([0, 0, 0, 3, 0, 1, 1], []) sample_node None =
       (Done (Ok ()), s', sample_node, None) \<and>
     fst (roundtrip_recv sample_local_json pair_io (snd s', [])) = Ok LocalResponse_InboxIdle"
proof -
  let ?f = "[0, 0, 0, 3, 0, 1, 1] :: bytes"
  let ?out = "[0, 0, 0, 3, 0, 1, 2] :: bytes"
  have send: "roundtrip_send sample_local_json pair_io ([], []) LocalRequest_Inbox = (Ok (), ([], ?f))"
    by (simp add: roundtrip_send_def encode_request_def ok_or_def sample_local_json_def
        encode_json_frame_peer map_err_simps put_frame_eq local_write_frame_def pair_io_def
        sample_prefix)
  have handle: "handle_client MemoryCallRecordSink_emit sample_local_json pair_io sample_addr_lib
      (\<lambda>_ _. sample_caller_env) (?f, []) sample_node None = (Done (Ok ()), ([], ?out), sample_node, None)"
    by (simp add: handle_client_def local_read_frame_def pair_io_def from_be_bytes_def MAX_FRAME_def
        Let_def decode_request_def local_decode_parts_peer frame_parts_eq map_err_simps
        sample_local_json_def ok_or_def client_response_def encode_response_def encode_json_frame_peer
        put_frame_eq sample_prefix local_write_frame_def)
  have wf: "request_wf (\<lambda>_. None) LocalRequest_Inbox" by simp
  from local_session_end_to_end [OF sample_local_serde wf pair_duplex pair_duplex send _ _ _ handle,
      of "(?out, [])"] handle
  show ?thesis by (auto simp: client_response_def)
qed

section \<open>Dials\<close>

lemma parse_addrs_Ok_iff:
  "parse_addrs lib as = Ok sas \<longleftrightarrow> map (al_parse_addr lib) as = map Ok sas"
proof (induction as arbitrary: sas)
  case (Cons a as)
  show ?case
    by (cases "al_parse_addr lib a"; cases sas) (auto simp: and_then_Ok_iff Cons.IH)
qed auto

lemma build_dial_Ok_iff:
  "build_dial lib peer addrs t d ct cr body = Ok (addr, submit) \<longleftrightarrow>
     al_parse_id lib peer = Ok (ea_id addr) \<and> addrs \<noteq> [] \<and>
     map (al_parse_addr lib) addrs = map Ok (ea_addrs addr) \<and> submit = Message_Submit t d ct cr body"
  by (cases addr)
    (auto simp: build_dial_def parse_addrs_Ok_iff and_then_Ok_iff split: sum.splits)

text \<open>
  C31: A dial through the socket is a dial of the node. A request is turned into \<open>Node::dial\<close> of the
  addresses it names and of a Submit with exactly its fields and body if and only if the peer parses,
  there is an address and every address parses; otherwise the answer is an error and neither the
  node nor the inbox slot changes. The outcome and the RTT in milliseconds, or the error's text, are
  the dial's own.
\<close>

theorem local_dial_is_a_node_dial:
  assumes "client_response emit lib dial (LocalRequest_Dial peer addrs t d ct cr body) nd latest =
      (r, nd', latest')"
  shows "latest' = latest \<and>
    (if al_parse_id lib peer \<in> range Ok \<and> addrs \<noteq> [] \<and> (\<forall>a\<in>set addrs. is_ok (al_parse_addr lib a))
     then \<exists>addr res extra.
       al_parse_id lib peer = Ok (ea_id addr) \<and> map (al_parse_addr lib) addrs = map Ok (ea_addrs addr) \<and>
       Node_dial emit (dial addr (Message_Submit t d ct cr body)) (Message_Submit t d ct cr body) nd =
         ((res, extra), nd') \<and>
       (\<forall>out rtt. res = Done (Ok \<lparr>df_outcome = out, df_rtt = rtt\<rparr>) \<longrightarrow>
          r = Done (LocalResponse_DialResult out (map_option duration_ms rtt))) \<and>
       (\<forall>e. res = Done (Err e) \<longrightarrow> r = Done (LocalResponse_Error (DaemonError_to_string e)))
     else nd' = nd \<and> (\<exists>msg. r = Done (LocalResponse_Error msg)))"
proof (cases "build_dial lib peer addrs t d ct cr body")
  case (Inr as)
  obtain addr submit where as: "as = (addr, submit)" by (cases as)
  from Inr as have ok: "al_parse_id lib peer = Ok (ea_id addr)" "addrs \<noteq> []"
    "map (al_parse_addr lib) addrs = map Ok (ea_addrs addr)" "submit = Message_Submit t d ct cr body"
    by (simp_all add: build_dial_Ok_iff)
  have "al_parse_addr lib ` set addrs = Ok ` set (ea_addrs addr)"
    using arg_cong [OF ok(3), of set] by simp
  then have "\<forall>a\<in>set addrs. is_ok (al_parse_addr lib a)" by (metis image_iff is_ok_simps(1))
  moreover obtain res extra nd1 where nd: "Node_dial emit (dial addr submit) submit nd = ((res, extra), nd1)"
    by (metis surj_pair)
  ultimately show ?thesis
    using assms Inr as ok
    by (auto simp: client_response_def split: progress.splits sum.splits)
next
  case (Inl msg)
  have "\<not> (al_parse_id lib peer \<in> range Ok \<and> addrs \<noteq> [] \<and> (\<forall>a\<in>set addrs. is_ok (al_parse_addr lib a)))"
  proof
    assume all: "al_parse_id lib peer \<in> range Ok \<and> addrs \<noteq> [] \<and> (\<forall>a\<in>set addrs. is_ok (al_parse_addr lib a))"
    then obtain i where i: "al_parse_id lib peer = Ok i" by blast
    from all have "\<forall>a\<in>set addrs. is_ok (al_parse_addr lib a)" by blast
    then have "\<exists>sas. map (al_parse_addr lib) addrs = map Ok sas"
      by (induction addrs) (auto simp: is_ok_iff Cons_eq_map_conv)
    then obtain sas where "map (al_parse_addr lib) addrs = map Ok sas" ..
    with i all build_dial_Ok_iff [of lib peer addrs t d ct cr body "\<lparr>ea_id = i, ea_addrs = sas\<rparr>"
        "Message_Submit t d ct cr body"] Inl
    show False by simp
  qed
  with assms Inl show ?thesis by (auto simp: client_response_def)
qed

theorem local_dial_is_a_node_dial_witness:
  "client_response MemoryCallRecordSink_emit sample_addr_lib (\<lambda>_ _. sample_caller_env)
     (LocalRequest_Dial ''p'' [] (TaskId 1) (Deadline 1000) (ContentType ''t'') None [7]) sample_node None =
       (Done (LocalResponse_Error ''dial requires at least one addr''), sample_node, None) \<and>
   snd (snd (client_response MemoryCallRecordSink_emit sample_addr_lib (\<lambda>_ _. sample_caller_env)
     (LocalRequest_Dial ''p'' [''a''] (TaskId 1) (Deadline 1000) (ContentType ''t'') None [7]) sample_node None)) = None"
proof -
  obtain r nd' l where run: "client_response MemoryCallRecordSink_emit sample_addr_lib (\<lambda>_ _. sample_caller_env)
     (LocalRequest_Dial ''p'' [''a''] (TaskId 1) (Deadline 1000) (ContentType ''t'') None [7]) sample_node None =
     (r, nd', l)" by (metis surj_pair)
  have "client_response MemoryCallRecordSink_emit sample_addr_lib (\<lambda>_ _. sample_caller_env)
     (LocalRequest_Dial ''p'' [] (TaskId 1) (Deadline 1000) (ContentType ''t'') None [7]) sample_node None =
       (Done (LocalResponse_Error ''dial requires at least one addr''), sample_node, None)"
    by (simp add: client_response_def build_dial_def sample_addr_lib_def)
  with local_dial_is_a_node_dial [OF run] run show ?thesis by simp
qed

section \<open>The inbox\<close>

text \<open>
  An inbox event is handed out at most once, and may be lost. A poll answers with the event of the
  slot and empties it before it writes the answer: the next poll finds the slot idle, and when the
  client cannot be written to the event is gone all the same. A newer event replaces one that
  nobody polled.
\<close>

theorem inbox_event_at_most_once:
  assumes "local_read_frame io s = (Ok frame, s1)"
    and "decode_request (lj_request_from_slice json) frame = Ok LocalRequest_Inbox"
    and "handle_client emit json io lib dial s nd latest = (r, s', nd', latest')"
  shows "nd' = nd \<and> latest' = None \<and> r \<noteq> Waiting \<and>
    (r = Done (Ok ()) \<longrightarrow>
      (\<exists>out. encode_response (lj_response_to_vec json)
           (case latest of Some ev \<Rightarrow> LocalResponse_InboxEvent (ev_peer ev) (ev_outcome ev)
            | None \<Rightarrow> LocalResponse_InboxIdle) [] = Ok out \<and>
         local_write_frame io s1 out = (Ok (), s'))) \<and>
    (\<forall>nd2. client_response emit lib dial LocalRequest_Inbox nd2 latest' =
        (Done LocalResponse_InboxIdle, nd2, None)) \<and>
    (\<forall>ev ev'. inbox_forward [Fwd_Received (Some ev), Fwd_Received (Some ev')] latest' = (Some ev', False))"
  using assms
  by (auto simp: handle_client_def client_response_def split: option.splits sum.splits prod.splits)

text \<open>A stream whose peer is gone: it can be read, not written.\<close>

definition deaf_io :: "(bytes \<times> bytes) unix_io" where
  "deaf_io = pair_io\<lparr>ux_write_all := (\<lambda>s b. (Err (IoError Kind_Other ''broken pipe''), s))\<rparr>"

theorem inbox_event_at_most_once_witness:
  "\<exists>r s'. handle_client MemoryCallRecordSink_emit
       (sample_local_json\<lparr>lj_response_to_vec := (\<lambda>_. Some [2])\<rparr>) deaf_io sample_addr_lib
       (\<lambda>_ _. sample_caller_env) ([0, 0, 0, 3, 0, 1, 1], []) sample_node
       (Some \<lparr>ev_peer = ''p'', ev_outcome = Outcome_Completed\<rparr>) = (Done (Err r), s', sample_node, None)"
proof -
  let ?json = "sample_local_json\<lparr>lj_response_to_vec := (\<lambda>_. Some [2])\<rparr>"
  let ?ev = "\<lparr>ev_peer = ''p'', ev_outcome = Outcome_Completed\<rparr>"
  have rd: "local_read_frame deaf_io ([0, 0, 0, 3, 0, 1, 1], []) = (Ok [0, 0, 0, 3, 0, 1, 1], ([], []))"
    by (simp add: local_read_frame_def deaf_io_def pair_io_def from_be_bytes_def MAX_FRAME_def Let_def)
  have dec: "decode_request (lj_request_from_slice ?json) [0, 0, 0, 3, 0, 1, 1] = Ok LocalRequest_Inbox"
    by (simp add: decode_request_def local_decode_parts_peer frame_parts_eq map_err_simps
        sample_local_json_def ok_or_def Let_def)
  obtain r s' nd' l where run: "handle_client MemoryCallRecordSink_emit ?json deaf_io sample_addr_lib
      (\<lambda>_ _. sample_caller_env) ([0, 0, 0, 3, 0, 1, 1], []) sample_node (Some ?ev) = (r, s', nd', l)"
    by (metis prod_cases4)
  have "\<exists>e. r = Done (Err e)"
    using run rd dec
    by (auto simp: handle_client_def client_response_def encode_response_def ok_or_def
        encode_json_frame_peer put_frame_eq map_err_simps local_write_frame_def deaf_io_def)
  with inbox_event_at_most_once [OF rd dec run] run show ?thesis by auto
qed

end
