(* ===== verification/Cli.thy ===== *)
theory Cli
  imports Local_Socket
begin

text \<open>
  The command line client, src/crates/uat-cli/src/main.rs: argument parsing, the dial, listen,
  inbox and identity commands over the local socket, and what they print. An error is the text
  that \<open>anyhow\<close> shows first (the outermost context). The parser of socket addresses, standard input
  and the environment are parameters; a command is a function of the answers its \<open>select!\<close> loops
  get.
\<close>

section \<open>Text\<close>

text \<open>\<open>str::parse::<u32>\<close>: an optional plus sign, then decimal digits with checked arithmetic.\<close>

definition decimal_val :: "char \<Rightarrow> nat option" where
  "decimal_val c = (let n = of_char c :: nat in if 48 \<le> n \<and> n \<le> 57 then Some (n - 48) else None)"

fun radix10_digits :: "nat \<Rightarrow> string \<Rightarrow> u32 option" where
  "radix10_digits acc [] = Some (word_of_nat acc)"
| "radix10_digits acc (c # cs) =
     (case decimal_val c of
        None \<Rightarrow> None
      | Some d \<Rightarrow> if acc * 10 + d < 2 ^ 32 then radix10_digits (acc * 10 + d) cs else None)"

definition u32_from_str :: "string \<Rightarrow> u32 option" where
  "u32_from_str s =
     (case s of
        [] \<Rightarrow> None
      | c # cs \<Rightarrow>
          if c = CHR ''+'' then (if cs = [] then None else radix10_digits 0 cs)
          else radix10_digits 0 s)"

text \<open>The derived \<open>Debug\<close> texts of outcomes.\<close>

fun failure_code_debug :: "failure_code \<Rightarrow> string" where
  "failure_code_debug FailureCode_Unauthorized = ''Unauthorized''"
| "failure_code_debug FailureCode_Rejected = ''Rejected''"
| "failure_code_debug FailureCode_DeadlineExceeded = ''DeadlineExceeded''"
| "failure_code_debug FailureCode_HandlerError = ''HandlerError''"

fun close_code_debug :: "close_code \<Rightarrow> string" where
  "close_code_debug CloseCode_Normal = ''Normal''"
| "close_code_debug CloseCode_RateLimited = ''RateLimited''"
| "close_code_debug CloseCode_FrameTooLarge = ''FrameTooLarge''"
| "close_code_debug CloseCode_MalformedFrame = ''MalformedFrame''"
| "close_code_debug CloseCode_ProtocolViolation = ''ProtocolViolation''"
| "close_code_debug CloseCode_Timeout = ''Timeout''"

fun outcome_debug :: "outcome \<Rightarrow> string" where
  "outcome_debug Outcome_Completed = ''Completed''"
| "outcome_debug (Outcome_Failed code) = ''Failed('' @ failure_code_debug code @ '')''"
| "outcome_debug Outcome_Canceled = ''Canceled''"
| "outcome_debug (Outcome_Closed code) = ''Closed('' @ close_code_debug code @ '')''"
| "outcome_debug Outcome_PeerLost = ''PeerLost''"

section \<open>Dispatch\<close>

datatype cli_command = Cmd_Dial "string list" | Cmd_Listen | Cmd_Identity | Cmd_Inbox | Cmd_Help

definition cli_dispatch :: "string list \<Rightarrow> (cli_command, string) result" where
  "cli_dispatch args =
     (case args of
        [] \<Rightarrow> Err ''missing subcommand''
      | cmd # args \<Rightarrow>
          if cmd = ''dial'' then Ok (Cmd_Dial args)
          else if cmd = ''listen'' then Ok Cmd_Listen
          else if cmd = ''identity'' then Ok Cmd_Identity
          else if cmd = ''inbox'' then Ok Cmd_Inbox
          else if cmd \<in> {''help'', ''-h'', ''--help''} then Ok Cmd_Help
          else Err (''unknown subcommand: '' @ cmd))"

section \<open>The arguments of dial\<close>

record 'a dial_args =
  da_peer :: string
  da_deadline_ms :: u32
  da_content_type :: string
  da_addrs :: "'a list"

text \<open>The loop over the options; a later \<open>--deadline\<close> or \<open>--content-type\<close> replaces an earlier one.\<close>

fun dial_options ::
  "(string \<Rightarrow> 'a option) \<Rightarrow> string list \<Rightarrow> u32 option \<Rightarrow> string option \<Rightarrow> 'a list
     \<Rightarrow> (u32 option \<times> string option \<times> 'a list, string) result" where
  "dial_options parse_addr [] dl ct addrs = Ok (dl, ct, addrs)"
| "dial_options parse_addr (opt # args) dl ct addrs =
     (if opt = ''--deadline'' then
        (case args of
           [] \<Rightarrow> Err ''--deadline requires <ms>''
         | raw # args \<Rightarrow>
             (case u32_from_str raw of
                None \<Rightarrow> Err ''parse --deadline''
              | Some ms \<Rightarrow> dial_options parse_addr args (Some ms) ct addrs))
      else if opt = ''--content-type'' then
        (case args of
           [] \<Rightarrow> Err ''--content-type requires <mime>''
         | raw # args \<Rightarrow> dial_options parse_addr args dl (Some raw) addrs)
      else if opt = ''--addr'' then
        (case args of
           [] \<Rightarrow> Err ''--addr requires ip:port''
         | raw # args \<Rightarrow>
             (case parse_addr raw of
                None \<Rightarrow> Err ''parse --addr''
              | Some a \<Rightarrow> dial_options parse_addr args dl ct (addrs @ [a])))
      else Err (''unknown dial arg: '' @ opt))"

definition parse_dial_args ::
  "(string \<Rightarrow> 'a option) \<Rightarrow> string list \<Rightarrow> ('a dial_args, string) result" where
  "parse_dial_args parse_addr args =
     (case args of
        [] \<Rightarrow> Err ''dial requires <peer>''
      | peer # args \<Rightarrow>
          and_then (dial_options parse_addr args None None []) (\<lambda>(deadline_ms, content_type, addrs).
          and_then (ok_or ''dial requires --deadline <ms>'' deadline_ms) (\<lambda>deadline_ms.
          and_then (ok_or ''dial requires --content-type <mime>'' content_type) (\<lambda>content_type.
          if addrs = []
          then Err ''dial requires at least one --addr <ip:port> (M1 / no discovery yet)''
          else Ok \<lparr>da_peer = peer, da_deadline_ms = deadline_ms, da_content_type = content_type,
                    da_addrs = addrs\<rparr>))))"

section \<open>Commands\<close>

definition uat_home_dir ::
  "(string \<Rightarrow> string option) \<Rightarrow> (string \<Rightarrow> string option) \<Rightarrow> (string, string) result" where
  "uat_home_dir var var_os =
     (case var ''UAT_HOME'' of
        Some path \<Rightarrow> Ok path
      | None \<Rightarrow>
          and_then (ok_or ''HOME unset and UAT_HOME unset'' (var_os ''HOME'')) (\<lambda>home.
            Ok (path_join home ''.uat'')))"

definition format_client_err :: "local_client_error \<Rightarrow> string" where
  "format_client_err err = LocalClientError_to_string err"

text \<open>
  \<open>via\<close> stands for \<open>dial_via_sock\<close> on the daemon behind the socket. The result is what decides
  the exit status; the list is what was printed.
\<close>

definition cmd_dial ::
  "(string \<Rightarrow> 'a option) \<Rightarrow> (string, string) result \<Rightarrow> (bytes, string) result
     \<Rightarrow> (string \<Rightarrow> string \<Rightarrow> 'a list \<Rightarrow> message \<Rightarrow> (outcome \<times> u64 option, local_client_error) result)
     \<Rightarrow> string list \<Rightarrow> (unit, string) result \<times> string list" where
  "cmd_dial parse_addr home_dir stdin via args =
     (case and_then (parse_dial_args parse_addr args) (\<lambda>parsed.
           and_then (map_err (\<lambda>_. ''read dial body from stdin'') stdin) (\<lambda>body.
           and_then home_dir (\<lambda>home.
           and_then (map_err (\<lambda>_. ''deadline'') (Deadline_new (da_deadline_ms parsed))) (\<lambda>deadline.
           and_then (map_err (\<lambda>_. ''content-type'') (ContentType_new (da_content_type parsed)))
             (\<lambda>content_type.
           map_err format_client_err
             (via home (da_peer parsed) (da_addrs parsed)
                (Message_Submit (TaskId_from_u128 1) deadline content_type None body))))))) of
        Err e \<Rightarrow> (Err e, [])
      | Ok (outcome, rtt_ms) \<Rightarrow>
          (if outcome = Outcome_Completed then Ok ()
           else Err (''call did not complete: '' @ outcome_debug outcome),
           [case rtt_ms of Some ms \<Rightarrow> ''rtt_ms='' @ decimal (unat ms) | None \<Rightarrow> ''rtt_ms=unknown'',
            ''outcome='' @ outcome_debug outcome]))"

definition event_line :: "string \<Rightarrow> outcome \<Rightarrow> string" where
  "event_line peer outcome = ''inbox=event peer='' @ peer @ '' outcome='' @ outcome_debug outcome"

definition cmd_inbox ::
  "(local_response \<Rightarrow> string) \<Rightarrow> (string, string) result
     \<Rightarrow> (string \<Rightarrow> (local_response, local_client_error) result) \<Rightarrow> (unit, string) result \<times> string list" where
  "cmd_inbox debug home_dir poll =
     (case and_then home_dir (\<lambda>home. map_err format_client_err (poll home)) of
        Err e \<Rightarrow> (Err e, [])
      | Ok LocalResponse_InboxIdle \<Rightarrow> (Ok (), [''inbox=idle''])
      | Ok (LocalResponse_InboxEvent peer outcome) \<Rightarrow> (Ok (), [event_line peer outcome])
      | Ok (LocalResponse_Error message) \<Rightarrow> (Err message, [])
      | Ok other \<Rightarrow> (Err (''unexpected inbox response: '' @ debug other), []))"

text \<open>One answer per \<open>select!\<close>: a signal, a finished poll, or the end of the pause after an idle one.\<close>

datatype listen_answer =
    Lst_Signal
  | Lst_Poll "(local_response, local_client_error) result"
  | Lst_Pause_Over

fun listen_loop ::
  "(local_response \<Rightarrow> string) \<Rightarrow> bool \<Rightarrow> listen_answer list \<Rightarrow> (unit, string) result progress \<times> string list" where
  "listen_loop debug pausing [] = (Waiting, [])"
| "listen_loop debug pausing (Lst_Signal # as) = (Done (Ok ()), [])"
| "listen_loop debug pausing (Lst_Pause_Over # as) = listen_loop debug False as"
| "listen_loop debug pausing (Lst_Poll r # as) =
     (if pausing then listen_loop debug pausing as
      else case r of
        Err e \<Rightarrow> (Done (Err (format_client_err e)), [])
      | Ok LocalResponse_InboxIdle \<Rightarrow> listen_loop debug True as
      | Ok (LocalResponse_InboxEvent peer outcome) \<Rightarrow>
          (case listen_loop debug False as of (res, lines) \<Rightarrow> (res, event_line peer outcome # lines))
      | Ok (LocalResponse_Error message) \<Rightarrow> (Done (Err message), [])
      | Ok other \<Rightarrow> (Done (Err (''unexpected inbox response: '' @ debug other)), []))"

text \<open>The first poll is made for its errors only; \<open>sig_term\<close> and \<open>sig_int\<close> tell whether the handlers
  could be registered.\<close>

definition cmd_listen ::
  "(local_response \<Rightarrow> string) \<Rightarrow> (string, string) result
     \<Rightarrow> (string \<Rightarrow> (local_response, local_client_error) result) \<Rightarrow> bool \<Rightarrow> bool \<Rightarrow> listen_answer list
     \<Rightarrow> (unit, string) result progress \<times> string list" where
  "cmd_listen debug home_dir first_poll sig_term sig_int as =
     (case and_then home_dir (\<lambda>home. map_err format_client_err (first_poll home)) of
        Err e \<Rightarrow> (Done (Err e), [])
      | Ok _ \<Rightarrow>
          if \<not> sig_term then (Done (Err ''register SIGTERM''), [])
          else if \<not> sig_int then (Done (Err ''register SIGINT''), [])
          else listen_loop debug False as)"

text \<open>\<open>show_key\<close> is the \<open>Display\<close> of a public key.\<close>

definition cmd_identity ::
  "('fs, 'h) id_os \<Rightarrow> 'sk key_lib \<Rightarrow> (bytes \<Rightarrow> string) \<Rightarrow> (string, string) result \<Rightarrow> 'sk \<Rightarrow> 'fs
     \<Rightarrow> (unit, string) result \<times> string list \<times> 'fs" where
  "cmd_identity os keys show_key home_dir secret fs =
     (case home_dir of
        Err e \<Rightarrow> (Err e, [], fs)
      | Ok home \<Rightarrow>
          (case load_or_create_at os keys secret fs (path_join home IDENTITY_FILE) of
             (Err _, fs) \<Rightarrow> (Err ''load identity'', [], fs)
           | (Ok i, fs) \<Rightarrow> (Ok (), [show_key (key_public keys (identity_secret i))], fs)))"

section \<open>Parsing what was written\<close>

lemma decimal_val_digit: "d < 10 \<Longrightarrow> decimal_val (char_of (48 + d)) = Some d"
  by (simp add: decimal_val_def Let_def of_char_of)

lemma radix10_decimal:
  "n < 2 ^ 32 \<Longrightarrow> radix10_digits 0 (decimal n @ s) = radix10_digits n s"
proof (induction n arbitrary: s rule: decimal.induct)
  case (1 n)
  show ?case
  proof (cases "n < 10")
    case True
    then show ?thesis using 1 by (subst decimal.simps) (simp add: decimal_val_digit)
  next
    case False
    have "radix10_digits 0 (decimal (n div 10) @ char_of (48 + n mod 10) # s) =
        radix10_digits (n div 10) (char_of (48 + n mod 10) # s)"
      using 1 False by simp
    also have "\<dots> = radix10_digits n s"
      using 1(2) by (simp add: decimal_val_digit)
    finally show ?thesis by (subst decimal.simps) (simp add: False)
  qed
qed

lemma decimal_digits: "c \<in> set (decimal n) \<Longrightarrow> decimal_val c \<noteq> None"
proof (induction n rule: decimal.induct)
  case (1 n)
  then show ?case
    by (subst (asm) (2) decimal.simps) (auto simp: decimal_val_digit split: if_splits)
qed

lemma decimal_nonempty: "decimal n \<noteq> []"
  by (subst decimal.simps) simp

lemma u32_from_decimal: "u32_from_str (decimal (unat w)) = Some w"
proof -
  have bound: "unat w < 2 ^ 32" using unsigned_less [of w] by simp
  from radix10_decimal [OF bound, of "[]"] have digits: "radix10_digits 0 (decimal (unat w)) = Some w" by simp
  obtain c cs where c: "decimal (unat w) = c # cs" using decimal_nonempty by (cases "decimal (unat w)") auto
  with decimal_digits [of c "unat w"] have "decimal_val c \<noteq> None" by simp
  then have "c \<noteq> CHR ''+''" by (auto simp: decimal_val_def of_char_def)
  with digits c show ?thesis by (simp add: u32_from_str_def)
qed

definition addr_options :: "('a \<Rightarrow> string) \<Rightarrow> 'a list \<Rightarrow> string list" where
  "addr_options show_addr addrs = concat (map (\<lambda>a. [''--addr'', show_addr a]) addrs)"

lemma addr_options_parse:
  "\<forall>a\<in>set addrs. parse_addr (show_addr a) = Some a \<Longrightarrow>
     dial_options parse_addr (addr_options show_addr addrs @ rest) dl ct before =
       dial_options parse_addr rest dl ct (before @ addrs)"
  by (induction addrs arbitrary: before) (simp_all add: addr_options_def)

text \<open>
  C35: The command line is read as it is written. Whatever peer, deadline, content type and non-empty
  list of addresses are put on a \<open>dial\<close> command, in the usage's order or with the addresses first,
  parsing gives them back, the deadline as the exact 32-bit number; without an address, with a
  missing value or with an unknown option nothing is dialed.
\<close>

theorem dial_args_roundtrip:
  assumes "\<forall>a\<in>set addrs. parse_addr (show_addr a) = Some a" and "addrs \<noteq> []"
  shows "parse_dial_args parse_addr
      (peer # [''--deadline'', decimal (unat ms), ''--content-type'', ct] @ addr_options show_addr addrs) =
        Ok \<lparr>da_peer = peer, da_deadline_ms = ms, da_content_type = ct, da_addrs = addrs\<rparr> \<and>
    parse_dial_args parse_addr
      (peer # addr_options show_addr addrs @ [''--content-type'', ct, ''--deadline'', decimal (unat ms)]) =
        Ok \<lparr>da_peer = peer, da_deadline_ms = ms, da_content_type = ct, da_addrs = addrs\<rparr> \<and>
    (\<forall>dl ct' before opt. \<not> is_ok (dial_options parse_addr [opt] dl ct' before)) \<and>
    (\<forall>dl ct' before opt rest. opt \<notin> {''--deadline'', ''--content-type'', ''--addr''} \<longrightarrow>
       dial_options parse_addr (opt # rest) dl ct' before = Err (''unknown dial arg: '' @ opt)) \<and>
    \<not> is_ok (parse_dial_args parse_addr
      [peer, ''--deadline'', decimal (unat ms), ''--content-type'', ct])"
  using addr_options_parse [OF assms(1), of "[]"] assms(2)
  by (simp add: parse_dial_args_def u32_from_decimal ok_or_def addr_options_parse [OF assms(1)])

theorem dial_args_roundtrip_witness:
  "parse_dial_args (\<lambda>s. if s = ''a:1'' then Some (1 :: nat) else None)
     ([''p'', ''--deadline'', decimal (unat (1000 :: u32)), ''--content-type'', ''text/plain'', ''--addr'', ''a:1'']) =
   Ok \<lparr>da_peer = ''p'', da_deadline_ms = 1000, da_content_type = ''text/plain'', da_addrs = [1]\<rparr>"
proof -
  let ?parse = "\<lambda>s. if s = ''a:1'' then Some (1 :: nat) else None"
  have "\<forall>a\<in>set [1]. ?parse ((\<lambda>_. ''a:1'') a) = Some a" by simp
  from dial_args_roundtrip [of "[1]" ?parse "\<lambda>_. ''a:1''", OF this, of "''p''" 1000 "''text/plain''"]
  show ?thesis by (simp add: addr_options_def)
qed

section \<open>Exit status\<close>

text \<open>
  \<open>uat dial\<close> succeeds exactly when the call completed. With well-formed arguments, a readable body and
  a home, what goes to the daemon is one Submit of task 1 with the deadline, content type and body
  that were given; whatever outcome comes back is printed after the RTT, and only
  \<open>Completed\<close> exits with success; when the daemon cannot be reached nothing is printed and the exit is an
  error.
\<close>

theorem dial_exits_zero_iff_completed:
  assumes "parse_dial_args parse_addr args = Ok d"
    and "da_deadline_ms d \<le> MAX_DEADLINE_MS" and "length (da_content_type d) \<le> MAX_CONTENT_TYPE_LEN"
  shows "let submit = Message_Submit (TaskId 1) (Deadline (da_deadline_ms d))
             (ContentType (da_content_type d)) None body;
           answer = via home (da_peer d) (da_addrs d) submit;
           run = cmd_dial parse_addr (Ok home) (Ok body) via args in
    (fst run = Ok () \<longleftrightarrow> (\<exists>rtt. answer = Ok (Outcome_Completed, rtt))) \<and>
    (\<forall>out rtt. answer = Ok (out, rtt) \<longrightarrow>
       length (snd run) = 2 \<and> snd run ! 1 = ''outcome='' @ outcome_debug out) \<and>
    (\<forall>e. answer = Err e \<longrightarrow> run = (Err (LocalClientError_to_string e), []))"
proof -
  have "Deadline_new (da_deadline_ms d) = Ok (Deadline (da_deadline_ms d))"
    using assms(2) by (simp add: Deadline_new_def not_less)
  moreover have "ContentType_new (da_content_type d) = Ok (ContentType (da_content_type d))"
    using assms(3) by (simp add: ContentType_new_def Let_def)
  ultimately show ?thesis
    using assms(1)
    by (cases "via home (da_peer d) (da_addrs d) (Message_Submit (TaskId 1)
          (Deadline (da_deadline_ms d)) (ContentType (da_content_type d)) None body)")
      (auto simp: cmd_dial_def map_err_simps TaskId_from_u128_def format_client_err_def Let_def
        split: if_splits)
qed

theorem dial_exits_zero_iff_completed_witness:
  "fst (cmd_dial (\<lambda>s. Some s) (Ok ''h'') (Ok [1]) (\<lambda>_ _ _ _. Ok (Outcome_Canceled, None))
     [''p'', ''--deadline'', ''9'', ''--content-type'', ''t'', ''--addr'', ''a'']) \<noteq> Ok ()"
proof -
  let ?d = "\<lparr>da_peer = ''p'', da_deadline_ms = 9, da_content_type = ''t'', da_addrs = [''a'']\<rparr>"
  have parse: "parse_dial_args (\<lambda>s. Some s)
      [''p'', ''--deadline'', ''9'', ''--content-type'', ''t'', ''--addr'', ''a''] = Ok ?d"
    by (simp add: parse_dial_args_def u32_from_str_def decimal_val_def of_char_def ok_or_def)
  have "da_deadline_ms ?d \<le> MAX_DEADLINE_MS" "length (da_content_type ?d) \<le> MAX_CONTENT_TYPE_LEN"
    by (simp_all add: MAX_DEADLINE_MS_def MAX_CONTENT_TYPE_LEN_def)
  from dial_exits_zero_iff_completed [OF parse this, of "[1]" "\<lambda>_ _ _ _. Ok (Outcome_Canceled, None)" "''h''"]
  show ?thesis by (simp add: Let_def)
qed

section \<open>The first poll of listen\<close>

text \<open>
  \<open>uat listen\<close> throws away the event that waits for it. Its first poll, made to report a daemon that
  is down, takes the event out of the daemon's slot and discards the answer: the run goes on exactly
  as if there had been none, whatever it is answered later, and the slot is empty.
\<close>

theorem listen_discards_waiting_event:
  "client_response emit lib dial LocalRequest_Inbox nd (Some ev) =
     (Done (LocalResponse_InboxEvent (ev_peer ev) (ev_outcome ev)), nd, None) \<and>
   cmd_listen debug (Ok home) (\<lambda>_. Ok (LocalResponse_InboxEvent (ev_peer ev) (ev_outcome ev))) True True as =
     listen_loop debug False as \<and>
   cmd_listen debug (Ok home) (\<lambda>_. Ok LocalResponse_InboxIdle) True True as = listen_loop debug False as \<and>
   listen_loop debug False (Lst_Poll (Ok LocalResponse_InboxIdle) # Lst_Pause_Over # as) = listen_loop debug False as"
  by (simp add: client_response_def cmd_listen_def map_err_simps)

end
