(* ===== verification/Two_Nodes.thy ===== *)
theory Two_Nodes
  imports Callee_Tasks Call_Protocol
begin

text \<open>
  The two ends of one call over a real connection: the caller task of one node and the callee task
  of another, joined only by what the caller read being something the callee wrote. The audit
  records the two nodes keep then agree. The counterpart for the in-memory harness, where the
  channel itself is part of the model, is in \<open>Chan_Harness\<close>.
\<close>

section \<open>Messages that end a call\<close>

fun message_outcome :: "message \<Rightarrow> outcome option" where
  "message_outcome (Message_Completed body) = Some Outcome_Completed"
| "message_outcome (Message_Failed code) = Some (Outcome_Failed code)"
| "message_outcome Message_Canceled = Some Outcome_Canceled"
| "message_outcome _ = None"

text \<open>A write that failed or did not return in time: the sender does not know whether it arrived.\<close>

definition write_lost :: "call_error \<Rightarrow> bool" where
  "write_lost e \<longleftrightarrow> e = CallError_NetworkTimeout \<or> (\<exists>fe. e = CallError_Frame fe)"

lemma await_network_lost: "await_network a = Err e \<Longrightarrow> write_lost e"
  by (auto simp: write_lost_def dest: await_network_cases)

section \<open>What the caller read\<close>

lemma caller_recv_ends:
  "caller_step state (Caller_Recv m) = Ok step \<Longrightarrow> step_state step = Caller_Terminal out \<Longrightarrow>
     message_outcome m = Some out"
  by (cases state; cases m) (auto simp: step_simps)

lemma caller_send_ends:
  "caller_step state (Caller_Send m) = Ok step \<Longrightarrow> step_state step \<noteq> Caller_Terminal out"
  by (cases state) (auto simp: step_simps split: message.splits if_splits)

lemma caller_loop_read:
  assumes "caller_select_loop state rc g sels = (Done (Ok out), g', acts)" and "wire_outcome out"
  shows "state = Caller_Terminal out \<or>
    (\<exists>m. CSel_Read (Some (Ok m)) \<in> set sels \<and> message_outcome m = Some out)"
  using assms(1)
proof (induction state rc g sels arbitrary: acts rule: caller_loop_induct)
  case (closed state rc g err sels)
  then show ?case using assms(2) by (auto simp: caller_loop_open Let_def split: if_splits)
next
  case (timer state rc g sels)
  then show ?case using assms(2) by (auto simp: caller_loop_open)
next
  case (sent state rc g w sels)
  show ?case
  proof (cases rc)
    case RC_Waiting
    with sent.prems sent.hyps obtain step acts0
      where st: "caller_step state (Caller_Send Message_Cancel) = Ok step"
        and run: "caller_select_loop (step_state step) RC_None g sels = (Done (Ok out), g', acts0)"
      by (auto simp: caller_loop_open split: sum.splits prod.splits)
    from sent.IH [OF run] caller_send_ends [OF st] show ?thesis by auto
  next
    case RC_None
    with sent.prems sent.hyps have run: "caller_select_loop state RC_None g sels = (Done (Ok out), g', acts)"
      by (simp add: caller_loop_open)
    from sent.IH [OF run] sent.hyps show ?thesis by auto
  qed (use sent in \<open>simp add: caller_loop_open\<close>)
next
  case (dropped state rc g sels)
  show ?case
  proof (cases "rc = RC_Completed")
    case True
    then show ?thesis using dropped by (simp add: caller_loop_open)
  next
    case False
    then obtain rc' where run: "caller_select_loop state rc' g sels = (Done (Ok out), g', acts)"
      using dropped.prems dropped.hyps by (cases rc) (simp_all add: caller_loop_open)
    from dropped.IH [OF run] dropped.hyps show ?thesis by auto
  qed
next
  case (read state rc g m sels)
  show ?case
  proof (cases "rc = RC_Completed")
    case True
    then show ?thesis using read by (simp add: caller_loop_open)
  next
    case rc: False
    show ?thesis
    proof (cases m rule: answer_cases)
      case (message msg)
      with read.prems read.hyps rc obtain step
        where st: "caller_step state (Caller_Recv msg) = Ok step"
          and run: "caller_select_loop (step_state step) rc g sels = (Done (Ok out), g', acts)"
        by (auto simp: caller_loop_open split: sum.splits)
      from read.IH [OF run] caller_recv_ends [OF st] message show ?thesis by auto
    qed (use read rc assms(2) in \<open>auto simp: caller_loop_open\<close>)
  qed
qed (auto simp: caller_loop_open)

text \<open>A caller task that ended with an outcome of the wire read the message that carries it.\<close>

lemma caller_body_read:
  assumes "caller_body started start peer submit opened w close_reason rc sels = (Done (Ok out), g, acts)"
    and "wire_outcome out"
  shows "\<exists>m. CSel_Read (Some (Ok m)) \<in> set sels \<and> message_outcome m = Some out"
proof -
  let ?new = "CallRecordGuard_new started start Direction_Outbound peer AuthOutcome_NotReached"
  obtain r1 g1 acts1 where loop: "caller_loop submit w close_reason rc sels ?new = (r1, g1, acts1)"
    using prod_cases3 by blast
  have r1: "r1 = Done (Ok out)"
    using assms(1) loop
    by (auto simp: caller_body_def Let_def split: if_splits stream_answer.splits option.splits progress.splits)
  obtain t d c cr b where submit: "submit = Message_Submit t d c cr b"
    using loop r1 by (cases submit) (simp_all add: caller_loop_def)
  obtain r2 g2 acts2 where run: "caller_select_loop Caller_Submitted rc (set_task ?new t) sels = (r2, g2, acts2)"
    using prod_cases3 by blast
  have "r2 = Done (Ok out)"
    using loop r1 run assms(2)
    by (auto simp: caller_loop_def submit caller_step_send Let_def split: sum.splits if_splits)
  with run caller_loop_read [OF _ assms(2)] show ?thesis by blast
qed

section \<open>What the callee wrote\<close>

lemma callee_emit_outcome:
  "callee_step state e = Ok step \<Longrightarrow> step_emit step = Some m \<Longrightarrow> message_outcome m = Some out \<Longrightarrow>
     step_state step = Callee_Terminal out"
  by (cases state; cases e) (auto simp: step_simps split: message.splits if_splits)

lemma act_written_on_error [simp]:
  "act_written (case err of CallError_Frame fe \<Rightarrow> close_on_frame_err fe | _ \<Rightarrow> []) = []"
  by (simp split: call_error.split)

text \<open>Whoever wrote an outcome ends with it, unless that very write got lost.\<close>

lemma callee_wait_wrote:
  assumes "callee_wait_terminal state ign sels = (r, acts)" and "m \<in> set (act_written acts)"
    and "message_outcome m = Some out"
  shows "r = Done (Ok out) \<or> (\<exists>e. r = Done (Err e) \<and> write_lost e)"
  using assms(1,2)
proof (induction state ign sels arbitrary: acts rule: callee_wait_induct)
  case (timer state ign w sels)
  then show ?case using assms(3) by (auto simp: callee_wait_open)
next
  case (read state ign ans w sels)
  show ?case
  proof (cases "\<exists>msg. ans = Some (Ok msg) \<and> \<not> ign")
    case False
    then show ?thesis
      using read
      by (cases ign; cases ans rule: answer_cases) (auto simp: callee_wait_open split: frame_io_error.splits)
  next
    case True
    then obtain msg where msg: "ans = Some (Ok msg)" and ign: "\<not> ign" by blast
    with read.prems read.hyps obtain step where st: "callee_step state (Callee_Recv msg) = Ok step"
      by (auto simp: callee_wait_open split: sum.splits)
    obtain r0 acts0 where run: "callee_wait_terminal (step_state step) False sels = (r0, acts0)"
      by fastforce
    show ?thesis
    proof (cases "step_emit step")
      case None
      with read.prems read.hyps msg ign st run have "r0 = r" "acts0 = acts"
        by (simp_all add: callee_wait_open)
      with read.IH [unfolded ign] run read.prems(2) ign show ?thesis by simp
    next
      case (Some emit)
      show ?thesis
      proof (cases "await_network w")
        case (Inl e)
        with read.prems read.hyps msg ign st Some have "r = Done (Err e)"
          by (simp add: callee_wait_open)
        with await_network_lost [OF Inl] show ?thesis by simp
      next
        case (Inr u)
        with read.prems read.hyps msg ign st Some run have r: "r0 = r" and acts: "acts = Act_Write emit # acts0"
          by (simp_all add: callee_wait_open)
        have "m \<in> set (act_written acts0) \<or> r0 = Done (Ok out)"
        proof (cases "m = emit")
          case True
          with callee_emit_outcome [OF st Some] assms(3) run show ?thesis by auto
        qed (use acts read.prems(2) in simp)
        with read.IH [of "step_state step" acts0] run r ign show ?thesis by auto
      qed
    qed
  qed
qed (auto simp: callee_wait_open Let_def)

lemma emit_stub_wrote:
  assumes "emit_stub Callee_Offered (stub_messages behavior) ws = (r, acts)"
  shows "act_written acts = [] \<or> hd (act_written acts) = Message_Accepted"
    and "m \<in> set (act_written acts) \<Longrightarrow> message_outcome m = Some out \<Longrightarrow>
      r = Done (Ok (Callee_Terminal out)) \<or> (\<exists>e. r = Done (Err e) \<and> write_lost e)"
    and "r = Done (Err e) \<Longrightarrow> write_lost e"
    and "r = Done (Ok state) \<Longrightarrow> act_written acts \<noteq> []"
proof -
  have "(act_written acts = [] \<or> hd (act_written acts) = Message_Accepted) \<and>
    (m \<in> set (act_written acts) \<and> message_outcome m = Some out \<longrightarrow>
      r = Done (Ok (Callee_Terminal out)) \<or> (\<exists>e. r = Done (Err e) \<and> write_lost e)) \<and>
    (r = Done (Err e) \<longrightarrow> write_lost e) \<and> (r = Done (Ok state) \<longrightarrow> act_written acts \<noteq> [])"
  proof (cases ws)
    case Nil
    with assms show ?thesis by (cases behavior) (auto simp: stub_messages_def)
  next
    case (Cons w ws')
    with assms show ?thesis
      by (cases behavior; cases "await_network w"; cases ws'; cases "await_network (hd ws')")
        (auto simp: stub_messages_def emit_callee_def step_simps dest: await_network_lost
          split: prod.splits sum.splits)
  qed
  then show "act_written acts = [] \<or> hd (act_written acts) = Message_Accepted"
    "m \<in> set (act_written acts) \<Longrightarrow> message_outcome m = Some out \<Longrightarrow>
      r = Done (Ok (Callee_Terminal out)) \<or> (\<exists>e. r = Done (Err e) \<and> write_lost e)"
    "r = Done (Err e) \<Longrightarrow> write_lost e"
    "r = Done (Ok state) \<Longrightarrow> act_written acts \<noteq> []"
    by blast+
qed

text \<open>The first thing an authorized call writes is its \<open>Accepted\<close>.\<close>

lemma handle_wrote:
  assumes "handle_authorized_submit behavior ws sels lng submit g = (r, g', acts)"
    and "m \<in> set (act_written acts)" and "message_outcome m = Some out"
  shows "hd (act_written acts) = Message_Accepted"
    and "r = Done (Ok out) \<or> r = Waiting \<or> (\<exists>e. r = Done (Err e) \<and> write_lost e)"
proof -
  obtain r1 acts1 where stub: "emit_stub Callee_Offered (stub_messages behavior) ws = (r1, acts1)"
    by fastforce
  note wrote = emit_stub_wrote [OF stub]
  have "hd (act_written acts) = Message_Accepted \<and>
    (r = Done (Ok out) \<or> r = Waiting \<or> (\<exists>e. r = Done (Err e) \<and> write_lost e))"
  proof (cases "\<exists>state. r1 = Done (Ok state)")
    case False
    then have "act_written acts = act_written acts1" and "r1 = Done (Err e) \<Longrightarrow> r = Done (Err e)"
      and "r1 = Waiting \<Longrightarrow> r = Waiting" for e
      using assms stub
      by (auto simp: handle_authorized_submit_def Let_def split: option.splits progress.splits sum.splits)
    with False wrote(1,2) assms(2,3) show ?thesis by fastforce
  next
    case True
    then obtain state where r1: "r1 = Done (Ok state)" by blast
    obtain r2 acts2 where wait: "callee_wait_terminal state (behavior = SilentHang) sels = (r2, acts2)"
      by fastforce
    have acts: "act_written acts = act_written acts1 @ act_written acts2"
      and r: "r = r2 \<or> r = Waiting \<and> (\<exists>v. r2 = Done (Ok v))"
      using assms(1,2) stub r1 wait
      by (auto simp: handle_authorized_submit_def Let_def
          split: option.splits progress.splits sum.splits linger.splits)
    have "r2 = Done (Ok out) \<or> (\<exists>e. r2 = Done (Err e) \<and> write_lost e)"
    proof (cases "m \<in> set (act_written acts2)")
      case True
      with callee_wait_wrote [OF wait] assms(3) show ?thesis by blast
    next
      case False
      with acts assms(2,3) wrote(2) r1 have "state = Callee_Terminal out" by auto
      with wait show ?thesis by simp
    qed
    with r acts wrote(1,4) r1 show ?thesis by auto
  qed
  then show "hd (act_written acts) = Message_Accepted"
    and "r = Done (Ok out) \<or> r = Waiting \<or> (\<exists>e. r = Done (Err e) \<and> write_lost e)" by blast+
qed

text \<open>An authorized call is never refused as unauthorized.\<close>

lemma callee_emits_no_refusal:
  "callee_step state (Callee_Recv msg) = Ok step \<Longrightarrow> step_emit step \<noteq> Some (Message_Failed code)"
  by (cases state) (auto simp: step_simps split: message.splits if_splits)

lemma callee_wait_no_refusal:
  "Message_Failed FailureCode_Unauthorized \<notin> set (act_written (snd (callee_wait_terminal state ign sels)))"
proof (induction state ign sels rule: callee_wait_induct)
  case (read state ign m w sels)
  then show ?case
    by (cases ign; cases m rule: answer_cases)
      (auto simp: callee_wait_open case_prod_unfold dest: callee_emits_no_refusal
        split: sum.split option.split frame_io_error.split)
qed (simp_all add: callee_wait_open Let_def)

lemma emit_stub_writes_stub:
  "set (act_written (snd (emit_stub state ms ws))) \<subseteq> set ms"
  by (induction state ms ws rule: emit_stub.induct)
    (auto simp: emit_callee_def case_prod_unfold split: sum.splits)

lemma handle_no_refusal:
  assumes "handle_authorized_submit behavior ws sels lng submit g = (r, g', acts)"
  shows "Message_Failed FailureCode_Unauthorized \<notin> set (act_written acts)"
proof -
  have "Message_Failed FailureCode_Unauthorized \<notin>
      set (act_written (snd (emit_stub Callee_Offered (stub_messages behavior) ws)))"
    using emit_stub_writes_stub [of Callee_Offered "stub_messages behavior" ws]
    by (cases behavior) (auto simp: stub_messages_def)
  with assms show ?thesis
    using callee_wait_no_refusal [of _ "behavior = SilentHang" sels]
    by (auto simp: handle_authorized_submit_def Let_def
        split: option.splits progress.splits sum.splits linger.splits prod.splits)
       (metis snd_conv)+
qed

text \<open>How a callee task ended that wrote an outcome and does not doubt its writes.\<close>

lemma callee_body_wrote:
  assumes "callee_body from_slice lib ops started start peer p now behavior accepted first ws sels lng =
      ((r, g, acts), p')"
    and "m \<in> set (act_written acts)" and "message_outcome m = Some out"
    and "r \<noteq> Waiting" and "\<forall>e. r = Done (Err e) \<longrightarrow> \<not> write_lost e"
  shows "(r = Done (Ok out) \<and> hd (act_written acts) = Message_Accepted \<and>
     out \<noteq> Outcome_Failed FailureCode_Unauthorized) \<or>
    (r = Done (Err CallError_Unauthorized) \<and> out = Outcome_Failed FailureCode_Unauthorized \<and>
     verify_peer p peer)"
proof -
  let ?new = "CallRecordGuard_new started start Direction_Inbound peer (AuthOutcome_Allowed AuthRule_Allowlist)"
  have gate: "verify_peer p peer" "accepted = Stream_Opened"
    using assms(1,2) by (auto simp: callee_body_def Let_def split: if_splits stream_answer.splits)
  obtain r2 g2 acts2 p2 where loop: "callee_loop from_slice lib ops peer p now behavior first ws sels lng ?new =
      ((r2, g2, acts2), p2)" by (metis prod_cases3 surj_pair)
  have same: "r2 = r" "acts2 = acts"
    using assms(1) gate loop by (auto simp: callee_body_def Let_def split: progress.splits)
  from loop show ?thesis
  proof (cases rule: callee_loop_cases)
    case silent
    with same assms(2) show ?thesis by simp
  next
    case refused
    with same assms(2,3) gate show ?thesis by auto
  next
    case (accepted frame header body a)
    have "out \<noteq> Outcome_Failed FailureCode_Unauthorized"
      using handle_no_refusal [OF accepted(4)] same assms(2,3) by (cases m) auto
    with handle_wrote [OF accepted(4)] same assms(2-5) show ?thesis by blast
  qed
qed

section \<open>Both audit records agree\<close>

lemma records_agree:
  assumes "run_caller_with MemoryCallRecordSink_emit view now sink started start callee_id submit opened w
      close_reason rc sels = (Done (Ok out), acts, sink')"
    and "run_callee_with MemoryCallRecordSink_emit view' now' csink from_slice lib ops started' start'
      caller_id p clock behavior accepted first ws esels lng = ((r, acts', csink'), p')"
    and "\<forall>m. CSel_Read (Some (Ok m)) \<in> set sels \<longrightarrow> m \<in> set (act_written acts')"
    and "\<forall>f. first = Some (FSel_Frame (Some (Ok f))) \<longrightarrow> encode to_vec submit [] = Ok f"
    and "serde_header b64 to_vec from_slice" and "message_wf b64 submit"
    and "wire_outcome out" and "r \<noteq> Waiting" and "\<forall>e. r = Done (Err e) \<longrightarrow> \<not> write_lost e"
  shows "\<exists>a b. mem_records sink' = mem_records sink @ [a] \<and> mem_records csink' = mem_records csink @ [b] \<and>
    cr_direction a = Direction_Outbound \<and> cr_direction b = Direction_Inbound \<and>
    cr_peer a = callee_id \<and> cr_peer b = caller_id \<and> cr_outcome a = out \<and> cr_outcome b = out \<and>
    (\<exists>t d c cr body. submit = Message_Submit t d c cr body \<and> cr_task a = Some t) \<and>
    (if out = Outcome_Failed FailureCode_Unauthorized
     then cr_task b = None \<and> (\<exists>reason. cr_authorization b = AuthOutcome_Denied reason)
     else cr_task b = cr_task a \<and> (\<exists>rule. cr_authorization b = AuthOutcome_Allowed rule))"
proof -
  let ?un = "Outcome_Failed FailureCode_Unauthorized"
  from memory_sink.caller_one_record [OF assms(1)] assms(7) obtain a t d c cr body
    where a: "mem_records sink' = mem_records sink @ [a]" "cr_direction a = Direction_Outbound"
      "cr_peer a = callee_id" "cr_outcome a = out"
      and submit: "submit = Message_Submit t d c cr body" "cr_task a = Some t"
    by fastforce
  from memory_sink.callee_one_record [OF assms(2)] assms(8) obtain b
    where b: "mem_records csink' = mem_records csink @ [b]" "cr_direction b = Direction_Inbound"
      "cr_peer b = caller_id" and ok: "r = Done (Ok out) \<Longrightarrow> cr_outcome b = out"
      and un: "r = Done (Err CallError_Unauthorized) \<Longrightarrow>
        (\<exists>reason. cr_authorization b = AuthOutcome_Denied reason) \<and> cr_task b = None \<and>
        cr_outcome b = (if verify_peer p caller_id then ?un else Outcome_Closed CloseCode_Normal)"
      and admitted: "act_written acts' \<noteq> [] \<and> act_written acts' \<noteq> [Message_Failed FailureCode_Unauthorized] \<Longrightarrow>
        \<exists>frame header body a t. first = Some (FSel_Frame (Some (Ok frame))) \<and>
          split_frame from_slice frame = Ok (header, body) \<and>
          authorize_submit_header lib ops header p caller_id clock = (Returns (Ok a), p') \<and>
          as_task a = Some t \<and> cr_task b = Some t \<and> cr_authorization b = AuthOutcome_Allowed (as_rule a)"
    by auto
  obtain m where m: "m \<in> set (act_written acts')" "message_outcome m = Some out"
    using assms(1,3,7) caller_body_read
    by (force simp: run_caller_with_def drop_guard_def split: prod.splits)
  obtain g acts1 where body: "callee_body from_slice lib ops started' start' caller_id p clock behavior accepted
      first ws esels lng = ((r, g, acts1), p')" and acts1: "acts1 = acts'"
    using assms(2) by (auto simp: run_callee_with_def drop_guard_def split: prod.splits)
  from callee_body_wrote [OF body [unfolded acts1] m assms(8,9)] show ?thesis
  proof (elim disjE conjE)
    assume "r = Done (Err CallError_Unauthorized)" "out = ?un" "verify_peer p caller_id"
    with a b un submit show ?thesis by auto
  next
    assume "r = Done (Ok out)" and hd: "hd (act_written acts') = Message_Accepted" and "out \<noteq> ?un"
    from m(1) hd have "act_written acts' \<noteq> [] \<and> act_written acts' \<noteq> [Message_Failed FailureCode_Unauthorized]"
      by auto
    from admitted [OF this] assms(4) obtain frame header body' x u
      where frame: "encode to_vec submit [] = Ok frame" "split_frame from_slice frame = Ok (header, body')"
        and auth: "authorize_submit_header lib ops header p caller_id clock = (Returns (Ok x), p')"
        and task: "as_task x = Some u" "cr_task b = Some u" "cr_authorization b = AuthOutcome_Allowed (as_rule x)"
      by blast
    have "header = header_of submit"
      using decode_parts_encode [OF assms(5,6) frame(1), of "[]"] frame(2) by (simp add: split_frame_def)
    with authorized_is_header(1) [OF auth] task(1) submit(1) have "u = t"
      by (simp add: as_task_def header_of_def)
    with a b ok \<open>r = Done (Ok out)\<close> \<open>out \<noteq> ?un\<close> submit task show ?thesis by auto
  qed
qed

text \<open>
  C9: The audit records of the two nodes agree. Take a call whose caller ended with an outcome the
  peer sent (completed, failed or canceled), over a connection on which the caller read nothing
  but messages the callee wrote, and on which the first frame the callee read, if any, is the encoded
  Submit. If the callee has ended, and not with a network timeout or a frame error (which leave it not
  knowing whether its last write arrived), then each node has kept exactly one record of the call, with
  that outcome in both. Both name the task of the Submit and the callee's
  names the rule that admitted it, except when the outcome is \<open>Failed(Unauthorized)\<close>: then the callee has
  recorded a denial without a task.
\<close>

theorem both_audit_records_agree:
  assumes "run_caller_with MemoryCallRecordSink_emit view now sink started start callee_id submit opened w
      close_reason rc sels = (Done (Ok out), acts, sink')"
    and "run_callee_with MemoryCallRecordSink_emit view' now' csink from_slice lib ops started' start'
      caller_id p clock behavior accepted first ws esels lng = ((r, acts', csink'), p')"
    and "\<forall>m. CSel_Read (Some (Ok m)) \<in> set sels \<longrightarrow> m \<in> set (act_written acts')"
    and "\<forall>f. first = Some (FSel_Frame (Some (Ok f))) \<longrightarrow> encode to_vec submit [] = Ok f"
    and "serde_header b64 to_vec from_slice" and "message_wf b64 submit"
    and "wire_outcome out" and "r \<noteq> Waiting" and "\<forall>e. r = Done (Err e) \<longrightarrow> \<not> write_lost e"
  shows "\<exists>a b. mem_records sink' = mem_records sink @ [a] \<and> mem_records csink' = mem_records csink @ [b] \<and>
    cr_direction a = Direction_Outbound \<and> cr_direction b = Direction_Inbound \<and>
    cr_peer a = callee_id \<and> cr_peer b = caller_id \<and> cr_outcome a = out \<and> cr_outcome b = out \<and>
    (\<exists>t d c cr body. submit = Message_Submit t d c cr body \<and> cr_task a = Some t) \<and>
    (if out = Outcome_Failed FailureCode_Unauthorized
     then cr_task b = None \<and> (\<exists>reason. cr_authorization b = AuthOutcome_Denied reason)
     else cr_task b = cr_task a \<and> (\<exists>rule. cr_authorization b = AuthOutcome_Allowed rule))"
  using assms by (rule records_agree)

text \<open>A callee of the stub behaviour that accepts the sample Submit of a peer on its allowlist.\<close>

lemma sample_frame:
  "encode sample_to_vec sample_submit [] = Ok [0, 0, 0, 3, 0, 1, 1]"
  "message_wf (\<lambda>_. None) sample_submit"
  by (simp_all add: encode_def put_frame_eq sample_submit_def sample_prefix MAX_DEADLINE_MS_def MAX_CONTENT_TYPE_LEN_def)

lemma sample_callee_run:
  obtains acts csink' p' where "run_callee_with MemoryCallRecordSink_emit
      \<lparr>cv_udp_tx = 0, cv_udp_rx = 0, cv_paths = []\<rparr> 0 MemoryCallRecordSink_new
      sample_from_slice sample_lib memory_ops 0 0 (NodeId [1]) (Policy_allow (NodeId [1])) 0 StubComplete Stream_Opened
      (Some (FSel_Frame (Some (Ok [0, 0, 0, 3, 0, 1, 1])))) [Some (Ok ()), Some (Ok ())] [] (Some Linger_Closed) =
      ((Done (Ok Outcome_Completed), acts, csink'), p')"
    and "act_written acts = [Message_Accepted, Message_Completed []]"
proof -
  let ?v = "\<lparr>cv_udp_tx = 0, cv_udp_rx = 0, cv_paths = []\<rparr>"
  let ?first = "Some (FSel_Frame (Some (Ok [0, 0, 0, 3, 0, 1, 1])))"
  let ?a = "\<lparr>as_rule = AuthRule_Allowlist, as_message = sample_submit\<rparr>"
  let ?p = "Policy_allow (NodeId [1]) :: (nat, memory_spent_set) policy"
  obtain r acts' csink' p' where callee: "run_callee_with MemoryCallRecordSink_emit ?v 0 MemoryCallRecordSink_new
      sample_from_slice sample_lib memory_ops 0 0 (NodeId [1]) ?p 0 StubComplete Stream_Opened ?first
      [Some (Ok ()), Some (Ok ())] [] (Some Linger_Closed) = ((r, acts', csink'), p')"
    by (metis prod_cases3 surj_pair)
  from decode_parts_encode [OF sample_serde sample_frame(2,1), of "[]"]
  have parts: "split_frame sample_from_slice [0, 0, 0, 3, 0, 1, 1] = Ok (sample_submit, [])"
    by (simp add: split_frame_def sample_submit_def header_of_def)
  have auth: "authorize_submit_header sample_lib memory_ops sample_submit ?p (NodeId [1]) 0 =
      (Returns (Ok ?a), ?p)"
    by (simp add: authorize_submit_header_def UnverifiedSubmit_from_header_def sample_submit_def
        UnverifiedSubmit_verify_def Policy_contains_def Policy_allow_def)
  have gate: "verify_peer ?p (NodeId [1])"
    by (simp add: verify_peer_def Policy_contains_def Policy_allow_def)
  have body: "as_with_body ?a [] = ?a" by (simp add: as_with_body_def sample_submit_def)
  have handled: "handle_authorized_submit StubComplete [Some (Ok ()), Some (Ok ())] [] (Some Linger_Closed) ?a g =
    (Done (Ok Outcome_Completed), set_task g (TaskId 1),
     [Act_Write Message_Accepted, Act_Write (Message_Completed []), Act_Finish])" for g
    by (simp add: handle_authorized_submit_def sample_submit_def as_deadline_def as_task_def
        stub_messages_def emit_callee_def step_simps await_network_def)
  have "r = Done (Ok Outcome_Completed)" and "act_written acts' = [Message_Accepted, Message_Completed []]"
    using callee
    by (auto simp: run_callee_with_def drop_guard_def callee_body_def callee_loop_def gate parts auth
        await_network_def body handled Let_def)
  with callee that show ?thesis by blast
qed

theorem both_audit_records_agree_witness:
  "\<exists>a b. mem_records (snd (snd (run_caller_with MemoryCallRecordSink_emit
       \<lparr>cv_udp_tx = 0, cv_udp_rx = 0, cv_paths = []\<rparr> 0 MemoryCallRecordSink_new 0 0 (NodeId [2])
       sample_submit Stream_Opened (Some (Ok ())) None RC_None
       [CSel_Read (Some (Ok Message_Accepted)), CSel_Read (Some (Ok (Message_Completed [])))]))) = [a] \<and>
     mem_records (snd (snd (fst (run_callee_with MemoryCallRecordSink_emit
       \<lparr>cv_udp_tx = 0, cv_udp_rx = 0, cv_paths = []\<rparr> 0 MemoryCallRecordSink_new sample_from_slice
       sample_lib memory_ops 0 0 (NodeId [1]) (Policy_allow (NodeId [1])) 0 StubComplete Stream_Opened
       (Some (FSel_Frame (Some (Ok [0, 0, 0, 3, 0, 1, 1])))) [Some (Ok ()), Some (Ok ())] []
       (Some Linger_Closed))))) = [b] \<and>
     cr_outcome a = Outcome_Completed \<and> cr_outcome b = Outcome_Completed \<and>
     cr_task a = Some (TaskId 1) \<and> cr_task b = Some (TaskId 1)"
proof -
  let ?v = "\<lparr>cv_udp_tx = 0, cv_udp_rx = 0, cv_paths = []\<rparr>"
  let ?sels = "[CSel_Read (Some (Ok Message_Accepted)), CSel_Read (Some (Ok (Message_Completed [])))]"
  obtain r1 acts sink' where caller: "run_caller_with MemoryCallRecordSink_emit ?v 0 MemoryCallRecordSink_new
      0 0 (NodeId [2]) sample_submit Stream_Opened (Some (Ok ())) None RC_None ?sels = (r1, acts, sink')"
    using prod_cases3 by blast
  then have r1: "r1 = Done (Ok Outcome_Completed)"
    by (simp add: run_caller_with_def drop_guard_def caller_body_def caller_loop_def sample_submit_def
        step_simps await_network_def Let_def)
  obtain acts' csink' p' where callee: "run_callee_with MemoryCallRecordSink_emit ?v 0 MemoryCallRecordSink_new
      sample_from_slice sample_lib memory_ops 0 0 (NodeId [1]) (Policy_allow (NodeId [1])) 0 StubComplete Stream_Opened
      (Some (FSel_Frame (Some (Ok [0, 0, 0, 3, 0, 1, 1])))) [Some (Ok ()), Some (Ok ())] [] (Some Linger_Closed) =
      ((Done (Ok Outcome_Completed), acts', csink'), p')"
    and w: "act_written acts' = [Message_Accepted, Message_Completed []]" by (rule sample_callee_run)
  from both_audit_records_agree [OF caller [unfolded r1] callee _ _ sample_serde sample_frame(2)] sample_frame(1) w
  obtain a b where "mem_records sink' = [a]" "mem_records csink' = [b]"
    "cr_outcome a = Outcome_Completed" "cr_outcome b = Outcome_Completed"
    "cr_task a = Some (TaskId 1)" "cr_task b = cr_task a"
    by (auto simp: MemoryCallRecordSink_new_def sample_submit_def)
  with caller callee show ?thesis by simp
qed

end
