(* ===== verification/End_To_End.thy ===== *)
theory End_To_End
  imports Cli Two_Nodes
begin

text \<open>
  A dial from the command line to the remote node and back: \<open>uat dial\<close>, the session on the local socket,
  the daemon's caller task and the remote node's callee task, composed as the binaries compose them.
\<close>

section \<open>The command's request\<close>

lemma outcome_debug_inj: "outcome_debug a = outcome_debug b \<longleftrightarrow> a = b"
proof -
  have "failure_code_debug f = failure_code_debug g \<longleftrightarrow> f = g" for f g by (cases f; cases g) simp_all
  moreover have "close_code_debug f = close_code_debug g \<longleftrightarrow> f = g" for f g by (cases f; cases g) simp_all
  ultimately show ?thesis by (cases a; cases b) simp_all
qed

lemma cmd_dial_prints:
  assumes "cmd_dial parse_addr home_dir stdin via args = (res, lines)" and "lines = [l, ''outcome='' @ outcome_debug out]"
  obtains d home body rtt where "parse_dial_args parse_addr args = Ok d" "home_dir = Ok home" "stdin = Ok body"
    "da_deadline_ms d \<le> MAX_DEADLINE_MS" "length (da_content_type d) \<le> MAX_CONTENT_TYPE_LEN"
    "via home (da_peer d) (da_addrs d) (Message_Submit (TaskId 1) (Deadline (da_deadline_ms d))
       (ContentType (da_content_type d)) None body) = Ok (out, rtt)"
    "res = Ok () \<longleftrightarrow> out = Outcome_Completed"
  using assms
  by (auto simp: cmd_dial_def and_then_Ok_iff map_err_Ok_iff Deadline_new_Ok_iff ContentType_new_Ok_iff
      TaskId_from_u128_def outcome_debug_inj split: sum.splits if_splits prod.splits)

text \<open>\<open>dial_via_sock\<close> is the session of the request it makes.\<close>

lemma dial_via_sock_Ok:
  assumes "fst (dial_via_sock os json io show_addr debug fs home peer addrs
      (Message_Submit t d ct cr body)) = Ok (out, rtt)"
  obtains c fs1 c1 where "connect_local os fs home = (Ok c, fs1)"
    "roundtrip_send json io c (LocalRequest_Dial peer (map show_addr addrs) t d ct cr body) = (Ok (), c1)"
    "fst (roundtrip_recv json io c1) = Ok (LocalResponse_DialResult out rtt)"
  using assms
  by (auto simp: dial_via_sock_def roundtrip_def Let_def split: sum.splits prod.splits local_response.splits)

text \<open>A dial result is the outcome of the caller task.\<close>

lemma dial_result_is_call:
  assumes "client_response emit lib (\<lambda>_ _. env) (LocalRequest_Dial peer addrs t d ct cr body) nd latest =
      (Done (LocalResponse_DialResult out rtt), nd', latest')"
  obtains key conn acts where "de_connect env = Ok (key, conn)"
    "run_caller emit (de_view env) (de_end env) (nd_records nd) (de_started env) (de_start env)
       (public_key_to_node_id key) (Message_Submit t d ct cr body) (de_opened env) (de_write env)
       (de_close_reason env) (de_selects env) = (Done (Ok out), acts, nd_records nd')"
  using assms
  by (auto simp: client_response_def build_dial_def and_then_Ok_iff Node_dial_def Let_def
      split: sum.splits prod.splits progress.splits if_splits)

section \<open>What the command prints\<close>

text \<open>
  C10: What \<open>uat dial\<close> prints is what both nodes have recorded. Take a run of the command that printed an
  outcome of the peer (completed, failed or canceled), over a Unix stream on whose other end the
  daemon's handler served the request it read: the handler's input is what the command's one request put
  on the stream, and what the command then reads is what the handler wrote. Suppose also that the daemon's
  caller task read nothing but messages that a remote callee wrote, and that the first frame that callee
  read, if any, is the encoded Submit of
  the command's arguments. If the callee has ended, and not with a network timeout or a frame error, then the
  daemon has recorded one outbound call and the remote node one inbound call, both with that outcome, and
  of task 1 unless the remote node has recorded that it denied the call; and the exit status is zero
  exactly when the outcome is \<open>Completed\<close>.
\<close>

theorem dial_prints_what_both_nodes_recorded:
  assumes "cmd_dial parse_addr (Ok home) (Ok body)
      (\<lambda>h p as m. fst (dial_via_sock os json cio show_addr debug fs h p as m)) args = (res, lines)"
    and "lines = [l, ''outcome='' @ outcome_debug out]" and "wire_outcome out"
    and "parse_dial_args parse_addr args = Ok d"
    and "submit = Message_Submit (TaskId 1) (Deadline (da_deadline_ms d)) (ContentType (da_content_type d)) None body"
    and "local_serde b64 json" and "duplex cio cview csent" and "duplex sio sview ssent"
    and "connect_local os fs home = (Ok c, fs1)" and "csent c = []" and "ssent s = []"
    and "req = LocalRequest_Dial (da_peer d) (map show_addr (da_addrs d)) (TaskId 1) (Deadline (da_deadline_ms d))
      (ContentType (da_content_type d)) None body"
    and "c1 = snd (roundtrip_send json cio c req)" and "sview s = csent c1" and "cview c1 = ssent s'"
    and "handle_client MemoryCallRecordSink_emit json sio lib (\<lambda>_ _. env) s nd latest =
      (Done (Ok ()), s', nd', latest')"
    and "run_callee_with MemoryCallRecordSink_emit view now csink from_slice blib ops started start
      caller_id p clock behavior accepted first ws esels lng = ((r, acts, csink'), p')"
    and "\<forall>m. CSel_Read (Some (Ok m)) \<in> set (de_selects env) \<longrightarrow> m \<in> set (act_written acts)"
    and "\<forall>f. first = Some (FSel_Frame (Some (Ok f))) \<longrightarrow> encode to_vec submit [] = Ok f"
    and "serde_header b64 to_vec from_slice"
    and "r \<noteq> Waiting" and "\<forall>e. r = Done (Err e) \<longrightarrow> \<not> write_lost e"
  shows "(res = Ok () \<longleftrightarrow> out = Outcome_Completed) \<and>
    (\<exists>a b. mem_records (nd_records nd') = mem_records (nd_records nd) @ [a] \<and>
      mem_records csink' = mem_records csink @ [b] \<and>
      cr_direction a = Direction_Outbound \<and> cr_direction b = Direction_Inbound \<and> cr_peer b = caller_id \<and>
      cr_outcome a = out \<and> cr_outcome b = out \<and> cr_task a = Some (TaskId 1) \<and>
      (if out = Outcome_Failed FailureCode_Unauthorized
       then cr_task b = None \<and> (\<exists>reason. cr_authorization b = AuthOutcome_Denied reason)
       else cr_task b = Some (TaskId 1) \<and> (\<exists>rule. cr_authorization b = AuthOutcome_Allowed rule)))"
proof -
  from assms(1,2) obtain rtt where status: "res = Ok () \<longleftrightarrow> out = Outcome_Completed"
    and dl: "da_deadline_ms d \<le> MAX_DEADLINE_MS" "length (da_content_type d) \<le> MAX_CONTENT_TYPE_LEN"
    and via: "fst (dial_via_sock os json cio show_addr debug fs home (da_peer d) (da_addrs d)
      (Message_Submit (TaskId 1) (Deadline (da_deadline_ms d)) (ContentType (da_content_type d)) None body)) =
      Ok (out, rtt)"
    by (cases rule: cmd_dial_prints) (auto simp: assms(4))
  from via have "roundtrip_send json cio c req = (Ok (), c1) \<and>
      fst (roundtrip_recv json cio c1) = Ok (LocalResponse_DialResult out rtt)"
    by (cases rule: dial_via_sock_Ok) (simp add: assms(9,12,13))
  then have send: "roundtrip_send json cio c req = (Ok (), c1)"
    and recv: "fst (roundtrip_recv json cio c1) = Ok (LocalResponse_DialResult out rtt)" by simp_all
  have wf: "message_wf b64 submit" using dl by (simp add: assms(5))
  then have "request_wf b64 req" by (simp add: assms(5,12))
  from local_session [OF assms(6) this assms(7,8) send assms(10,14,11,16,15)] recv
  have "client_response MemoryCallRecordSink_emit lib (\<lambda>_ _. env) req nd latest =
      (Done (LocalResponse_DialResult out rtt), nd', latest')" by auto
  then obtain key conn acts1 where "de_connect env = Ok (key, conn)"
    and call: "run_caller MemoryCallRecordSink_emit (de_view env) (de_end env) (nd_records nd) (de_started env)
       (de_start env) (public_key_to_node_id key) submit (de_opened env) (de_write env)
       (de_close_reason env) (de_selects env) = (Done (Ok out), acts1, nd_records nd')"
    unfolding assms(5,12) by (rule dial_result_is_call)
  from records_agree [OF call [unfolded run_caller_def] assms(17-20) wf assms(3,21,22)] status
  show ?thesis by (auto simp: assms(5) split: if_splits)
qed

text \<open>A daemon behind a socket and a remote callee, for the witness: one completed call.\<close>

definition dial_request :: local_request where
  "dial_request = LocalRequest_Dial ''p'' [''a''] (TaskId 1) (Deadline 1000) (ContentType ''text/plain'') None []"

definition dial_json :: local_json where
  "dial_json =
     \<lparr>lj_request_to_vec = (\<lambda>r. if r = dial_request then Some [1] else if r = LocalRequest_Inbox then Some [3] else None),
      lj_request_from_slice = (\<lambda>h. if h = [1] then Some dial_request else if h = [3] then Some LocalRequest_Inbox else None),
      lj_response_to_vec = (\<lambda>r. if r = LocalResponse_DialResult Outcome_Completed None then Some [2] else None),
      lj_response_from_slice = (\<lambda>h. if h = [2] then Some (LocalResponse_DialResult Outcome_Completed None) else None)\<rparr>"

lemma dial_serde: "local_serde b64 dial_json"
  by (auto simp: local_serde_def serde_request_def serde_response_def dial_json_def dial_request_def)

definition dial_os :: "(unit, bytes \<times> bytes, unit) sock_os" where
  "dial_os =
     \<lparr>so_create_dir_all = (\<lambda>fs p. (Ok (), fs)), so_exists = (\<lambda>fs p. True),
      so_connect = (\<lambda>fs p. (Ok ([0, 0, 0, 3, 0, 1, 2], []), fs)), so_remove_file = (\<lambda>fs p. (Ok (), fs)),
      so_bind = (\<lambda>fs p. (Ok (), fs)), so_set_permissions = (\<lambda>fs p w. (Ok (), fs)), so_mode = (\<lambda>fs p. Ok 384)\<rparr>"

definition completing_env :: caller_env where
  "completing_env = \<lparr>de_connect = Ok ([2], sample_view), de_view = sample_view, de_end = 0, de_started = 0,
     de_start = 0, de_opened = Stream_Opened, de_write = Some (Ok ()), de_close_reason = None,
     de_selects = [CSel_Read (Some (Ok Message_Accepted)), CSel_Read (Some (Ok (Message_Completed [])))]\<rparr>"

lemma dial_send:
  "roundtrip_send dial_json pair_io (i, []) dial_request = (Ok (), (i, [0, 0, 0, 3, 0, 1, 1]))"
  by (simp add: roundtrip_send_def encode_request_def ok_or_def dial_json_def dial_request_def
      encode_json_frame_peer map_err_simps put_frame_eq local_write_frame_def pair_io_def sample_prefix)

lemma completing_call:
  obtains acts sink where "run_caller MemoryCallRecordSink_emit sample_view 0 MemoryCallRecordSink_new 0 0 peer sample_submit
      Stream_Opened (Some (Ok ())) None (de_selects completing_env) = (Done (Ok Outcome_Completed), acts, sink)"
proof -
  obtain r acts sink where run: "run_caller MemoryCallRecordSink_emit sample_view 0 MemoryCallRecordSink_new 0 0 peer sample_submit
      Stream_Opened (Some (Ok ())) None (de_selects completing_env) = (r, acts, sink)" using prod_cases3 by blast
  then have "r = Done (Ok Outcome_Completed)"
    by (simp add: run_caller_def run_caller_with_def drop_guard_def caller_body_def caller_loop_def sample_submit_def
        step_simps await_network_def completing_env_def Let_def)
  with run that show ?thesis by blast
qed

lemma dial_handled:
  obtains nd' where "handle_client MemoryCallRecordSink_emit dial_json pair_io sample_addr_lib (\<lambda>_ _. completing_env)
      ([0, 0, 0, 3, 0, 1, 1], []) sample_node None = (Done (Ok ()), ([], [0, 0, 0, 3, 0, 1, 2]), nd', None)"
proof -
  obtain acts sink where call: "run_caller MemoryCallRecordSink_emit sample_view 0 MemoryCallRecordSink_new 0 0
      (public_key_to_node_id [2]) sample_submit Stream_Opened (Some (Ok ())) None (de_selects completing_env) =
      (Done (Ok Outcome_Completed), acts, sink)" by (rule completing_call)
  have rd: "local_read_frame pair_io ([0, 0, 0, 3, 0, 1, 1], []) = (Ok [0, 0, 0, 3, 0, 1, 1], ([], []))"
    by (simp add: local_read_frame_def pair_io_def from_be_bytes_def MAX_FRAME_def Let_def)
  have dec: "decode_request (lj_request_from_slice dial_json) [0, 0, 0, 3, 0, 1, 1] = Ok dial_request"
    by (simp add: decode_request_def local_decode_parts_peer frame_parts_eq map_err_simps dial_json_def
        dial_request_def ok_or_def Let_def)
  have "connection_rtt sample_view = None" by (simp add: connection_rtt_def sample_view_def)
  with call have resp: "\<exists>nd'. client_response MemoryCallRecordSink_emit sample_addr_lib (\<lambda>_ _. completing_env) dial_request
      sample_node None = (Done (LocalResponse_DialResult Outcome_Completed None), nd', None)"
    by (simp add: client_response_def dial_request_def build_dial_def sample_addr_lib_def Node_dial_def
        completing_env_def sample_node_def sample_submit_def Let_def)
  have "encode_response (lj_response_to_vec dial_json) (LocalResponse_DialResult Outcome_Completed None) [] =
      Ok [0, 0, 0, 3, 0, 1, 2]"
    by (simp add: encode_response_def ok_or_def dial_json_def encode_json_frame_peer map_err_simps put_frame_eq
        sample_prefix)
  with resp rd dec that show ?thesis
    by (auto simp: handle_client_def local_write_frame_def pair_io_def)
qed

theorem dial_prints_what_both_nodes_recorded_witness:
  "\<exists>nd' a b. cmd_dial (\<lambda>a. Some a) (Ok ''h'') (Ok [])
       (\<lambda>h p as m. fst (dial_via_sock dial_os dial_json pair_io (\<lambda>a. a) (\<lambda>_. []) () h p as m))
       [''p'', ''--deadline'', ''1000'', ''--content-type'', ''text/plain'', ''--addr'', ''a''] =
       (Ok (), [''rtt_ms=unknown'', ''outcome=Completed'']) \<and>
     handle_client MemoryCallRecordSink_emit dial_json pair_io sample_addr_lib (\<lambda>_ _. completing_env)
       ([0, 0, 0, 3, 0, 1, 1], []) sample_node None = (Done (Ok ()), ([], [0, 0, 0, 3, 0, 1, 2]), nd', None) \<and>
     mem_records (nd_records nd') = [a] \<and> mem_records (snd (snd (fst (run_callee_with MemoryCallRecordSink_emit
       \<lparr>cv_udp_tx = 0, cv_udp_rx = 0, cv_paths = []\<rparr> 0 MemoryCallRecordSink_new sample_from_slice
       sample_lib memory_ops 0 0 (NodeId [1]) (Policy_allow (NodeId [1])) 0 StubComplete Stream_Opened
       (Some (FSel_Frame (Some (Ok [0, 0, 0, 3, 0, 1, 1])))) [Some (Ok ()), Some (Ok ())] []
       (Some Linger_Closed))))) = [b] \<and>
     cr_outcome a = Outcome_Completed \<and> cr_outcome b = Outcome_Completed \<and> cr_task b = Some (TaskId 1)"
proof -
  let ?args = "[''p'', ''--deadline'', ''1000'', ''--content-type'', ''text/plain'', ''--addr'', ''a'']"
  let ?via = "\<lambda>h p as m. fst (dial_via_sock dial_os dial_json pair_io (\<lambda>a. a) (\<lambda>_. []) () h p as m)"
  let ?d = "\<lparr>da_peer = ''p'', da_deadline_ms = 1000, da_content_type = ''text/plain'', da_addrs = [''a'']\<rparr>"
  have parse: "parse_dial_args (\<lambda>a. Some a) ?args = Ok ?d"
    by (simp add: parse_dial_args_def u32_from_str_def decimal_val_def of_char_def ok_or_def)
  have conn: "connect_local dial_os () ''h'' = (Ok ([0, 0, 0, 3, 0, 1, 2], []), ())"
    by (simp add: connect_local_def dial_os_def)
  obtain nd' where handled: "handle_client MemoryCallRecordSink_emit dial_json pair_io sample_addr_lib
      (\<lambda>_ _. completing_env) ([0, 0, 0, 3, 0, 1, 1], []) sample_node None =
      (Done (Ok ()), ([], [0, 0, 0, 3, 0, 1, 2]), nd', None)" by (rule dial_handled)
  obtain acts csink p' where callee: "run_callee_with MemoryCallRecordSink_emit
      \<lparr>cv_udp_tx = 0, cv_udp_rx = 0, cv_paths = []\<rparr> 0 MemoryCallRecordSink_new
      sample_from_slice sample_lib memory_ops 0 0 (NodeId [1]) (Policy_allow (NodeId [1])) 0 StubComplete Stream_Opened
      (Some (FSel_Frame (Some (Ok [0, 0, 0, 3, 0, 1, 1])))) [Some (Ok ()), Some (Ok ())] [] (Some Linger_Closed) =
      ((Done (Ok Outcome_Completed), acts, csink), p')"
    and w: "act_written acts = [Message_Accepted, Message_Completed []]" by (rule sample_callee_run)
  have "fst (roundtrip_recv dial_json pair_io ([0, 0, 0, 3, 0, 1, 2], [0, 0, 0, 3, 0, 1, 1])) =
      Ok (LocalResponse_DialResult Outcome_Completed None)"
    by (simp add: roundtrip_recv_def local_read_frame_def pair_io_def from_be_bytes_def MAX_FRAME_def Let_def
        decode_response_def local_decode_parts_peer frame_parts_eq map_err_simps dial_json_def ok_or_def)
  moreover have "roundtrip_send dial_json pair_io ([0, 0, 0, 3, 0, 1, 2], []) dial_request =
      (Ok (), ([0, 0, 0, 3, 0, 1, 2], [0, 0, 0, 3, 0, 1, 1]))" by (simp add: dial_send)
  ultimately have "?via ''h'' ''p'' [''a''] sample_submit = Ok (Outcome_Completed, None)"
    by (simp add: dial_via_sock_def sample_submit_def conn roundtrip_def dial_request_def Let_def)
  then have run: "cmd_dial (\<lambda>a. Some a) (Ok ''h'') (Ok []) ?via ?args =
      (Ok (), [''rtt_ms=unknown'', ''outcome=Completed''])"
    by (simp add: cmd_dial_def parse Deadline_new_def ContentType_new_def MAX_DEADLINE_MS_def
        MAX_CONTENT_TYPE_LEN_def map_err_simps TaskId_from_u128_def sample_submit_def)
  note both = dial_prints_what_both_nodes_recorded [where l = "''rtt_ms=unknown''" and out = Outcome_Completed
      and submit = sample_submit and req = dial_request and ?b64.0 = "\<lambda>_. None", OF run _ _ parse _ dial_serde
      pair_duplex pair_duplex conn _ _ _ refl _ _ handled callee _ _ sample_serde]
  from both  obtain a b where "mem_records (nd_records nd') = [a]" "mem_records csink = [b]"
    "cr_outcome a = Outcome_Completed" "cr_outcome b = Outcome_Completed" "cr_task b = Some (TaskId 1)"
    using w sample_frame(1)
    by (auto simp: dial_send dial_request_def [symmetric] sample_submit_def completing_env_def MemoryCallRecordSink_new_def sample_node_def)
  with run handled callee show ?thesis by auto
qed

end
