(* ===== verification/Node_Connection.thy ===== *)
theory Node_Connection
  imports Node
begin

text \<open>
  One inbound connection of src/crates/uat-node/src/node.rs, from its handshake to the end of its
  call, whatever the other tasks of the node do meanwhile.
\<close>

section \<open>What a call leaves alone\<close>

definition same_gate :: "('pk, 's) policy \<Rightarrow> ('pk, 's) policy \<Rightarrow> bool" where
  "same_gate p p' \<longleftrightarrow>
     policy_allowlist p' = policy_allowlist p \<and> policy_root_keys p' = policy_root_keys p"

lemma same_gate_refl [simp]: "same_gate p p"
  by (simp add: same_gate_def)

lemma same_gate_verify_peer: "same_gate p p' \<Longrightarrow> verify_peer p' = verify_peer p"
  by (simp add: fun_eq_iff same_gate_def verify_peer_def Policy_contains_def has_biscuit_roots_def)

lemma credential_same_gate:
  "same_gate p (snd (verify_biscuit_credential lib ops p cred dl ct now))"
  by (simp add: verify_biscuit_credential_def same_gate_def
      split: returns.split sum.split prod.split bool.split)

lemma verify_same_gate: "same_gate p (snd (UnverifiedSubmit_verify lib ops u p peer now))"
  by (simp add: UnverifiedSubmit_verify_def case_prod_unfold credential_same_gate split: message.split option.split)

lemma authorize_same_gate: "same_gate p (snd (authorize_submit_header lib ops header p peer now))"
  by (simp add: authorize_submit_header_def verify_same_gate split: sum.split)

lemma authorize_same_gateD:
  "authorize_submit_header lib ops header p peer now = (r, p') \<Longrightarrow> same_gate p p'"
  using authorize_same_gate [of p lib ops header peer now] by simp

lemma authorize_first_same_gate: "same_gate p (snd (authorize_first from_slice lib ops peer p now first))"
  by (auto simp: authorize_first_def dest: authorize_same_gateD
      split: option.split first_select.split sum.split prod.split)

section \<open>One connection\<close>

lemma perform_effects_simps [simp]:
  "perform_effects emit [] nd = nd"
  "perform_effects emit (eff # effs) nd = perform_effects emit effs (perform_effect emit eff nd)"
  by (simp_all add: perform_effects_def)

text \<open>The gates and the end of a call, with their effects performed at once.\<close>

lemma incoming_gate_eq:
  "incoming_gate emit ge nd =
     (case ge_incoming ge of
        Err e \<Rightarrow> ((Gate_Done (Err (DaemonError_Connect e)), []), nd)
      | Ok (key, conn) \<Rightarrow>
          (let peer = public_key_to_node_id key in
           if \<not> verify_peer (nd_verify nd) peer
           then ((Gate_Done (Ok ()), [close_with CloseCode_Normal]),
                 nd\<lparr>nd_records := emit (nd_records nd)
                      (refused_record (ge_started_at ge) (ge_start ge) (ge_end ge) peer
                         (AuthOutcome_Denied ''not on allowlist'') CloseCode_Normal conn)\<rparr>)
           else case try_admit_at (nd_rate_limiter nd) peer (ge_admit_now ge) of
                  (Ok permit, lim) \<Rightarrow> ((Gate_Call peer permit, []), nd\<lparr>nd_rate_limiter := lim\<rparr>)
                | (Err reason, lim) \<Rightarrow>
                    ((Gate_Done (Ok ()), [close_with CloseCode_RateLimited]),
                     nd\<lparr>nd_rate_limiter := lim,
                        nd_records := emit (nd_records nd)
                          (refused_record (ge_started_at ge) (ge_start ge) (ge_end ge) peer
                             AuthOutcome_NotReached CloseCode_RateLimited conn)\<rparr>)))"
  by (simp add: incoming_gate_def gate_decision_def Let_def split: sum.split prod.split)

lemma guard_drop_collected:
  "guard_drop emit view t g sink = foldl emit sink (guard_drop (\<lambda>emitted r. emitted @ [r]) view t g [])"
  by (simp add: guard_drop_def emit_now_def Let_def split: prod.split)

lemma perform_records [simp]:
  "perform_effects emit (map Eff_Record rs @ effs) nd =
     perform_effects emit effs (nd\<lparr>nd_records := foldl emit (nd_records nd) rs\<rparr>)"
  by (induction rs arbitrary: nd) simp_all

lemma incoming_call_eq:
  "incoming_call emit from_slice lib ops env peer permit p nd =
     (case run_callee_with emit (ce_view env) (ce_end env) (nd_records nd) from_slice lib ops
             (ce_started env) (ce_start env) peer p (ce_now env) (nd_callee_behavior nd)
             (ce_accepted env) (ce_first env) (ce_writes env) (ce_selects env) (ce_linger env) of
        ((call, acts, sink), _) \<Rightarrow>
          (let nd = nd\<lparr>nd_records := sink\<rparr>;
               dropped = nd\<lparr>nd_rate_limiter := RateLimitPermit_drop permit (nd_rate_limiter nd)\<rparr> in
           case call of
             Waiting \<Rightarrow> ((Waiting, acts), nd)
           | Panicked \<Rightarrow> ((Panicked, acts), dropped)
           | Done (Ok out) \<Rightarrow>
               ((Done (Ok ()), acts),
                dropped\<lparr>nd_inbox := inbox_try_send (nd_inbox nd)
                          \<lparr>ev_peer = node_id_debug peer, ev_outcome = out\<rparr>\<rparr>)
           | Done (Err CallError_Cancelled) \<Rightarrow> ((Done (Ok ()), acts), dropped)
           | Done (Err err) \<Rightarrow> ((Done (Err (DaemonError_Call err)), acts), dropped)))"
proof -
  obtain call g acts q where body: "callee_body from_slice lib ops (ce_started env) (ce_start env) peer p (ce_now env)
      (nd_callee_behavior nd) (ce_accepted env) (ce_first env) (ce_writes env) (ce_selects env) (ce_linger env) =
    ((call, g, acts), q)" by (metis surj_pair)
  define emitted where "emitted = guard_drop (\<lambda>emitted r. emitted @ [r]) (ce_view env) (ce_end env) g []"
  have "guard_drop emit (ce_view env) (ce_end env) g (nd_records nd) = foldl emit (nd_records nd) emitted"
    unfolding emitted_def by (rule guard_drop_collected)
  then show ?thesis
    by (cases call)
      (auto simp: incoming_call_def call_finish_def run_callee_with_def body drop_guard_def Let_def
        emitted_def [symmetric] split: sum.split call_error.split)
qed

lemma refused_record_simps [simp]:
  "cr_peer (refused_record a b c peer auth code conn) = peer"
  "cr_task (refused_record a b c peer auth code conn) = None"
  "cr_direction (refused_record a b c peer auth code conn) = Direction_Inbound"
  "cr_authorization (refused_record a b c peer auth code conn) = auth"
  "cr_outcome (refused_record a b c peer auth code conn) = Outcome_Closed code"
  by (simp_all add: refused_record_def connection_bytes_def)

lemma admitted_permit:
  assumes "try_admit_at lim p now = (Ok k, lim')"
  shows "k = \<lparr>permit_peer = p, permit_released = False\<rparr>"
  using admit_ok(1) [OF assms] .

text \<open>
  The first moment of a call does to the policy what its task does as a whole, so a call that nothing
  interleaves with is the task run on the node's policy.
\<close>

lemma submit_is_policy_of_task:
  "nd_verify (incoming_submit from_slice lib ops peer accepted now first nd) =
     snd (run_callee_with emit view t sink from_slice lib ops started start peer (nd_verify nd) now
       behavior accepted first ws sels lng)"
  by (simp add: incoming_submit_def run_callee_with_def callee_body_policy case_prod_unfold)

lemma incoming_submit_simps [simp]:
  "nd_records (incoming_submit from_slice lib ops peer accepted now first nd) = nd_records nd"
  "nd_rate_limiter (incoming_submit from_slice lib ops peer accepted now first nd) = nd_rate_limiter nd"
  "nd_inbox (incoming_submit from_slice lib ops peer accepted now first nd) = nd_inbox nd"
  by (simp_all add: incoming_submit_def)

lemma incoming_submit_same_gate:
  "same_gate (nd_verify nd) (nd_verify (incoming_submit from_slice lib ops peer accepted now first nd))"
  by (simp add: incoming_submit_def authorize_first_same_gate)

text \<open>What an ended call does to the node: its permit is released once, one record is added.\<close>

lemma incoming_call_frame:
  assumes "incoming_call emit from_slice lib ops env peer permit p nd = ((r, acts), nd')"
  shows "nd_verify nd' = nd_verify nd"
    and "ch_capacity (nd_inbox nd') = ch_capacity (nd_inbox nd)"
    and "nd_rate_limiter nd' = (if r = Waiting then nd_rate_limiter nd
           else RateLimitPermit_drop permit (nd_rate_limiter nd))"
    and "length (ch_queue (nd_inbox nd)) \<le> ch_capacity (nd_inbox nd) \<Longrightarrow>
           length (ch_queue (nd_inbox nd')) \<le> ch_capacity (nd_inbox nd)"
proof -
  obtain call acts1 sink q where run: "run_callee_with emit (ce_view env) (ce_end env) (nd_records nd)
      from_slice lib ops (ce_started env) (ce_start env) peer p (ce_now env)
      (nd_callee_behavior nd) (ce_accepted env) (ce_first env) (ce_writes env) (ce_selects env)
      (ce_linger env) = ((call, acts1, sink), q)" by (metis prod_cases3 surj_pair)
  note eq = assms [unfolded incoming_call_eq run]
  from eq show "nd_verify nd' = nd_verify nd"
    by (auto simp: Let_def split: progress.splits sum.splits call_error.splits)
  from eq show "nd_rate_limiter nd' = (if r = Waiting then nd_rate_limiter nd
           else RateLimitPermit_drop permit (nd_rate_limiter nd))"
    by (auto simp: Let_def split: progress.splits sum.splits call_error.splits)
  from eq show "ch_capacity (nd_inbox nd') = ch_capacity (nd_inbox nd)"
    by (auto simp: Let_def inbox_try_send_def split: progress.splits sum.splits call_error.splits)
  from eq show "length (ch_queue (nd_inbox nd')) \<le> ch_capacity (nd_inbox nd)"
    if "length (ch_queue (nd_inbox nd)) \<le> ch_capacity (nd_inbox nd)"
    using that
    by (auto simp: Let_def inbox_try_send_def split: progress.splits sum.splits call_error.splits if_splits)
qed

context call_record_sink
begin

lemma incoming_call_record:
  assumes "incoming_call emit from_slice lib ops env peer permit p nd = ((r, acts), nd')"
  shows "if r = Waiting then seen (nd_records nd') = seen (nd_records nd)
    else \<exists>rec. seen (nd_records nd') = seen (nd_records nd) @ [rec] \<and> cr_peer rec = peer \<and>
      cr_direction rec = Direction_Inbound \<and>
      auth_explained (callee_rule from_slice lib ops peer p (ce_now env) (ce_accepted env) (ce_first env))
        (cr_authorization rec)"
proof -
  obtain call acts1 sink q where run: "run_callee_with emit (ce_view env) (ce_end env) (nd_records nd)
      from_slice lib ops (ce_started env) (ce_start env) peer p (ce_now env)
      (nd_callee_behavior nd) (ce_accepted env) (ce_first env) (ce_writes env) (ce_selects env)
      (ce_linger env) = ((call, acts1, sink), q)" by (metis prod_cases3 surj_pair)
  from assms have "nd_records nd' = sink" "r = Waiting \<longleftrightarrow> call = Waiting"
    by (auto simp: incoming_call_eq run Let_def split: progress.splits sum.splits call_error.splits)
  with callee_record_rule [OF run] callee_one_record [OF run] show ?thesis by (cases "call = Waiting") auto
qed

end

text \<open>
  C14: Every inbound connection goes through the gates in order and is audited once. A peer the gate does
  not let in is closed with \<open>Normal\<close> and recorded as \<open>Denied\<close>, and neither the limiter nor the
  policy is touched; an admitted peer over its limits is closed with \<open>RateLimited\<close> and recorded as
  \<open>NotReached\<close>, with no stream accepted; otherwise its call runs: its first frame is authorized
  against the policy, and when it ends, by a result or by a panic, one inbound record of that peer was
  added, which names the rule that was granted, and its permit was released once. Until then it
  holds its permit and has recorded nothing. Whatever the other tasks of the node do between its moments.
\<close>

theorem connection_gates_and_audit:
  assumes "handle_incoming MemoryCallRecordSink_emit from_slice lib ops ge others env others' nd = ((r, acts), nd')"
    and "ge_incoming ge = Ok (key, conn)" and "peer = public_key_to_node_id key"
  shows "if \<not> verify_peer (nd_verify nd) peer
    then r = Done (Ok ()) \<and> acts = [close_with CloseCode_Normal] \<and>
      nd_rate_limiter nd' = nd_rate_limiter nd \<and> nd_verify nd' = nd_verify nd \<and>
      (\<exists>rec. mem_records (nd_records nd') = mem_records (nd_records nd) @ [rec] \<and> cr_peer rec = peer \<and>
        cr_authorization rec = AuthOutcome_Denied ''not on allowlist'' \<and> cr_task rec = None \<and>
        cr_outcome rec = Outcome_Closed CloseCode_Normal)
    else case try_admit_at (nd_rate_limiter nd) peer (ge_admit_now ge) of
      (Err _, lim) \<Rightarrow> r = Done (Ok ()) \<and> acts = [close_with CloseCode_RateLimited] \<and>
        nd_rate_limiter nd' = lim \<and> nd_verify nd' = nd_verify nd \<and>
        (\<exists>rec. mem_records (nd_records nd') = mem_records (nd_records nd) @ [rec] \<and> cr_peer rec = peer \<and>
          cr_authorization rec = AuthOutcome_NotReached \<and> cr_task rec = None \<and>
          cr_outcome rec = Outcome_Closed CloseCode_RateLimited)
    | (Ok _, lim) \<Rightarrow>
        (let nd1 = others (nd\<lparr>nd_rate_limiter := lim\<rparr>);
             nd2 = others' (incoming_submit from_slice lib ops peer (ce_accepted env) (ce_now env) (ce_first env) nd1) in
         nd_verify nd' = nd_verify nd2 \<and>
         (if r = Waiting
          then mem_records (nd_records nd') = mem_records (nd_records nd2) \<and> nd_rate_limiter nd' = nd_rate_limiter nd2
          else (\<exists>rec. mem_records (nd_records nd') = mem_records (nd_records nd2) @ [rec] \<and>
                  cr_peer rec = peer \<and> cr_direction rec = Direction_Inbound \<and>
                  auth_explained (callee_rule from_slice lib ops peer (nd_verify nd1) (ce_now env)
                    (ce_accepted env) (ce_first env)) (cr_authorization rec)) \<and>
               nd_rate_limiter nd' = RateLimiter_release (nd_rate_limiter nd2) peer))"
proof (cases "verify_peer (nd_verify nd) peer")
  case False
  with assms show ?thesis
    by (auto simp: handle_incoming_def incoming_gate_eq Let_def MemoryCallRecordSink_emit_def)
next
  case True
  obtain v lim where adm: "try_admit_at (nd_rate_limiter nd) peer (ge_admit_now ge) = (v, lim)" by fastforce
  show ?thesis
  proof (cases v)
    case (Inl reason)
    with assms True adm show ?thesis
      by (auto simp: handle_incoming_def incoming_gate_eq Let_def MemoryCallRecordSink_emit_def)
  next
    case (Inr permit)
    define nd1 where "nd1 = others (nd\<lparr>nd_rate_limiter := lim\<rparr>)"
    define nd2 where "nd2 = others' (incoming_submit from_slice lib ops peer (ce_accepted env) (ce_now env) (ce_first env) nd1)"
    from assms True adm Inr obtain acts1 where
      call: "incoming_call MemoryCallRecordSink_emit from_slice lib ops env peer permit (nd_verify nd1) nd2 = ((r, acts1), nd')"
      by (auto simp: handle_incoming_def incoming_gate_eq Let_def nd1_def nd2_def split: prod.splits)
    note permit = admitted_permit [OF adm [unfolded Inr]]
    have "RateLimitPermit_drop permit (nd_rate_limiter nd2) = RateLimiter_release (nd_rate_limiter nd2) peer"
      using release_once(1) [of permit] permit by simp
    with incoming_call_frame(1,3) [OF call] memory_sink.incoming_call_record [OF call] True adm Inr
    show ?thesis by (simp add: Let_def nd1_def [symmetric] nd2_def [symmetric] split: if_splits)
  qed
qed

text \<open>Answers of the environment, for the witnesses.\<close>

definition sample_gate_env :: "u8 \<Rightarrow> gate_env" where
  "sample_gate_env b = \<lparr>ge_incoming = Ok ([b], sample_view), ge_started_at = 0, ge_start = 0,
     ge_admit_now = 0, ge_end = 0\<rparr>"

definition sample_callee_env :: callee_env where
  "sample_callee_env = \<lparr>ce_view = sample_view, ce_end = 0, ce_started = 0, ce_start = 0, ce_now = 0,
     ce_accepted = Stream_Opened, ce_first = Some FSel_Closed, ce_writes = [], ce_selects = [],
     ce_linger = None\<rparr>"

theorem connection_gates_and_audit_witness:
  "\<exists>rec. mem_records (nd_records (snd (handle_incoming MemoryCallRecordSink_emit sample_from_slice
       sample_lib memory_ops (sample_gate_env 2) (\<lambda>nd. nd) sample_callee_env (\<lambda>nd. nd) sample_node))) = [rec] \<and>
     cr_peer rec = NodeId [2] \<and> cr_outcome rec = Outcome_Closed CloseCode_Normal"
proof -
  obtain r acts nd' where run: "handle_incoming MemoryCallRecordSink_emit sample_from_slice
      sample_lib memory_ops (sample_gate_env 2) (\<lambda>nd. nd) sample_callee_env (\<lambda>nd. nd) sample_node = ((r, acts), nd')"
    by (metis surj_pair)
  have key: "ge_incoming (sample_gate_env 2) = Ok ([2], sample_view)" by (simp add: sample_gate_env_def)
  have gate: "\<not> verify_peer (nd_verify sample_node) (public_key_to_node_id [2])"
    by (simp add: sample_node_def verify_peer_def Policy_contains_def Policy_allow_def
        has_biscuit_roots_def public_key_to_node_id_def NodeId_from_bytes_def)
  from connection_gates_and_audit [OF run key refl] gate run
  show ?thesis
    by (auto simp: sample_node_def MemoryCallRecordSink_new_def public_key_to_node_id_def NodeId_from_bytes_def)
qed

section \<open>Who the inbox names\<close>

lemma hex_char_not_N: "hex_char n \<noteq> CHR ''N''" if "n < 16"
proof -
  have "unat n < 16" using that by (simp add: word_less_nat_alt)
  then have "hex_char n \<in> set ''0123456789abcdef''"
    unfolding hex_char_def by (intro nth_mem) simp
  then show ?thesis by auto
qed

lemma debug_is_not_hex: "node_id_debug n \<noteq> node_id_hex n"
proof (cases n)
  case (NodeId bs)
  show ?thesis
  proof (cases bs)
    case (Cons b cs)
    have "drop_bit 4 b < 16" by (rule nibbles_less)
    from hex_char_not_N [OF this] show ?thesis
      by (simp add: NodeId Cons node_id_debug_def node_id_hex_def)
  qed (simp add: NodeId node_id_debug_def node_id_hex_def)
qed

text \<open>
  The inbox does not name a peer the way the rest of the node does. The event of a finished inbound
  call carries Rust's \<open>Debug\<close> text of the \<open>NodeId\<close>, \<open>NodeId([1, 2, ...])\<close>, and never the hex form
  that the documentation of \<open>InboxEvent::peer\<close> promises and that dialing takes; nothing else is ever
  added to the inbox.
\<close>

theorem inbox_names_peers_by_debug_text:
  assumes "incoming_call emit from_slice lib ops env peer permit p nd = ((r, acts), nd')"
  shows "ch_queue (nd_inbox nd') = ch_queue (nd_inbox nd) \<or>
    (\<exists>out. ch_queue (nd_inbox nd') =
        ch_queue (nd_inbox nd) @ [\<lparr>ev_peer = node_id_debug peer, ev_outcome = out\<rparr>] \<and>
      node_id_debug peer \<noteq> node_id_hex peer)"
  using assms debug_is_not_hex
  by (auto simp: incoming_call_eq inbox_try_send_def Let_def
      split: prod.splits progress.splits sum.splits call_error.splits if_splits)

theorem inbox_names_peers_by_debug_text_witness:
  "\<exists>ev. ch_queue (nd_inbox (snd (incoming_call MemoryCallRecordSink_emit sample_from_slice sample_lib
       memory_ops sample_callee_env (NodeId [1]) \<lparr>permit_peer = NodeId [1], permit_released = False\<rparr>
       (nd_verify sample_node) sample_node))) = [ev] \<and> ev_peer ev \<noteq> node_id_hex (NodeId [1])"
proof -
  let ?k = "\<lparr>permit_peer = NodeId [1], permit_released = False\<rparr>"
  obtain r acts nd' where run: "incoming_call MemoryCallRecordSink_emit sample_from_slice sample_lib
      memory_ops sample_callee_env (NodeId [1]) ?k (nd_verify sample_node) sample_node = ((r, acts), nd')" by (metis surj_pair)
  then have "ch_queue (nd_inbox nd') \<noteq> []"
    by (auto simp: incoming_call_eq run_callee_with_def callee_body_def callee_loop_def drop_guard_def
        sample_callee_env_def sample_node_def verify_peer_def Policy_contains_def Policy_allow_def
        inbox_try_send_def Let_def split: if_splits)
  moreover have "ch_queue (nd_inbox sample_node) = []" by (simp add: sample_node_def)
  ultimately show ?thesis
    using inbox_names_peers_by_debug_text [OF run] run by auto
qed

end
