(* ===== verification/Refused_Dials.thy ===== *)
theory Refused_Dials
  imports Node_Connection
begin

text \<open>
  A dial that the other node refuses before any stream: what the caller's node records when it learns of the
  close, next to what the refusing node records (the agreement that src/crates/uat-node/tests/rate_limit.rs
  asks for).
\<close>

section \<open>How a close is seen\<close>

text \<open>The error of a connection that the peer closed with the given action.\<close>

fun closed_by :: "wire_action \<Rightarrow> conn_error" where
  "closed_by (Act_Close code reason) = ConnError_ApplicationClosed (unat code)"
| "closed_by _ = ConnError_Other"

lemma close_code_as_sent [simp]: "close_code_from_conn_err (closed_by (close_with code)) = code"
  by (cases code) (simp_all add: close_with_def close_code_from_conn_err_def CloseCode_from_u32_def)

text \<open>
  The caller learns of a close that came before any message when it opens the stream, right after it wrote
  the Submit, or from the first answer of its \<open>select!\<close>.
\<close>

fun learns_of_close ::
  "conn_error \<Rightarrow> stream_answer \<Rightarrow> write_answer \<Rightarrow> conn_error option \<Rightarrow> caller_select list \<Rightarrow> bool" where
  "learns_of_close closed (Stream_Failed e seen) w reason sels \<longleftrightarrow> seen = Some closed"
| "learns_of_close closed (Stream_Elapsed seen) w reason sels \<longleftrightarrow> seen = Some closed"
| "learns_of_close closed Stream_Opened w reason sels \<longleftrightarrow>
     reason = Some closed \<or>
     reason = None \<and> w = Some (Ok ()) \<and> sels \<noteq> [] \<and> hd sels = CSel_Closed closed"

section \<open>The rate-limited dial\<close>

lemma rate_limited_body:
  assumes "caller_body started start peer submit opened w reason rc sels = (r, g, acts)"
    and "is_Submit submit" and "close_code_from_conn_err closed = CloseCode_RateLimited"
    and "learns_of_close closed opened w reason sels"
  shows "g_task g = None \<and> (\<exists>res. r = Done res) \<and>
    g_outcome g = (if opened = Stream_Opened \<and> await_network w \<noteq> Ok () then Outcome_PeerLost
      else Outcome_Closed CloseCode_RateLimited)"
proof -
  obtain t d c cr b where submit: "submit = Message_Submit t d c cr b" using assms(2) by (cases submit) auto
  show ?thesis
  proof (cases opened)
    case Stream_Opened
    then consider (reason) "reason = Some closed"
      | (select) rest where "reason = None" "w = Some (Ok ())" "sels = CSel_Closed closed # rest"
      using assms(4) by (cases sels) auto
    then show ?thesis
    proof cases
      case reason
      with assms(1,3) Stream_Opened show ?thesis
        by (cases "await_network w")
          (auto simp: caller_body_def caller_loop_def submit caller_step_send Let_def outcome_from_call_error_def
            guard_simps observe_result_def)
    next
      case select
      with assms(1,3) Stream_Opened show ?thesis
        by (auto simp: caller_body_def caller_loop_def submit caller_step_send Let_def await_network_def
            guard_simps observe_result_def conn_lost_outcome_caller_def step_simps)
    qed
  qed (use assms in \<open>auto simp: caller_body_def submit Let_def guard_simps\<close>)
qed

text \<open>
  C15: Both nodes record a rate-limited dial alike. When the limiter of a node refuses an admitted peer, and the
  dialer learns of the close from the connection, then its call has ended, and each node has kept exactly
  one record: no task, the authorization not reached, closed as rate limited, each naming the other
  side. There is one exception, on the dialer's side: if the close made its write of the Submit fail, or
  that write ran out of its budget, its record says that the peer was lost.
\<close>

theorem rate_limited_dial_recorded_alike:
  assumes "incoming_gate MemoryCallRecordSink_emit ge nd = ((Gate_Done (Ok ()), [close]), nd')"
    and "ge_incoming ge = Ok (key, conn)" and "verify_peer (nd_verify nd) (public_key_to_node_id key)"
    and "run_caller MemoryCallRecordSink_emit view now sink started start callee_id submit opened w reason sels =
      (r, acts, sink')"
    and "is_Submit submit" and "learns_of_close (closed_by close) opened w reason sels"
  shows "(\<exists>res. r = Done res) \<and>
    (\<exists>a b. mem_records sink' = mem_records sink @ [a] \<and> mem_records (nd_records nd') = mem_records (nd_records nd) @ [b] \<and>
      cr_direction a = Direction_Outbound \<and> cr_direction b = Direction_Inbound \<and>
      cr_peer a = callee_id \<and> cr_peer b = public_key_to_node_id key \<and>
      cr_task a = None \<and> cr_task b = None \<and>
      cr_authorization a = AuthOutcome_NotReached \<and> cr_authorization b = AuthOutcome_NotReached \<and>
      cr_outcome b = Outcome_Closed CloseCode_RateLimited \<and>
      cr_outcome a = (if opened = Stream_Opened \<and> await_network w \<noteq> Ok () then Outcome_PeerLost
        else Outcome_Closed CloseCode_RateLimited))"
proof -
  from assms(1-3) obtain b where close: "close = close_with CloseCode_RateLimited"
    and b: "mem_records (nd_records nd') = mem_records (nd_records nd) @ [b]" "cr_direction b = Direction_Inbound"
      "cr_peer b = public_key_to_node_id key" "cr_task b = None" "cr_authorization b = AuthOutcome_NotReached"
      "cr_outcome b = Outcome_Closed CloseCode_RateLimited"
    by (auto simp: incoming_gate_eq Let_def MemoryCallRecordSink_emit_def split: prod.splits sum.splits)
  obtain r1 g acts1 where body: "caller_body started start callee_id submit opened w reason RC_None sels = (r1, g, acts1)"
    using prod_cases3 by blast
  have "close_code_from_conn_err (closed_by close) = CloseCode_RateLimited" by (simp add: close)
  note g = rate_limited_body [OF body assms(5) this assms(6)]
  note plain = caller_body_guard(1,2) [OF body]
  from g assms(4) body have "r = r1" and "sink' = guard_drop MemoryCallRecordSink_emit view now g sink"
    by (auto simp: run_caller_def run_caller_with_def drop_guard_def)
  with memory_sink.drop_emits_one [of g view now sink] plain
  have "mem_records sink' = mem_records sink @ [record_of view now g]" by (simp add: plain_guard_def)
  with b g plain \<open>r = r1\<close> show ?thesis by (simp add: record_of_def plain_guard_def)
qed

theorem rate_limited_dial_recorded_alike_witness:
  "\<exists>a b. mem_records (snd (snd (run_caller MemoryCallRecordSink_emit sample_view 0 MemoryCallRecordSink_new 0 0
       (NodeId [0]) sample_submit Stream_Opened (Some (Ok ())) None
       [CSel_Closed (ConnError_ApplicationClosed 1)]))) = [a] \<and>
     mem_records (nd_records (snd (incoming_gate MemoryCallRecordSink_emit (sample_gate_env 1)
       (sample_node\<lparr>nd_rate_limiter := RateLimiter_new (RateLimitConfig_tight 0)\<rparr>)))) = [b] \<and>
     cr_outcome a = Outcome_Closed CloseCode_RateLimited \<and> cr_outcome b = Outcome_Closed CloseCode_RateLimited \<and>
     cr_task a = None"
proof -
  let ?nd = "sample_node\<lparr>nd_rate_limiter := RateLimiter_new (RateLimitConfig_tight 0)\<rparr>"
  have peer: "public_key_to_node_id [1] = NodeId [1]" by (simp add: public_key_to_node_id_def NodeId_from_bytes_def)
  have gate: "verify_peer (nd_verify ?nd) (NodeId [1])"
    by (simp add: sample_node_def verify_peer_def Policy_contains_def Policy_allow_def)
  obtain lim where adm: "try_admit_at (RateLimiter_new (RateLimitConfig_tight 0)) (NodeId [1]) 0 =
      (Err RateLimitExceeded_CallsPerMinute, lim)"
    by (simp add: RateLimiter_new_def try_admit_at_def PeerCounters_default_def RateLimitConfig_tight_def Let_def)
  obtain nd' where inc: "incoming_gate MemoryCallRecordSink_emit (sample_gate_env 1) ?nd =
      ((Gate_Done (Ok ()), [close_with CloseCode_RateLimited]), nd')"
    using gate adm peer by (auto simp: incoming_gate_eq sample_gate_env_def Let_def)
  obtain r acts sink' where dial: "run_caller MemoryCallRecordSink_emit sample_view 0 MemoryCallRecordSink_new 0 0
      (NodeId [0]) sample_submit Stream_Opened (Some (Ok ())) None [CSel_Closed (ConnError_ApplicationClosed 1)] =
      (r, acts, sink')" using prod_cases3 by blast
  have sub: "is_Submit sample_submit" by (simp add: sample_submit_def)
  have key: "ge_incoming (sample_gate_env 1) = Ok ([1], sample_view)" by (simp add: sample_gate_env_def)
  have seen: "learns_of_close (closed_by (close_with CloseCode_RateLimited)) Stream_Opened (Some (Ok ())) None
      [CSel_Closed (ConnError_ApplicationClosed 1)]" by (simp add: close_with_def)
  from rate_limited_dial_recorded_alike [OF inc key _ dial sub seen] gate peer dial inc show ?thesis
    by (auto simp: MemoryCallRecordSink_new_def sample_node_def await_network_def)
qed

end
