(* ===== verification/Node_System.thy ===== *)
theory Node_System
  imports Node_Connection "HOL-Library.Multiset"
begin

text \<open>
  A running node: connections arrive, their calls go through their moments, handlers perform their
  effects and dials are made, in any order, over the shared state of src/crates/uat-node/src/node.rs.
\<close>

section \<open>The node in use\<close>

text \<open>
  A call that runs holds its permit. It has been admitted; or its stream is there and its loop has read
  the clock; or its first \<open>select!\<close> has completed, when it authorized what it read: the reading, the
  policy it found and the answer are kept for the rest of the task.
\<close>

datatype ('pk, 's) call_stage =
    Stage_Admitted
  | Stage_Started system_time
  | Stage_First system_time "('pk, 's) policy" first_select

record ('pk, 's) running_call =
  run_permit :: rate_limit_permit
  run_stage :: "('pk, 's) call_stage"

abbreviation run_peer :: "('pk, 's) running_call \<Rightarrow> node_id" where
  "run_peer c \<equiv> permit_peer (run_permit c)"

text \<open>What is already decided of the answers the rest of a task gets, and the policy it runs on.\<close>

fun stage_env :: "('pk, 's) call_stage \<Rightarrow> callee_env \<Rightarrow> callee_env" where
  "stage_env Stage_Admitted env = env\<lparr>ce_first := None\<rparr>"
| "stage_env (Stage_Started now) env = env\<lparr>ce_accepted := Stream_Opened, ce_now := now, ce_first := None\<rparr>"
| "stage_env (Stage_First now p f) env =
     env\<lparr>ce_accepted := Stream_Opened, ce_now := now, ce_first := Some f\<rparr>"

fun stage_policy :: "('pk, 's) call_stage \<Rightarrow> ('pk, 's) policy \<Rightarrow> ('pk, 's) policy" where
  "stage_policy (Stage_First now p f) q = p"
| "stage_policy _ q = q"

text \<open>
  The events: a connection reaches the gates; the stream of the \<open>n\<close>-th running call is there; its first
  \<open>select!\<close> completes; it ends; the \<open>n\<close>-th handler that was refused or has ended performs the next of
  its effects; a dial is made. Next to the node the state holds, as ghost state, how many handshakes and
  outbound connections succeeded and every Submit that was verified. An event that does not fit the
  stage of its call changes nothing.
\<close>

datatype node_event =
    NE_Incoming gate_env
  | NE_Start nat system_time
  | NE_First nat first_select
  | NE_Call_End nat callee_env
  | NE_Effect nat
  | NE_Dial caller_env message

record ('pk, 's, 'sk, 'snk) node_sys =
  sys_node :: "('pk, 's, 'sk, 'snk) node"
  sys_running :: "('pk, 's) running_call list"
  sys_ending :: "node_effect list list"
  sys_arrived :: nat
  sys_dialed :: nat
  sys_verified :: "(message \<times> node_id \<times> system_time) list"

definition first_request :: "(bytes \<Rightarrow> message option) \<Rightarrow> node_id \<Rightarrow> system_time \<Rightarrow> first_select
    \<Rightarrow> (message \<times> node_id \<times> system_time) list" where
  "first_request from_slice peer now f =
     (case f of
        FSel_Frame (Some (Ok frame)) \<Rightarrow>
          (case split_frame from_slice frame of
             Ok (header, _) \<Rightarrow> if is_ok (UnverifiedSubmit_from_header header) then [(header, peer, now)] else []
           | Err _ \<Rightarrow> [])
      | _ \<Rightarrow> [])"

fun node_step ::
  "('snk \<Rightarrow> call_record \<Rightarrow> 'snk) \<Rightarrow> (bytes \<Rightarrow> message option) \<Rightarrow> ('pk, 'tok, 'az) biscuit_lib
     \<Rightarrow> 's spent_ops \<Rightarrow> node_event \<Rightarrow> ('pk, 's, 'sk, 'snk) node_sys \<Rightarrow> ('pk, 's, 'sk, 'snk) node_sys" where
  "node_step emit from_slice lib ops (NE_Incoming ge) sys =
     (case gate_decision ge (sys_node sys) of
        ((g, _), effs, nd) \<Rightarrow>
          sys\<lparr>sys_node := nd,
              sys_running := sys_running sys @
                (case g of Gate_Call _ permit \<Rightarrow> [\<lparr>run_permit = permit, run_stage = Stage_Admitted\<rparr>] | _ \<Rightarrow> []),
              sys_ending := sys_ending sys @ (case g of Gate_Done _ \<Rightarrow> [effs] | _ \<Rightarrow> []),
              sys_arrived := sys_arrived sys + (if is_ok (ge_incoming ge) then 1 else 0)\<rparr>)"
| "node_step emit from_slice lib ops (NE_Start n now) sys =
     (if n < length (sys_running sys) \<and> run_stage (sys_running sys ! n) = Stage_Admitted
      then sys\<lparr>sys_running := (sys_running sys)
                 [n := (sys_running sys ! n)\<lparr>run_stage := Stage_Started now\<rparr>]\<rparr>
      else sys)"
| "node_step emit from_slice lib ops (NE_First n f) sys =
     (if n < length (sys_running sys)
      then case run_stage (sys_running sys ! n) of
             Stage_Started now \<Rightarrow>
               (let c = sys_running sys ! n; nd = sys_node sys in
                sys\<lparr>sys_node := incoming_submit from_slice lib ops (run_peer c) Stream_Opened now (Some f) nd,
                    sys_running := (sys_running sys)
                      [n := c\<lparr>run_stage := Stage_First now (nd_verify nd) f\<rparr>],
                    sys_verified := sys_verified sys @ first_request from_slice (run_peer c) now f\<rparr>)
           | _ \<Rightarrow> sys
      else sys)"
| "node_step emit from_slice lib ops (NE_Call_End n env) sys =
     (if n < length (sys_running sys)
      then let c = sys_running sys ! n; nd = sys_node sys in
           case call_finish from_slice lib ops (nd_callee_behavior nd) (stage_env (run_stage c) env) (run_peer c)
                  (run_permit c) (stage_policy (run_stage c) (nd_verify nd)) of
             ((r, _), effs) \<Rightarrow>
               if r = Waiting then sys
               else sys\<lparr>sys_running := take n (sys_running sys) @ drop (Suc n) (sys_running sys),
                        sys_ending := sys_ending sys @ [effs]\<rparr>
      else sys)"
| "node_step emit from_slice lib ops (NE_Effect n) sys =
     (if n < length (sys_ending sys)
      then case sys_ending sys ! n of
             eff # effs \<Rightarrow>
               sys\<lparr>sys_node := perform_effect emit eff (sys_node sys),
                   sys_ending := (sys_ending sys)[n := effs]\<rparr>
           | [] \<Rightarrow> sys
      else sys)"
| "node_step emit from_slice lib ops (NE_Dial env submit) sys =
     (case Node_dial emit env submit (sys_node sys) of
        ((r, _), nd) \<Rightarrow>
          if r = Waiting then sys
          else sys\<lparr>sys_node := nd,
                   sys_dialed := sys_dialed sys + (if is_ok (de_connect env) then 1 else 0)\<rparr>)"

definition sys_init :: "('pk, 's, 'sk, 'snk) node \<Rightarrow> ('pk, 's, 'sk, 'snk) node_sys" where
  "sys_init nd = \<lparr>sys_node = nd, sys_running = [], sys_ending = [], sys_arrived = 0, sys_dialed = 0, sys_verified = []\<rparr>"

inductive node_reach ::
  "('snk \<Rightarrow> call_record \<Rightarrow> 'snk) \<Rightarrow> (bytes \<Rightarrow> message option) \<Rightarrow> ('pk, 'tok, 'az) biscuit_lib
     \<Rightarrow> 's spent_ops \<Rightarrow> ('pk, 's, 'sk, 'snk) node \<Rightarrow> ('pk, 's, 'sk, 'snk) node_sys \<Rightarrow> bool"
  for emit from_slice lib ops nd where
  bound: "node_reach emit from_slice lib ops nd (sys_init nd)"
| event: "node_reach emit from_slice lib ops nd sys \<Longrightarrow>
    node_reach emit from_slice lib ops nd (node_step emit from_slice lib ops ev sys)"

section \<open>Steps by cases\<close>

text \<open>The end of a call takes one element out of the list; the others keep their place.\<close>

lemma running_split:
  assumes "n < length cs"
  shows "cs = take n cs @ (cs ! n) # drop (Suc n) cs"
  using assms by (rule id_take_nth_drop)

lemma step_cases:
  obtains (gate) ge where "ev = NE_Incoming ge"
  | (start) n now where "ev = NE_Start n now" "n < length (sys_running sys)"
      "run_stage (sys_running sys ! n) = Stage_Admitted"
  | (first) n f now where "ev = NE_First n f" "n < length (sys_running sys)"
      "run_stage (sys_running sys ! n) = Stage_Started now"
  | (call_end) n env r acts effs where "ev = NE_Call_End n env" "n < length (sys_running sys)" "r \<noteq> Waiting"
      "call_finish from_slice lib ops (nd_callee_behavior (sys_node sys))
         (stage_env (run_stage (sys_running sys ! n)) env)
         (run_peer (sys_running sys ! n)) (run_permit (sys_running sys ! n))
         (stage_policy (run_stage (sys_running sys ! n)) (nd_verify (sys_node sys))) = ((r, acts), effs)"
  | (effect) n eff effs where "ev = NE_Effect n" "n < length (sys_ending sys)" "sys_ending sys ! n = eff # effs"
  | (dial) env submit where "ev = NE_Dial env submit"
  | (idle) "node_step emit from_slice lib ops ev sys = sys"
proof (cases ev)
  case (NE_Call_End n env)
  obtain r acts effs where call: "call_finish from_slice lib ops (nd_callee_behavior (sys_node sys))
      (stage_env (run_stage (sys_running sys ! n)) env)
      (run_peer (sys_running sys ! n)) (run_permit (sys_running sys ! n))
      (stage_policy (run_stage (sys_running sys ! n)) (nd_verify (sys_node sys))) = ((r, acts), effs)"
    by (metis surj_pair)
  show ?thesis
  proof (cases "n < length (sys_running sys) \<and> r \<noteq> Waiting")
    case True
    with NE_Call_End call show ?thesis by (intro call_end) auto
  next
    case False
    with NE_Call_End call show ?thesis by (intro idle) (auto simp: Let_def)
  qed
next
  case (NE_Effect n)
  show ?thesis
  proof (cases "n < length (sys_ending sys) \<and> sys_ending sys ! n \<noteq> []")
    case True
    with NE_Effect effect show ?thesis by (cases "sys_ending sys ! n") auto
  next
    case False
    with NE_Effect show ?thesis by (intro idle) auto
  qed
next
  case (NE_First n f)
  show ?thesis
  proof (cases "n < length (sys_running sys) \<and> (\<exists>now. run_stage (sys_running sys ! n) = Stage_Started now)")
    case True
    with NE_First show ?thesis by (elim conjE exE) (rule first)
  next
    case False
    with NE_First show ?thesis by (intro idle) (auto split: call_stage.split)
  qed
next
  case (NE_Start n now)
  show ?thesis
  proof (cases "n < length (sys_running sys) \<and> run_stage (sys_running sys ! n) = Stage_Admitted")
    case True
    with NE_Start show ?thesis by (intro start) auto
  next
    case False
    with NE_Start show ?thesis by (intro idle) auto
  qed
qed (use gate dial in blast)+

section \<open>Effects that are left\<close>

fun effect_records :: "node_effect \<Rightarrow> call_record list" where
  "effect_records (Eff_Record r) = [r]"
| "effect_records _ = []"

fun effect_permits :: "node_effect \<Rightarrow> rate_limit_permit list" where
  "effect_permits (Eff_Release k) = [k]"
| "effect_permits _ = []"

definition remaining :: "(node_effect \<Rightarrow> 'a list) \<Rightarrow> node_effect list list \<Rightarrow> 'a list" where
  "remaining f ends = concat (map f (concat ends))"

lemma remaining_simps [simp]:
  "remaining f [] = []" "remaining f (ends @ [effs]) = remaining f ends @ concat (map f effs)"
  by (simp_all add: remaining_def)

lemma remaining_split:
  assumes "n < length ends" and "ends ! n = eff # effs"
  obtains before behind where "remaining f ends = before @ f eff @ behind" "remaining f (ends[n := effs]) = before @ behind"
proof
  show "remaining f ends = remaining f (take n ends) @ f eff @ concat (map f effs) @ remaining f (drop (Suc n) ends)"
    using assms(2) by (subst id_take_nth_drop [OF assms(1)]) (simp add: remaining_def)
  show "remaining f (ends[n := effs]) = remaining f (take n ends) @ concat (map f effs) @ remaining f (drop (Suc n) ends)"
    by (simp add: remaining_def upd_conv_take_nth_drop [OF assms(1)])
qed

abbreviation unrecorded :: "('pk, 's, 'sk, 'snk) node_sys \<Rightarrow> call_record list" where
  "unrecorded sys \<equiv> remaining effect_records (sys_ending sys)"

abbreviation unreleased :: "('pk, 's, 'sk, 'snk) node_sys \<Rightarrow> rate_limit_permit list" where
  "unreleased sys \<equiv> remaining effect_permits (sys_ending sys)"

text \<open>What is left of a call that ended: its record, then its notice if there is one, then its permit.\<close>

interpretation collected: call_record_sink "\<lambda>emitted r. emitted @ [r]" "\<lambda>emitted. emitted"
  by unfold_locales simp

definition event_of_record :: "call_record \<Rightarrow> inbox_event" where
  "event_of_record r = \<lparr>ev_peer = node_id_debug (cr_peer r), ev_outcome = cr_outcome r\<rparr>"

lemma call_finish_effects:
  assumes "call_finish from_slice lib ops behavior env peer permit p = ((r, acts), effs)" and "r \<noteq> Waiting"
  obtains rec notices where "effs = Eff_Record rec # map Eff_Notify notices @ [Eff_Release permit]"
    and "notices = [] \<or> notices = [event_of_record rec]"
    and "cr_peer rec = peer" and "cr_direction rec = Direction_Inbound"
    and "auth_explained (callee_rule from_slice lib ops peer p (ce_now env) (ce_accepted env) (ce_first env))
      (cr_authorization rec)"
proof -
  obtain call acts1 emitted q where run: "run_callee_with (\<lambda>emitted r. emitted @ [r]) (ce_view env) (ce_end env) []
      from_slice lib ops (ce_started env) (ce_start env) peer p (ce_now env) behavior (ce_accepted env)
      (ce_first env) (ce_writes env) (ce_selects env) (ce_linger env) = ((call, acts1, emitted), q)"
    by (metis prod_cases3 surj_pair)
  from assms have ended: "call \<noteq> Waiting" by (auto simp: call_finish_def run Let_def)
  from collected.callee_record_rule [OF run ended] obtain rec where rec: "emitted = [rec]" "cr_peer rec = peer"
      "cr_direction rec = Direction_Inbound"
      "auth_explained (callee_rule from_slice lib ops peer p (ce_now env) (ce_accepted env) (ce_first env))
        (cr_authorization rec)" by auto
  from collected.callee_one_record [OF run] ended obtain rec'
    where "emitted = [] @ [rec']" "\<forall>out. call = Done (Ok out) \<longrightarrow> cr_outcome rec' = out" by blast
  with rec(1) have out: "cr_outcome rec = out" if "call = Done (Ok out)" for out using that by simp
  have "\<exists>notices. effs = Eff_Record rec # map Eff_Notify notices @ [Eff_Release permit] \<and>
      (notices = [] \<or> notices = [event_of_record rec])"
  proof (cases "\<exists>out. call = Done (Ok out)")
    case True
    then obtain o1 where o1: "call = Done (Ok o1)" by blast
    with assms(1) rec(1,2) out [OF o1]
    have "effs = [Eff_Record rec, Eff_Notify (event_of_record rec), Eff_Release permit]"
      by (simp add: call_finish_def run event_of_record_def Let_def)
    then show ?thesis by (intro exI [of _ "[event_of_record rec]"]) simp
  next
    case False
    with ended have "call = Panicked \<or> (\<exists>err. call = Done (Err err))"
      by (cases call rule: progress.exhaust) (auto intro: sum.exhaust)
    with assms(1) rec(1) have "effs = [Eff_Record rec, Eff_Release permit]"
      by (auto simp: call_finish_def run Let_def split: call_error.splits)
    then show ?thesis by (intro exI [of _ "[]"]) simp
  qed
  with that rec show ?thesis by blast
qed

section \<open>Invariants of the node\<close>

text \<open>
  What holds between events: the limiter counts exactly the permits of the running calls and those that
  are still to be released, within its caps; every handshake and every outbound connection has its record,
  or runs a call, or its record is still to be emitted; every running call is of a peer the gate lets in;
  the inbox is within its capacity.
\<close>

lemma accounts_mset:
  assumes "limiter.accounts c l ks" and "mset ks = mset ks'" shows "limiter.accounts c l ks'"
proof -
  have "held_by p ks = held_by p ks'" for p
    using assms(2) by (metis held_by_def mset_filter size_mset)
  moreover have "set ks = set ks'" using assms(2) by (rule mset_eq_setD)
  ultimately show ?thesis using assms(1) by (simp add: limiter.accounts_def)
qed

context call_record_sink
begin

definition node_inv :: "nat \<Rightarrow> nat \<Rightarrow> ('pk, 'st, 'sk, 's) node_sys \<Rightarrow> bool" where
  "node_inv c n0 sys \<longleftrightarrow>
     limiter.accounts c (nd_rate_limiter (sys_node sys)) (map run_permit (sys_running sys) @ unreleased sys) \<and>
     length (seen (nd_records (sys_node sys))) + length (unrecorded sys) + length (sys_running sys) =
       n0 + sys_arrived sys + sys_dialed sys \<and>
     (\<forall>k\<in>set (sys_running sys). verify_peer (nd_verify (sys_node sys)) (run_peer k)) \<and>
     ch_capacity (nd_inbox (sys_node sys)) = 32 \<and> length (ch_queue (nd_inbox (sys_node sys))) \<le> 32"

lemma node_inv_incoming:
  assumes inv: "node_inv c n0 sys"
  shows "node_inv c n0 (node_step emit from_slice lib ops (NE_Incoming ge) sys)"
proof (cases "ge_incoming ge")
  case (Inl e)
  with inv show ?thesis by (simp add: node_inv_def gate_decision_def)
next
  case (Inr kc)
  obtain key conn where kc: "kc = (key, conn)" by (cases kc)
  let ?peer = "public_key_to_node_id key"
  show ?thesis
  proof (cases "verify_peer (nd_verify (sys_node sys)) ?peer")
    case False
    with Inr kc inv show ?thesis by (simp add: node_inv_def gate_decision_def)
  next
    case True
    obtain v lim where adm: "try_admit_at (nd_rate_limiter (sys_node sys)) ?peer (ge_admit_now ge) = (v, lim)"
      by fastforce
    from inv have "limiter.accounts c (nd_rate_limiter (sys_node sys)) (map run_permit (sys_running sys) @ unreleased sys)"
      by (simp add: node_inv_def)
    note acc = limiter.accounts_admit [OF this adm]
    show ?thesis
    proof (cases v)
      case (Inl reason)
      with Inr kc True adm acc inv show ?thesis by (simp add: node_inv_def gate_decision_def)
    next
      case (Inr permit)
      with limiter.admit_permit adm have "permit_peer permit = ?peer" by blast
      moreover have "limiter.accounts c lim ((map run_permit (sys_running sys) @ unreleased sys) @ [permit])"
        using acc Inr by simp
      then have "limiter.accounts c lim (map run_permit (sys_running sys) @ permit # unreleased sys)"
        by (rule accounts_mset) simp
      ultimately show ?thesis using Inr \<open>ge_incoming ge = Ok kc\<close> kc True adm inv
        by (simp add: node_inv_def gate_decision_def)
    qed
  qed
qed

lemma node_inv_call_end:
  assumes inv: "node_inv c n0 sys" and n: "n < length (sys_running sys)" and r: "r \<noteq> Waiting"
    and call: "call_finish from_slice lib ops behavior env' (run_peer (sys_running sys ! n))
      (run_permit (sys_running sys ! n)) p = ((r, acts), effs)"
  shows "node_inv c n0 (sys\<lparr>sys_running := take n (sys_running sys) @ drop (Suc n) (sys_running sys),
    sys_ending := sys_ending sys @ [effs]\<rparr>)"
proof -
  note split = running_split [OF n]
  obtain rec notices where effs: "effs = Eff_Record rec # map Eff_Notify notices @ [Eff_Release (run_permit (sys_running sys ! n))]"
    by (rule call_finish_effects [OF call r])
  have left: "remaining effect_records (sys_ending sys @ [effs]) = unrecorded sys @ [rec]"
    "remaining effect_permits (sys_ending sys @ [effs]) = unreleased sys @ [run_permit (sys_running sys ! n)]"
    by (simp_all add: effs comp_def)
  have "limiter.accounts c (nd_rate_limiter (sys_node sys)) (map run_permit (sys_running sys) @ unreleased sys)"
    using inv by (simp add: node_inv_def)
  moreover have "mset (map run_permit (sys_running sys) @ unreleased sys) =
      mset (map run_permit (take n (sys_running sys) @ drop (Suc n) (sys_running sys)) @ unreleased sys @ [run_permit (sys_running sys ! n)])"
    using arg_cong [OF split, of "\<lambda>cs. mset (map run_permit cs)"] by simp
  ultimately have acc: "limiter.accounts c (nd_rate_limiter (sys_node sys))
      (map run_permit (take n (sys_running sys) @ drop (Suc n) (sys_running sys)) @ unreleased sys @ [run_permit (sys_running sys ! n)])"
    by (rule accounts_mset)
  have "set (take n (sys_running sys)) \<union> set (drop (Suc n) (sys_running sys)) \<subseteq> set (sys_running sys)"
    using set_take_subset set_drop_subset by fastforce
  with inv acc n left show ?thesis by (auto simp: node_inv_def)
qed

lemma node_inv_effect:
  assumes inv: "node_inv c n0 sys" and n: "n < length (sys_ending sys)" and effs: "sys_ending sys ! n = eff # effs"
  shows "node_inv c n0 (sys\<lparr>sys_node := perform_effect emit eff (sys_node sys), sys_ending := (sys_ending sys)[n := effs]\<rparr>)"
proof -
  obtain before behind where rec: "unrecorded sys = before @ effect_records eff @ behind"
    "remaining effect_records ((sys_ending sys)[n := effs]) = before @ behind" by (rule remaining_split [OF n effs])
  obtain before' behind' where per: "unreleased sys = before' @ effect_permits eff @ behind'"
    "remaining effect_permits ((sys_ending sys)[n := effs]) = before' @ behind'" by (rule remaining_split [OF n effs])
  show ?thesis
  proof (cases eff)
    case (Eff_Release k)
    have "limiter.accounts c (nd_rate_limiter (sys_node sys)) ((map run_permit (sys_running sys) @ before') @ k # behind')"
      using inv per by (simp add: node_inv_def Eff_Release)
    from limiter.accounts_drop [OF this] inv rec per show ?thesis by (simp add: node_inv_def Eff_Release)
  qed (use inv rec per in \<open>simp_all add: node_inv_def seen_emit inbox_try_send_def\<close>)
qed

lemma node_inv_dial:
  assumes inv: "node_inv c n0 sys"
  shows "node_inv c n0 (node_step emit from_slice lib ops (NE_Dial env submit) sys)"
proof (cases "de_connect env")
  case (Inl e)
  with inv show ?thesis by (simp add: node_inv_def Node_dial_def Let_def)
next
  case (Inr kc)
  obtain key conn where kc: "kc = (key, conn)" by (cases kc)
  let ?nd = "sys_node sys"
  obtain call acts sink where run: "run_caller emit (de_view env) (de_end env) (nd_records ?nd)
      (de_started env) (de_start env) (public_key_to_node_id key) submit (de_opened env) (de_write env)
      (de_close_reason env) (de_selects env) = (call, acts, sink)" by (metis surj_pair)
  note one = caller_one_record [OF run [unfolded run_caller_def]]
  show ?thesis
  proof (cases call)
    case (Done res)
    with one have "length (seen sink) = Suc (length (seen (nd_records ?nd)))" by auto
    with Inr kc run inv Done show ?thesis
      by (cases res) (simp_all add: node_inv_def Node_dial_def Let_def)
  next
    case Panicked
    with one have "length (seen sink) = Suc (length (seen (nd_records ?nd)))" by auto
    with Inr kc run inv Panicked show ?thesis by (simp add: node_inv_def Node_dial_def Let_def)
  qed (use Inr kc run inv in \<open>simp add: node_inv_def Node_dial_def\<close>)
qed

lemma node_inv_stage:
  assumes "node_inv c n0 sys" and "n < length (sys_running sys)"
  shows "node_inv c n0 (sys\<lparr>sys_running := (sys_running sys)[n := (sys_running sys ! n)\<lparr>run_stage := st\<rparr>]\<rparr>)"
proof -
  have "map run_permit ((sys_running sys)[n := (sys_running sys ! n)\<lparr>run_stage := st\<rparr>]) = map run_permit (sys_running sys)"
    using assms(2) by (intro nth_equalityI) (auto simp: nth_list_update)
  moreover have "run_peer k \<in> run_peer ` set (sys_running sys)"
    if "k \<in> set ((sys_running sys)[n := (sys_running sys ! n)\<lparr>run_stage := st\<rparr>])" for k
    using set_update_subset_insert [THEN subsetD, OF that] assms(2) by (auto intro: rev_image_eqI)
  ultimately show ?thesis using assms(1) by (fastforce simp: node_inv_def)
qed

lemma node_inv_first:
  assumes "node_inv c n0 sys" and "n < length (sys_running sys)"
  shows "node_inv c n0 (sys\<lparr>sys_node := incoming_submit from_slice lib ops peer accepted now first (sys_node sys),
    sys_running := (sys_running sys)[n := (sys_running sys ! n)\<lparr>run_stage := st\<rparr>], sys_verified := vs\<rparr>)"
  using node_inv_stage [OF assms, of st] same_gate_verify_peer [OF incoming_submit_same_gate
      [of "sys_node sys" from_slice lib ops peer accepted now first]]
  by (simp add: node_inv_def)

lemma node_inv_step:
  assumes "node_inv c n0 sys" shows "node_inv c n0 (node_step emit from_slice lib ops ev sys)"
proof (cases rule: step_cases [where ev = ev and sys = sys and emit = emit and from_slice = from_slice and lib = lib and ops = ops])
  case (gate ge)
  with node_inv_incoming [OF assms] show ?thesis by simp
next
  case (start n now)
  with node_inv_stage [OF assms] show ?thesis by simp
next
  case (first n f now)
  from node_inv_first [OF assms first(2)] first show ?thesis by (simp add: Let_def)
next
  case (call_end n env r acts effs)
  with node_inv_call_end [OF assms call_end(2-4)] show ?thesis by (simp add: Let_def)
next
  case (effect n eff effs)
  with node_inv_effect [OF assms effect(2,3)] show ?thesis by simp
next
  case (dial env submit)
  with node_inv_dial [OF assms] show ?thesis by simp
qed (use assms in simp)

lemma node_inv_init:
  assumes "Node_bind_with_opts bind_endpoint identity verify behavior records opts = Ok nd"
  shows "node_inv (limiter_cap (nbo_rate_limits opts)) (length (seen records)) (sys_init nd)"
  using assms limiter_accounts_new [of "nbo_rate_limits opts"]
  by (auto simp: Node_bind_with_opts_def and_then_Ok_iff node_inv_def sys_init_def)

lemma node_reach_inv:
  assumes "Node_bind_with_opts bind_endpoint identity verify behavior records opts = Ok nd"
    and "node_reach emit from_slice lib ops nd sys"
  shows "node_inv (limiter_cap (nbo_rate_limits opts)) (length (seen records)) sys"
  using assms(2)
  by (induction rule: node_reach.induct) (simp_all only: node_inv_init [OF assms(1)] node_inv_step)

end

text \<open>
  C3: A node accounts for everything. From the moment it is bound, in whatever order connections
  arrive, calls send their first frame and end (by a result or a panic), handlers emit their records,
  notify the inbox and drop their permits, and dials are made: \<open>in_flight\<close> of every peer is the number of
  its calls that run or have not dropped their permit yet, within both caps of the options; every
  completed handshake and outbound connection has exactly one record in the sink, unless its call
  runs or its record is the one its handler is about to emit; every running call is of a peer the
  connection gate lets in; and the inbox never holds more than 32 events.
\<close>

theorem node_accounts_for_everything:
  assumes "Node_bind_with_opts bind_endpoint identity verify behavior MemoryCallRecordSink_new opts = Ok nd"
    and "node_reach MemoryCallRecordSink_emit from_slice lib ops nd sys"
  shows "unat (in_flight (nd_rate_limiter (sys_node sys)) p) =
      length (filter (\<lambda>c. run_peer c = p) (sys_running sys)) + length (filter (\<lambda>k. permit_peer k = p) (unreleased sys)) \<and>
    unat (in_flight (nd_rate_limiter (sys_node sys)) p) \<le>
      min (unat (max_concurrent_calls (nbo_rate_limits opts))) (unat (max_live_frames (nbo_rate_limits opts))) \<and>
    MemoryCallRecordSink_len (nd_records (sys_node sys)) + length (unrecorded sys) + length (sys_running sys) =
      sys_arrived sys + sys_dialed sys \<and>
    (\<forall>k\<in>set (sys_running sys). verify_peer (nd_verify (sys_node sys)) (run_peer k)) \<and>
    length (ch_queue (nd_inbox (sys_node sys))) \<le> 32"
proof -
  from memory_sink.node_reach_inv [OF assms]
  have inv: "memory_sink.node_inv (limiter_cap (nbo_rate_limits opts)) 0 sys"
    by (simp add: MemoryCallRecordSink_new_def)
  then have acc: "limiter.accounts (limiter_cap (nbo_rate_limits opts)) (nd_rate_limiter (sys_node sys))
      (map run_permit (sys_running sys) @ unreleased sys)" by (simp add: memory_sink.node_inv_def)
  have "held_by p (map run_permit (sys_running sys) @ unreleased sys) =
      length (filter (\<lambda>c. run_peer c = p) (sys_running sys)) + length (filter (\<lambda>k. permit_peer k = p) (unreleased sys))"
    by (simp add: held_by_def filter_map comp_def)
  with limiter.accounts_bound [OF acc, of p] inv show ?thesis
    by (simp add: memory_sink.node_inv_def limiter_cap_def MemoryCallRecordSink_len_def)
qed

lemma sample_node_bound:
  "Node_bind_with_opts (\<lambda>_ _ _ _. Ok ()) (nd_identity sample_node) (nd_verify sample_node) StubComplete
     MemoryCallRecordSink_new NodeBindOpts_default = Ok sample_node"
  by (simp add: Node_bind_with_opts_def sample_node_def map_err_def NodeBindOpts_default_def)

lemma sample_node_admits:
  "\<exists>lim. try_admit_at (nd_rate_limiter sample_node) (NodeId [1]) 0 =
      (Ok \<lparr>permit_peer = NodeId [1], permit_released = False\<rparr>, lim) \<and>
    (\<exists>lim'. try_admit_at lim (NodeId [2]) 0 = (Ok \<lparr>permit_peer = NodeId [2], permit_released = False\<rparr>, lim') \<and>
      (\<exists>lim''. try_admit_at lim' (NodeId [3]) 0 =
        (Ok \<lparr>permit_peer = NodeId [3], permit_released = False\<rparr>, lim'')))"
  by (simp add: sample_node_def RateLimiter_new_def try_admit_at_def PeerCounters_default_def
      RateLimitConfig_defaults_def DEFAULT_MAX_CONCURRENT_CALLS_def
      DEFAULT_MAX_CALLS_PER_MINUTE_def DEFAULT_MAX_LIVE_FRAMES_def Let_def)

lemma sample_node_gate: "verify_peer (nd_verify sample_node) (NodeId [1])"
  by (simp add: sample_node_def verify_peer_def Policy_contains_def Policy_allow_def)

theorem node_accounts_for_everything_witness:
  "\<exists>sys. node_reach MemoryCallRecordSink_emit sample_from_slice sample_lib memory_ops sample_node sys \<and>
     sys_arrived sys = 1 \<and> length (sys_running sys) = 1 \<and>
     in_flight (nd_rate_limiter (sys_node sys)) (NodeId [1]) = 1 \<and>
     MemoryCallRecordSink_len (nd_records (sys_node sys)) = 0"
proof -
  let ?sys = "node_step MemoryCallRecordSink_emit sample_from_slice sample_lib memory_ops
    (NE_Incoming (sample_gate_env 1)) (sys_init sample_node)"
  have reach: "node_reach MemoryCallRecordSink_emit sample_from_slice sample_lib memory_ops sample_node ?sys"
    by (intro node_reach.intros)
  from sample_node_admits sample_node_gate have arrived: "sys_arrived ?sys = 1" and dialed: "sys_dialed ?sys = 0"
    and running: "\<exists>c. sys_running ?sys = [c] \<and> run_peer c = NodeId [1]"
    by (auto simp: gate_decision_def sample_gate_env_def sys_init_def Let_def
        public_key_to_node_id_def NodeId_from_bytes_def)
  then obtain c where c: "sys_running ?sys = [c]" "run_peer c = NodeId [1]" by blast
  note all = node_accounts_for_everything [OF sample_node_bound reach, of "NodeId [1]"]
  from sample_node_admits sample_node_gate have ending: "sys_ending ?sys = []"
    by (auto simp: gate_decision_def sample_gate_env_def sys_init_def Let_def
        public_key_to_node_id_def NodeId_from_bytes_def)
  from all c ending have "unat (in_flight (nd_rate_limiter (sys_node ?sys)) (NodeId [1])) = 1"
    by (simp del: node_step.simps)
  then have "in_flight (nd_rate_limiter (sys_node ?sys)) (NodeId [1]) = 1"
    by (simp only: word_unat_eq_iff unsigned_1)
  moreover from all arrived dialed c ending have "MemoryCallRecordSink_len (nd_records (sys_node ?sys)) = 0"
    by (simp del: node_step.simps)
  ultimately show ?thesis using reach arrived c by (intro exI [of _ ?sys]) simp
qed

end
