(* ===== verification/One_Shot.thy ===== *)
theory One_Shot
  imports Policy
begin

text \<open>
  One-shot tokens over the life of a node: at most one call per token while the clock readings of the
  submits stay before its expiry, and the two ways in which the rule does not hold beyond that.
\<close>

section \<open>One-shot tokens\<close>

text \<open>The submits that reach a node, one after the other: header, peer and time.\<close>

type_synonym verify_request = "message \<times> node_id \<times> system_time"

fun verify_all ::
  "('pk, 'tok, 'az) biscuit_lib \<Rightarrow> 's spent_ops \<Rightarrow> ('pk, 's) policy \<Rightarrow> verify_request list
     \<Rightarrow> (authorized_submit, auth_error) result returns list" where
  "verify_all lib ops p [] = []"
| "verify_all lib ops p ((m, peer, now) # rs) =
     (case UnverifiedSubmit_verify lib ops (UnverifiedSubmit m) p peer now of
        (r, p') \<Rightarrow> r # verify_all lib ops p' rs)"

text \<open>The policy after them.\<close>

fun verify_end ::
  "('pk, 'tok, 'az) biscuit_lib \<Rightarrow> 's spent_ops \<Rightarrow> ('pk, 's) policy \<Rightarrow> verify_request list \<Rightarrow> ('pk, 's) policy" where
  "verify_end lib ops p [] = p"
| "verify_end lib ops p ((m, peer, now) # rs) =
     verify_end lib ops (snd (UnverifiedSubmit_verify lib ops (UnverifiedSubmit m) p peer now)) rs"

lemma verify_all_append:
  "verify_all lib ops p (rs @ rs') = verify_all lib ops p rs @ verify_all lib ops (verify_end lib ops p rs) rs'"
  by (induction rs arbitrary: p) (auto split: prod.split)

lemma verify_end_append:
  "verify_end lib ops p (rs @ rs') = verify_end lib ops (verify_end lib ops p rs) rs'"
  by (induction rs arbitrary: p) auto

lemma length_verify_all [simp]: "length (verify_all lib ops p rs) = length rs"
  by (induction rs arbitrary: p) (auto split: prod.split)

fun message_credential :: "message \<Rightarrow> credential option" where
  "message_credential (Message_Submit t d c cr b) = cr"
| "message_credential _ = None"

definition accepted_by_token :: "(authorized_submit, auth_error) result returns \<Rightarrow> biscuit_id \<Rightarrow> bool" where
  "accepted_by_token r i \<longleftrightarrow> (\<exists>a. r = Returns (Ok a) \<and> as_rule a = AuthRule_Token i)"

definition grants_one_shot ::
  "('pk, 'tok, 'az) biscuit_lib \<Rightarrow> ('pk, 's) policy \<Rightarrow> credential \<Rightarrow> biscuit_id \<Rightarrow> system_time \<Rightarrow> bool" where
  "grants_one_shot lib p cred i e \<longleftrightarrow> (\<exists>dl ct now. token_grants lib p cred dl ct now i e True)"

text \<open>The id, the expiry and being one-shot are the token's: they do not depend on the call.\<close>

lemma token_grants_unique:
  assumes "token_grants lib p cred dl ct now i e os"
    and "token_grants lib p' cred dl' ct' now' i' e' os'"
    and "policy_root_keys p' = policy_root_keys p"
  shows "i' = i \<and> e' = e \<and> os' = os"
  using assms unfolding token_grants_def by auto

lemma token_grants_expiry:
  assumes "token_grants lib p cred dl ct now i e os"
  shows "now < e"
proof -
  from assms obtain fs where fs: "fs \<noteq> []" "\<forall>f\<in>set fs. date_fact_ok (now_secs_of now) f"
    "e = Min (fact_date ` set fs)"
    unfolding token_grants_def by blast
  have "now < fact_date f" if f: "f \<in> set fs" for f
  proof -
    from fs(2) f obtain ts where ts: "f = [Term_Date ts]" "now_secs_of now < unat ts"
      by (auto simp: date_fact_ok_def)
    show ?thesis
    proof (cases "now < 0")
      case True
      then have "now < int (unat ts) * 10 ^ 9"
        by (rule less_le_trans) simp
      then show ?thesis using ts(1) by simp
    next
      case False
      with ts(2) have "now div 10 ^ 9 + 1 \<le> int (unat ts)"
        by (simp add: now_secs_of_def nat_less_iff)
      then have "(now div 10 ^ 9 + 1) * 10 ^ 9 \<le> int (unat ts) * 10 ^ 9"
        by (rule mult_right_mono) simp
      moreover have "now div 10 ^ 9 * 10 ^ 9 + now mod 10 ^ 9 = now" by (rule div_mult_mod_eq)
      moreover have "now mod 10 ^ 9 < 10 ^ 9" by simp
      ultimately have "now < int (unat ts) * 10 ^ 9" by (simp add: distrib_right)
      then show ?thesis using ts(1) by simp
    qed
  qed
  with fs(1,3) show ?thesis by simp
qed

context spent_set
begin

lemma verify_policy:
  assumes "UnverifiedSubmit_verify lib my_ops u p peer now = (r, p')"
  shows "policy_root_keys p' = policy_root_keys p" and "policy_self_id p' = policy_self_id p"
    and "live (policy_spent p) (max now t) \<subseteq> live (policy_spent p') t"
  using assms live_antimono [of t "max now t" "policy_spent p"]
  by (auto simp: UnverifiedSubmit_verify_def split: message.splits if_splits option.splits prod.splits
      dest: verify_credential_policy)

lemma accepted_spends:
  assumes v: "UnverifiedSubmit_verify lib my_ops (UnverifiedSubmit m) p peer now = (r, p')"
    and acc: "accepted_by_token r i" and cred: "message_credential m = Some cred"
  shows "i \<notin> live (policy_spent p) now \<or> (\<nexists>e. grants_one_shot lib p cred i e)"
    and "grants_one_shot lib p cred i e \<Longrightarrow> now < e \<and> (\<forall>t<e. i \<in> live (policy_spent p') t)"
proof -
  from cred obtain tk dl ct b where m: "m = Message_Submit tk dl ct (Some cred) b" by (cases m) auto
  obtain r1 where vc: "verify_biscuit_credential lib my_ops p cred dl ct now = (r1, p')"
    and r1: "r1 = Returns (Ok i)"
    using v acc m
    by (auto simp: UnverifiedSubmit_verify_def accepted_by_token_def ret_then_Ok_iff
        split: if_splits prod.splits)
  then obtain e0 os where g: "token_grants lib p cred dl ct now i e0 os"
    and os: "os \<longrightarrow> i \<notin> live (policy_spent p) now"
    using verify_credential_Ok [of lib p cred dl ct now i] by auto
  have uniq: "e = e0 \<and> os" if "grants_one_shot lib p cred i e" for e
    using that token_grants_unique [OF g] unfolding grants_one_shot_def by blast
  show "i \<notin> live (policy_spent p) now \<or> (\<nexists>e. grants_one_shot lib p cred i e)"
    using os uniq by blast
  show "now < e \<and> (\<forall>t<e. i \<in> live (policy_spent p') t)"
    if "grants_one_shot lib p cred i e"
  proof -
    have g': "token_grants lib p cred dl ct now i e True" using uniq [OF that] g by simp
    show ?thesis
      using token_grants_expiry [OF g'] verify_credential_policy(5) [OF vc r1 g'] by simp
  qed
qed

lemma grants_one_shot_cong:
  "policy_root_keys p' = policy_root_keys p \<Longrightarrow> policy_self_id p' = policy_self_id p \<Longrightarrow>
     grants_one_shot lib p' cred i e = grants_one_shot lib p cred i e"
  by (simp add: grants_one_shot_def token_grants_def)

text \<open>
  While an id is live, no one-shot token with that id is accepted. Only a submit whose clock reading
  is at or after the expiry can end that, whatever the order of the readings.
\<close>

lemma live_not_accepted:
  assumes "\<forall>t<e. i \<in> live (policy_spent p) t" and "k < length rs" and "rs ! k = (m, peer, now)"
    and "\<forall>l\<le>k. snd (snd (rs ! l)) < e" and "message_credential m = Some cred"
    and "grants_one_shot lib p cred i e'"
  shows "\<not> accepted_by_token (verify_all lib my_ops p rs ! k) i"
  using assms
proof (induction rs arbitrary: p k)
  case Nil
  then show ?case by simp
next
  case (Cons q rs)
  obtain m1 peer1 now1 where q: "q = (m1, peer1, now1)" by (cases q)
  obtain r p1 where v: "UnverifiedSubmit_verify lib my_ops (UnverifiedSubmit m1) p peer1 now1 = (r, p1)"
    by fastforce
  have now1: "now1 < e" using Cons.prems(4) q by force
  show ?case
  proof (cases k)
    case 0
    with Cons.prems q have eq: "m1 = m" "now1 = now" by simp_all
    then have "i \<in> live (policy_spent p) now1" using Cons.prems(1) now1 by simp
    then have "\<not> accepted_by_token r i"
      using accepted_spends(1) [OF v] Cons.prems(5,6) eq by blast
    then show ?thesis using 0 q v by simp
  next
    case (Suc k')
    have "i \<in> live (policy_spent p1) t" if "t < e" for t
      using verify_policy(3) [OF v, of t] Cons.prems(1) now1 that by auto
    moreover have "grants_one_shot lib p1 cred i e'"
      using Cons.prems(6) by (simp add: grants_one_shot_cong [OF verify_policy(1,2) [OF v]])
    moreover have "\<forall>l\<le>k'. snd (snd (rs ! l)) < e"
      using Cons.prems(4) Suc by (auto dest: spec [of _ "Suc _"])
    ultimately have "\<not> accepted_by_token (verify_all lib my_ops p1 rs ! k') i"
      using Cons.prems(2,3,5) Suc by (intro Cons.IH) simp_all
    then show ?thesis using Suc q v by simp
  qed
qed

lemma one_shot_accepted_once:
  assumes "j < k" and "k < length rs" and "rs ! j = (m, peer, now)" and "rs ! k = (m', peer', now')"
    and "message_credential m = Some cred" and "message_credential m' = Some cred'"
    and "grants_one_shot lib p cred i e" and "grants_one_shot lib p cred' i e'"
    and "\<forall>l. j < l \<and> l \<le> k \<longrightarrow> snd (snd (rs ! l)) < e"
    and "accepted_by_token (verify_all lib my_ops p rs ! j) i"
  shows "\<not> accepted_by_token (verify_all lib my_ops p rs ! k) i"
  using assms
proof (induction rs arbitrary: p j k)
  case Nil
  then show ?case by simp
next
  case (Cons q rs)
  obtain m1 peer1 now1 where q: "q = (m1, peer1, now1)" by (cases q)
  obtain r p1 where v: "UnverifiedSubmit_verify lib my_ops (UnverifiedSubmit m1) p peer1 now1 = (r, p1)"
    by fastforce
  obtain k' where k: "k = Suc k'" using Cons.prems(1) by (cases k) auto
  have gs: "grants_one_shot lib p1 cred i e" "grants_one_shot lib p1 cred' i e'"
    using Cons.prems(7,8) by (simp_all add: grants_one_shot_cong [OF verify_policy(1,2) [OF v]])
  have "\<not> accepted_by_token (verify_all lib my_ops p1 rs ! k') i"
  proof (cases j)
    case 0
    with Cons.prems q v have eq: "m1 = m" and acc: "accepted_by_token r i" by simp_all
    have "\<forall>t<e. i \<in> live (policy_spent p1) t"
      using accepted_spends(2) [OF v acc] Cons.prems(5,7) eq by blast
    moreover have "\<forall>l\<le>k'. snd (snd (rs ! l)) < e"
      using Cons.prems(9) 0 k by (auto dest: spec [of _ "Suc _"])
    ultimately show ?thesis using gs Cons.prems(2,4,6) k 
      by (intro live_not_accepted [of e i p1 k' rs m' peer' now' cred' lib e']) simp_all
  next
    case (Suc j')
    have "\<forall>l. j' < l \<and> l \<le> k' \<longrightarrow> snd (snd (rs ! l)) < e"
      using Cons.prems(9) Suc k by (auto dest: spec [of _ "Suc _"])
    with Suc Cons.prems k q v gs show ?thesis by (intro Cons.IH [of j' k' p1]) simp_all
  qed
  then show ?case using k q v by simp
qed

text \<open>Whoever is accepted by a token carries a credential that grants its id.\<close>

lemma accepted_grants:
  assumes "k < length rs" and "accepted_by_token (verify_all lib my_ops p rs ! k) i"
  shows "\<exists>c dl ct t e os. message_credential (fst (rs ! k)) = Some c \<and> token_grants lib p c dl ct t i e os"
  using assms
proof (induction rs arbitrary: p k)
  case Nil
  then show ?case by simp
next
  case (Cons q rs)
  obtain m1 peer1 now1 where q: "q = (m1, peer1, now1)" by (cases q)
  obtain r p1 where v: "UnverifiedSubmit_verify lib my_ops (UnverifiedSubmit m1) p peer1 now1 = (r, p1)"
    by fastforce
  show ?case
  proof (cases k)
    case 0
    with Cons.prems q v have "accepted_by_token r i" by simp
    then obtain tk dl ct c b p2 where m1: "m1 = Message_Submit tk dl ct (Some c) b"
      and vc: "verify_biscuit_credential lib my_ops p c dl ct now1 = (Returns (Ok i), p2)"
      using v by (auto simp: UnverifiedSubmit_verify_def accepted_by_token_def ret_then_Ok_iff
          split: message.splits if_splits option.splits prod.splits)
    then obtain e os where "token_grants lib p c dl ct now1 i e os"
      using verify_credential_Ok [of lib p c dl ct now1 i] by auto
    with 0 q m1 show ?thesis by (intro exI [of _ c] exI [of _ dl] exI [of _ ct] exI conjI) simp_all
  next
    case (Suc k')
    with Cons.prems q v have "accepted_by_token (verify_all lib my_ops p1 rs ! k') i" "k' < length rs" by simp_all
    from Cons.IH [OF this(2,1)] show ?thesis
      using verify_policy(1,2) [OF v] q Suc by (simp add: token_grants_def)
  qed
qed

lemma at_most_one_filtered:
  assumes "\<And>j k. j < k \<Longrightarrow> k < length xs \<Longrightarrow> P (xs ! j) \<Longrightarrow> \<not> P (xs ! k)"
  shows "length (filter P xs) \<le> 1"
  using assms
proof (induction xs)
  case (Cons x xs)
  have "length (filter P xs) \<le> 1"
    using Cons.prems [of "Suc _" "Suc _"] by (intro Cons.IH) simp_all
  moreover have "filter P xs = []" if "P x"
    using Cons.prems [of 0 "Suc _"] that by (auto simp: filter_empty_conv in_set_conv_nth)
  ultimately show ?case by simp
qed simp

text \<open>
  The bound the code keeps without relying on the order of the clock readings: as long as no submit read
  the clock at or after the token's expiry, its id admits one call.
\<close>

lemma one_call_before_expiry:
  assumes "\<forall>(m, peer, now)\<in>set rs. now < e \<and>
      (\<forall>c dl ct t e' os. message_credential m = Some c \<and> token_grants lib p c dl ct t i e' os \<longrightarrow> os \<and> e' = e)"
  shows "length (filter (\<lambda>r. accepted_by_token r i) (verify_all lib my_ops p rs)) \<le> 1"
proof (rule at_most_one_filtered)
  fix j k
  assume jk: "j < k" and k: "k < length (verify_all lib my_ops p rs)"
    and acc: "accepted_by_token (verify_all lib my_ops p rs ! j) i"
  then have kr: "k < length rs" by simp
  have grants: "\<exists>c. message_credential (fst (rs ! l)) = Some c \<and> grants_one_shot lib p c i e"
    if "l < length rs" "accepted_by_token (verify_all lib my_ops p rs ! l) i" for l
  proof -
    from accepted_grants [OF that] obtain c dl ct t e' os
      where c: "message_credential (fst (rs ! l)) = Some c" "token_grants lib p c dl ct t i e' os" by blast
    moreover from bspec [OF assms nth_mem [OF that(1)]] c have "os \<and> e' = e"
      by (simp add: case_prod_unfold) blast
    ultimately have "token_grants lib p c dl ct t i e True" by simp
    with c(1) show ?thesis unfolding grants_one_shot_def by blast
  qed
  show "\<not> accepted_by_token (verify_all lib my_ops p rs ! k) i"
  proof
    assume acc': "accepted_by_token (verify_all lib my_ops p rs ! k) i"
    from grants [of j] acc jk kr obtain c where c: "message_credential (fst (rs ! j)) = Some c"
      "grants_one_shot lib p c i e" by auto
    from grants [OF kr acc'] obtain c' where c': "message_credential (fst (rs ! k)) = Some c'"
      "grants_one_shot lib p c' i e" by auto
    have "\<forall>l. j < l \<and> l \<le> k \<longrightarrow> snd (snd (rs ! l)) < e"
      using assms kr by (fastforce dest: nth_mem [OF le_less_trans])
    from one_shot_accepted_once [OF jk kr _ _ _ _ c(2) c'(2) this acc] c(1) c'(1) acc'
    show False by (metis prod.collapse)
  qed
qed

end

text \<open>
  C7: A one-shot token is accepted at most once, under a condition on the clock. Take any submits that
  reach a node, from whatever peers, and one that was admitted by a one-shot token. A later submit with
  a one-shot credential of the same id is not admitted as long as no submit after the first one, up to
  and including the later one, read the clock at or after the expiry the id was spent with; and no later
  submit that itself reads the clock at or after that expiry is admitted by the same credential,
  whatever was read in between. The readings need not be in order.
\<close>

theorem one_shot_at_most_once:
  assumes "j < k" and "k < length rs"
    and "rs ! j = (m, peer, now)" and "rs ! k = (m', peer', now')"
    and "message_credential m = Some cred" and "message_credential m' = Some cred'"
    and "grants_one_shot lib p cred i e" and "grants_one_shot lib p cred' i e'"
    and "(\<forall>l. j < l \<and> l \<le> k \<longrightarrow> snd (snd (rs ! l)) < e) \<or> (cred' = cred \<and> e \<le> now')"
    and "accepted_by_token (verify_all lib memory_ops p rs ! j) i"
  shows "\<not> accepted_by_token (verify_all lib memory_ops p rs ! k) i"
proof (cases "\<forall>l. j < l \<and> l \<le> k \<longrightarrow> snd (snd (rs ! l)) < e")
  case True
  then show ?thesis
    using memory.one_shot_accepted_once [OF assms(1-8) _ assms(10) [folded memory_my_ops]]
    by (simp add: memory_my_ops)
next
  case False
  with assms(9) have same: "cred' = cred" and late: "e \<le> now'" by simp_all
  have "now'' < e''" if "fst (UnverifiedSubmit_verify lib memory_ops (UnverifiedSubmit m') q peer' now'') =
      Returns (Ok a)" "as_rule a = AuthRule_Token i" "grants_one_shot lib q cred i e''"
    for q now'' a e''
  proof -
    obtain r p' where v: "UnverifiedSubmit_verify lib memory.my_ops (UnverifiedSubmit m') q peer' now'' = (r, p')"
      by fastforce
    with that(1,2) have "accepted_by_token r i" by (auto simp: accepted_by_token_def memory_my_ops)
    from memory.accepted_spends(2) [OF v this, of cred] that(3) same assms(6) show ?thesis by simp
  qed
  note expired = this
  have "\<not> accepted_by_token (verify_all lib memory_ops q rs ! k) i"
    if "policy_root_keys q = policy_root_keys p" "policy_self_id q = policy_self_id p" for q
    using assms(2,4) that
  proof (induction rs arbitrary: q k)
    case Nil
    then show ?case by simp
  next
    case (Cons x rs)
    obtain m1 peer1 now1 where x: "x = (m1, peer1, now1)" by (cases x)
    obtain r p1 where v: "UnverifiedSubmit_verify lib memory.my_ops (UnverifiedSubmit m1) q peer1 now1 = (r, p1)"
      by fastforce
    show ?case
    proof (cases k)
      case 0
      have "grants_one_shot lib q cred i e"
        using assms(7) Cons.prems(3,4) by (simp add: grants_one_shot_def token_grants_def)
      with expired [of q now' _ e] late 0 Cons.prems x v show ?thesis
        by (auto simp: accepted_by_token_def memory_my_ops)
    next
      case (Suc k')
      with Cons x v memory.verify_policy(1,2) [OF v] show ?thesis by (simp add: memory_my_ops)
    qed
  qed
  then show ?thesis by simp
qed

lemma sample_A_one_shot:
  "grants_one_shot sample_lib sample_policy (Credential ''A'') sample_id (100 * 10 ^ 9)"
  unfolding grants_one_shot_def by (intro exI, rule sample_grants(1) [of _ 0], simp_all)

lemma sample_B_one_shot:
  "grants_one_shot sample_lib sample_policy (Credential ''B'') sample_id (10 * 10 ^ 9)"
  unfolding grants_one_shot_def by (intro exI, rule sample_grants(2) [of _ 0], simp_all)

lemma sample_credential: "message_credential (sample_header c) = Some (Credential c)"
  by (simp only: sample_header_def message_credential.simps)

lemma sample_first_accepted:
  assumes "token_grants sample_lib sample_policy (Credential c) (Deadline 1000) (ContentType ''a'') now sample_id e True"
  shows "accepted_by_token (verify_all sample_lib memory_ops sample_policy
    ((sample_header c, peer, now) # rs) ! 0) sample_id"
proof -
  have "fst (UnverifiedSubmit_verify sample_lib memory_ops (UnverifiedSubmit (sample_header c))
      sample_policy peer now) = Returns (Ok \<lparr>as_rule = AuthRule_Token sample_id, as_message = sample_header c\<rparr>)"
  proof -
    obtain r p' where v: "verify_biscuit_credential sample_lib memory_ops sample_policy (Credential c)
        (Deadline 1000) (ContentType ''a'') now = (r, p')" by fastforce
    have "r = Returns (Ok sample_id)"
      using memory.verify_credential_Ok [of sample_lib sample_policy "Credential c" "Deadline 1000"
          "ContentType ''a''" now sample_id] assms v
      by (auto simp: memory_my_ops memory_live_def MemorySpentSet_new_def)
    with v show ?thesis
      by (simp add: UnverifiedSubmit_verify_def sample_header_def Policy_contains_def)
  qed
  then show ?thesis by (auto simp: accepted_by_token_def split: prod.splits)
qed

theorem one_shot_at_most_once_witness:
  "\<not> accepted_by_token (verify_all sample_lib memory_ops sample_policy
     [(sample_header ''A'', NodeId [1], 2), (sample_header ''B'', NodeId [2], 1)] ! 1) sample_id"
proof (rule one_shot_at_most_once [where j = 0 and e = "100 * 10 ^ 9" and e' = "10 * 10 ^ 9"
      and cred = "Credential ''A''" and cred' = "Credential ''B''"
      and m = "sample_header ''A''" and m' = "sample_header ''B''" and now = 2 and now' = 1])
  show "accepted_by_token (verify_all sample_lib memory_ops sample_policy
     [(sample_header ''A'', NodeId [1], 2), (sample_header ''B'', NodeId [2], 1)] ! 0) sample_id"
    by (rule sample_first_accepted) (rule sample_grants(1); simp)
  show "(\<forall>l. 0 < l \<and> l \<le> 1 \<longrightarrow>
      snd (snd (([(sample_header ''A'', NodeId [1], 2), (sample_header ''B'', NodeId [2], 1)] :: verify_request list) ! l)) <
        100 * 10 ^ 9) \<or> (Credential ''B'' = Credential ''A'' \<and> 100 * 10 ^ 9 \<le> (1 :: int))"
    by (rule disjI1) (auto simp: le_Suc_eq)
qed (simp_all only: sample_A_one_shot sample_B_one_shot sample_credential, simp_all)

section \<open>What the one-shot rule does not cover\<close>

context spent_set
begin

text \<open>A submit that carries a granting one-shot token whose id is not live.\<close>

lemma verify_token_accepts:
  assumes "\<not> Policy_contains p peer" and "m = Message_Submit t dl ct (Some cred) b"
    and "token_grants lib p cred dl ct now i e True" and "i \<notin> live (policy_spent p) now"
    and "UnverifiedSubmit_verify lib my_ops (UnverifiedSubmit m) p peer now = (r, p')"
  shows "accepted_by_token r i" and "policy_spent p' = snd (consume (policy_spent p) i e now)"
    and "policy_allowlist p' = policy_allowlist p"
    and "token_grants lib p' = token_grants lib p"
proof -
  obtain r1 p1 where v: "verify_biscuit_credential lib my_ops p cred dl ct now = (r1, p1)"
    by fastforce
  obtain bb s where c: "consume (policy_spent p) i e now = (bb, s)" by fastforce
  have chk: "token_checks lib p cred dl ct now = Returns (Ok (i, e, True))"
    using assms(3) by (simp add: token_checks_iff)
  have bb: "bb" using consume_answer [of "policy_spent p" i e now] c assms(4) by simp
  from verify_one_shot [OF chk] v c bb have r1: "r1 = Returns (Ok i)"
    and p1: "p1 = p\<lparr>policy_spent := s\<rparr>" by simp_all
  have p': "p' = p1" and r: "accepted_by_token r i"
    using assms v r1 by (auto simp: UnverifiedSubmit_verify_def accepted_by_token_def)
  show "accepted_by_token r i" by (fact r)
  show "policy_spent p' = snd (consume (policy_spent p) i e now)" using p' p1 c by simp
  show "policy_allowlist p' = policy_allowlist p" using p' p1 by simp
  show "token_grants lib p' = token_grants lib p" using p' p1 by (simp add: fun_eq_iff token_grants_def)
qed

lemma attenuated_replays:
  assumes "\<not> Policy_contains p peer" and "i \<notin> live (policy_spent p) now1"
    and "m1 = Message_Submit t1 dl1 ct1 (Some cred1) []"
    and "m2 = Message_Submit t2 dl2 ct2 (Some cred2) []"
    and "token_grants lib p cred1 dl1 ct1 now1 i e1 True"
    and "token_grants lib p cred2 dl2 ct2 now2 i e2 True" and "e1 \<le> now2"
  shows "\<exists>r1 r2. verify_all lib my_ops p [(m1, peer, now1), (m2, peer, now2)] = [r1, r2] \<and>
    accepted_by_token r1 i \<and> accepted_by_token r2 i"
proof -
  obtain r1 p1 where v1: "UnverifiedSubmit_verify lib my_ops (UnverifiedSubmit m1) p peer now1 = (r1, p1)"
    by fastforce
  obtain r2 p2 where v2: "UnverifiedSubmit_verify lib my_ops (UnverifiedSubmit m2) p1 peer now2 = (r2, p2)"
    by fastforce
  have le: "now1 \<le> now2" using token_grants_expiry [OF assms(5)] assms(7) by simp
  note first = verify_token_accepts [OF assms(1,3,5,2) v1]
  have "i \<notin> live (policy_spent p1) now2"
    using consume_adds [of "policy_spent p" i e1 now1 now2] assms(2,7) live_antimono [OF le] first(2)
    by (auto split: if_splits)
  then have "accepted_by_token r2 i"
    using verify_token_accepts(1) [OF _ assms(4) _ _ v2, of i e2] assms(1,6) first(3,4)
    by (simp add: Policy_contains_def)
  with first(1) v1 v2 show ?thesis by simp
qed

end

context evicting_spent_set
begin

text \<open>What the bound on the stored entries costs when readings come out of order.\<close>

lemma stale_reading_readmits:
  assumes "\<not> Policy_contains p peer" and "\<not> Policy_contains p peer2" and "\<not> Policy_contains p peer3"
    and "m1 = Message_Submit t1 dl1 ct1 (Some cred) b1"
    and "m2 = Message_Submit t2 dl2 ct2 (Some cred2) b2"
    and "m3 = Message_Submit t3 dl3 ct3 (Some cred) b3"
    and "token_grants lib p cred dl1 ct1 now1 i e True"
    and "token_grants lib p cred2 dl2 ct2 now2 i2 e2 True"
    and "token_grants lib p cred dl3 ct3 now3 i e True"
    and "i \<notin> live (policy_spent p) now1" and "i2 \<notin> live (policy_spent p) now2"
    and "i2 \<noteq> i" and "e \<le> now2"
  shows "\<exists>r1 r2 r3. verify_all lib my_ops p [(m1, peer, now1), (m2, peer2, now2), (m3, peer3, now3)] = [r1, r2, r3] \<and>
    accepted_by_token r1 i \<and> accepted_by_token r2 i2 \<and> accepted_by_token r3 i"
proof -
  obtain r1 p1 where v1: "UnverifiedSubmit_verify lib my_ops (UnverifiedSubmit m1) p peer now1 = (r1, p1)"
    by fastforce
  obtain r2 p2 where v2: "UnverifiedSubmit_verify lib my_ops (UnverifiedSubmit m2) p1 peer2 now2 = (r2, p2)"
    by fastforce
  obtain r3 p3 where v3: "UnverifiedSubmit_verify lib my_ops (UnverifiedSubmit m3) p2 peer3 now3 = (r3, p3)"
    by fastforce
  have le: "now1 \<le> now2" using token_grants_expiry [OF assms(7)] assms(13) by simp
  note first = verify_token_accepts [OF assms(1,4,7,10) v1]
  have live1: "live (policy_spent p1) now2 \<subseteq> live (policy_spent p) now2"
    using consume_adds [of "policy_spent p" i e now1 now2] assms(13) first(2) by simp
  then have i2: "i2 \<notin> live (policy_spent p1) now2" and i: "i \<notin> live (policy_spent p1) now2"
    using assms(10,11) live_antimono [OF le, of "policy_spent p"] by blast+
  have "\<not> Policy_contains p1 peer2" "token_grants lib p1 cred2 dl2 ct2 now2 i2 e2 True"
    using assms(2,8) first(3,4) by (simp_all add: Policy_contains_def)
  note second = verify_token_accepts [OF this(1) assms(5) this(2) i2 v2]
  have "live (policy_spent p2) now3 \<subseteq> insert i2 (live (policy_spent p1) now2)"
    using live_entries consume_bound second(2) by fastforce
  with i assms(12) have "i \<notin> live (policy_spent p2) now3" by blast
  moreover have "\<not> Policy_contains p2 peer3" "token_grants lib p2 cred dl3 ct3 now3 i e True"
    using assms(3,9) first(3,4) second(3,4) by (simp_all add: Policy_contains_def)
  ultimately have "accepted_by_token r3 i"
    using verify_token_accepts(1) [OF _ assms(6) _ _ v3] by blast
  with first(1) second(1) v1 v2 v3 show ?thesis by simp
qed

end

text \<open>
  C36: The one-shot rule is per id and only until the expiry an id was spent with. Two credentials
  that share the revocation identifier of their authority block (a token and an attenuation of it
  with an earlier \<open>expires\<close>) are both admitted, the attenuated one first and the original one
  after the attenuated expiry: the holder of one one-shot token places two calls with it.
\<close>

theorem attenuated_one_shot_replays:
  assumes "\<not> Policy_contains p peer" and "i \<notin> memory_live (policy_spent p) now1"
    and "m1 = Message_Submit t1 dl1 ct1 (Some cred1) []"
    and "m2 = Message_Submit t2 dl2 ct2 (Some cred2) []"
    and "token_grants lib p cred1 dl1 ct1 now1 i e1 True"
    and "token_grants lib p cred2 dl2 ct2 now2 i e2 True" and "e1 \<le> now2"
  shows "\<exists>r1 r2. verify_all lib memory_ops p [(m1, peer, now1), (m2, peer, now2)] = [r1, r2] \<and>
    accepted_by_token r1 i \<and> accepted_by_token r2 i"
  using memory.attenuated_replays [OF assms] by (simp only: memory_my_ops)

theorem attenuated_one_shot_replays_witness:
  "\<exists>r1 r2. verify_all sample_lib memory_ops sample_policy
     [(sample_header ''B'', NodeId [1], 0), (sample_header ''A'', NodeId [1], 10 * 10 ^ 9)] = [r1, r2] \<and>
     accepted_by_token r1 sample_id \<and> accepted_by_token r2 sample_id"
proof (rule attenuated_one_shot_replays [where ?e1.0 = "10 * 10 ^ 9" and ?e2.0 = "100 * 10 ^ 9"])
  show "sample_header ''B'' = Message_Submit (TaskId 1) (Deadline 1000) (ContentType ''a'')
      (Some (Credential ''B'')) []" by (rule sample_header_def)
  show "sample_header ''A'' = Message_Submit (TaskId 1) (Deadline 1000) (ContentType ''a'')
      (Some (Credential ''A'')) []" by (rule sample_header_def)
  show "token_grants sample_lib sample_policy (Credential ''B'') (Deadline 1000) (ContentType ''a'')
      0 sample_id (10 * 10 ^ 9) True"
    by (rule sample_grants(2)) simp_all
  show "token_grants sample_lib sample_policy (Credential ''A'') (Deadline 1000) (ContentType ''a'')
      (10 * 10 ^ 9) sample_id (100 * 10 ^ 9) True"
    by (rule sample_grants(1)) simp_all
qed (simp_all add: Policy_contains_def memory_live_def MemorySpentSet_new_def)

text \<open>
  C37: A clock reading that is out of date undoes the one-shot rule. The callee reads the clock before it
  waits for the Submit, and the spent set forgets an id at the first reading after its expiry. So when
  a token has been used, another one-shot token with a later expiry comes in after the first one
  expired, and then a connection that was opened before the expiry sends the first token again, that
  token is admitted a second time, although it has expired by then.
\<close>

theorem stale_clock_readmits_one_shot:
  assumes "\<not> Policy_contains p peer" and "\<not> Policy_contains p peer2" and "\<not> Policy_contains p peer3"
    and "m1 = Message_Submit t1 dl1 ct1 (Some cred) b1"
    and "m2 = Message_Submit t2 dl2 ct2 (Some cred2) b2"
    and "m3 = Message_Submit t3 dl3 ct3 (Some cred) b3"
    and "token_grants lib p cred dl1 ct1 now1 i e True"
    and "token_grants lib p cred2 dl2 ct2 now2 i2 e2 True"
    and "token_grants lib p cred dl3 ct3 now3 i e True"
    and "i \<notin> memory_live (policy_spent p) now1" and "i2 \<notin> memory_live (policy_spent p) now2"
    and "i2 \<noteq> i" and "e \<le> now2"
  shows "\<exists>r1 r2 r3. verify_all lib memory_ops p [(m1, peer, now1), (m2, peer2, now2), (m3, peer3, now3)] = [r1, r2, r3] \<and>
    accepted_by_token r1 i \<and> accepted_by_token r2 i2 \<and> accepted_by_token r3 i"
  using memory.stale_reading_readmits [OF assms] by (simp only: memory_my_ops)

lemma sample_stale_grants:
  "token_grants sample_lib sample_policy (Credential ''A'') (Deadline 1000) (ContentType ''a'')
     0 sample_id (100 * 10 ^ 9) True"
  "token_grants sample_lib sample_policy (Credential ''A'') (Deadline 1000) (ContentType ''a'')
     1 sample_id (100 * 10 ^ 9) True"
  "token_grants sample_lib sample_policy (Credential ''D'') (Deadline 1000) (ContentType ''a'')
     (150 * 10 ^ 9) (8 # replicate 31 0) (200 * 10 ^ 9) True"
  by (rule sample_grants; simp)+

lemma sample_stale_unspent:
  "\<not> Policy_contains sample_policy p" "j \<notin> memory_live (policy_spent sample_policy) t"
  "8 # replicate 31 0 \<noteq> sample_id"
  by (simp_all add: Policy_contains_def memory_live_def MemorySpentSet_new_def sample_id_def)

theorem stale_clock_readmits_one_shot_witness:
  "\<exists>r1 r2 r3. verify_all sample_lib memory_ops sample_policy
     [(sample_header ''A'', NodeId [1], 0), (sample_header ''D'', NodeId [2], 150 * 10 ^ 9),
      (sample_header ''A'', NodeId [1], 1)] = [r1, r2, r3] \<and>
     accepted_by_token r1 sample_id \<and> accepted_by_token r2 (8 # replicate 31 0) \<and>
     accepted_by_token r3 sample_id"
  by (rule stale_clock_readmits_one_shot [OF sample_stale_unspent(1,1,1) sample_header_def sample_header_def
        sample_header_def sample_stale_grants(1,3,2) sample_stale_unspent(2,2,3)]) simp

end
