(* ===== verification/Node_Audit.thy ===== *)
theory Node_Audit
  imports Node_System One_Shot
begin

text \<open>
  Tokens on a running node: every use of a token is one call and one audit record, and what the one-shot
  rule of \<open>One_Shot\<close> says of a sequence of submits holds for the calls of a node, in whatever order
  they run.
\<close>

section \<open>The rule of a running call\<close>

definition run_rule ::
  "(bytes \<Rightarrow> message option) \<Rightarrow> ('pk, 'tok, 'az) biscuit_lib \<Rightarrow> 's spent_ops \<Rightarrow> ('pk, 's) running_call
     \<Rightarrow> auth_rule option" where
  "run_rule from_slice lib ops c =
     (case run_stage c of
        Stage_First now p f \<Rightarrow> callee_rule from_slice lib ops (run_peer c) p now Stream_Opened (Some f)
      | _ \<Rightarrow> None)"

lemma callee_rule_None [simp]: "callee_rule from_slice lib ops peer p now accepted None = None"
  by (simp add: callee_rule_def authorize_first_def granted_rule_def)

text \<open>The task that ends has the rule its stage says.\<close>

lemma callee_rule_stage:
  "callee_rule from_slice lib ops (run_peer c) (stage_policy (run_stage c) p) (ce_now (stage_env (run_stage c) env))
     (ce_accepted (stage_env (run_stage c) env)) (ce_first (stage_env (run_stage c) env)) =
   run_rule from_slice lib ops c"
  by (cases "run_stage c") (simp_all add: run_rule_def)

lemma auth_explained_token:
  "auth_explained rule auth \<Longrightarrow> auth = AuthOutcome_Allowed (AuthRule_Token i) \<longleftrightarrow> rule = Some (AuthRule_Token i)"
  by (auto simp: auth_explained_def split: option.splits)

section \<open>Counting the uses of a token\<close>

definition token_records :: "biscuit_id \<Rightarrow> call_record list \<Rightarrow> nat" where
  "token_records i rs =
     length (filter (\<lambda>r. cr_authorization r = AuthOutcome_Allowed (AuthRule_Token i)) rs)"

lemma token_records_simps [simp]:
  "token_records i [] = 0"
  "token_records i (r # rs) =
     (if cr_authorization r = AuthOutcome_Allowed (AuthRule_Token i) then 1 else 0) + token_records i rs"
  "token_records i (rs @ rs') = token_records i rs + token_records i rs'"
  by (simp_all add: token_records_def)

definition token_running ::
  "(bytes \<Rightarrow> message option) \<Rightarrow> ('pk, 'tok, 'az) biscuit_lib \<Rightarrow> 's spent_ops \<Rightarrow> biscuit_id
     \<Rightarrow> ('pk, 's) running_call list \<Rightarrow> nat" where
  "token_running from_slice lib ops i cs =
     length (filter (\<lambda>c. run_rule from_slice lib ops c = Some (AuthRule_Token i)) cs)"

lemma token_running_simps [simp]:
  "token_running from_slice lib ops i [] = 0"
  "token_running from_slice lib ops i (c # cs) =
     (if run_rule from_slice lib ops c = Some (AuthRule_Token i) then 1 else 0) + token_running from_slice lib ops i cs"
  "token_running from_slice lib ops i (cs @ cs') =
     token_running from_slice lib ops i cs + token_running from_slice lib ops i cs'"
  by (simp_all add: token_running_def)

lemma token_running_split:
  assumes "n < length cs"
  shows "token_running from_slice lib ops i cs =
    (if run_rule from_slice lib ops (cs ! n) = Some (AuthRule_Token i) then 1 else 0) +
    token_running from_slice lib ops i (take n cs @ drop (Suc n) cs)"
  by (subst running_split [OF assms]) simp

lemma token_running_update:
  assumes "n < length cs"
  shows "token_running from_slice lib ops i (cs[n := c]) +
      (if run_rule from_slice lib ops (cs ! n) = Some (AuthRule_Token i) then 1 else 0) =
    token_running from_slice lib ops i cs +
      (if run_rule from_slice lib ops c = Some (AuthRule_Token i) then 1 else 0)"
  by (simp add: token_running_split [OF assms] upd_conv_take_nth_drop [OF assms])

definition token_verified ::
  "('pk, 'tok, 'az) biscuit_lib \<Rightarrow> 's spent_ops \<Rightarrow> ('pk, 's) policy \<Rightarrow> biscuit_id \<Rightarrow> verify_request list \<Rightarrow> nat" where
  "token_verified lib ops p i rs = length (filter (\<lambda>r. accepted_by_token r i) (verify_all lib ops p rs))"

lemma token_verified_append [simp]:
  "token_verified lib ops p i [] = 0"
  "token_verified lib ops p i (rs @ rs') =
     token_verified lib ops p i rs + token_verified lib ops (verify_end lib ops p rs) i rs'"
  by (simp_all add: token_verified_def verify_all_append)

text \<open>What the first \<open>select!\<close> does to the policy and grants is the verification of its request.\<close>

lemma authorize_first_request:
  "snd (authorize_first from_slice lib ops peer p now (Some f)) =
     verify_end lib ops p (first_request from_slice peer now f)"
  "token_verified lib ops p i (first_request from_slice peer now f) =
     (if granted_rule (fst (authorize_first from_slice lib ops peer p now (Some f))) = Some (AuthRule_Token i)
      then 1 else 0)"
  by (auto simp: authorize_first_def first_request_def authorize_submit_header_def granted_rule_Some_iff
      token_verified_def accepted_by_token_def UnverifiedSubmit_from_header_def granted_rule_def
      split: first_select.split option.split sum.split prod.split message.split message.splits returns.splits sum.splits if_splits)

section \<open>The invariant\<close>

context call_record_sink
begin

text \<open>
  The policy is the one all verified submits led to, and every granted use is a call, or a record that was
  or is about to be emitted.
\<close>

definition audit_inv ::
  "(bytes \<Rightarrow> message option) \<Rightarrow> ('pk, 'tok, 'az) biscuit_lib \<Rightarrow> 'st spent_ops \<Rightarrow> ('pk, 'st) policy
     \<Rightarrow> ('pk, 'st, 'sk, 's) node_sys \<Rightarrow> bool" where
  "audit_inv from_slice lib ops p0 sys \<longleftrightarrow>
     nd_verify (sys_node sys) = verify_end lib ops p0 (sys_verified sys) \<and>
     (\<forall>i. token_records i (seen (nd_records (sys_node sys)) @ unrecorded sys) +
          token_running from_slice lib ops i (sys_running sys) =
        token_verified lib ops p0 i (sys_verified sys))"

lemma audit_inv_incoming:
  assumes "audit_inv from_slice lib ops p0 sys"
  shows "audit_inv from_slice lib ops p0 (node_step emit from_slice lib ops (NE_Incoming ge) sys)"
  using assms
  by (auto simp: audit_inv_def gate_decision_def run_rule_def refused_record_simps Let_def
      split: sum.split prod.split)

lemma audit_inv_first:
  assumes inv: "audit_inv from_slice lib ops p0 sys" and n: "n < length (sys_running sys)"
    and stage: "run_stage (sys_running sys ! n) = Stage_Started now"
    and gate: "verify_peer (nd_verify (sys_node sys)) (run_peer (sys_running sys ! n))"
  shows "audit_inv from_slice lib ops p0 (node_step emit from_slice lib ops (NE_First n f) sys)"
proof -
  let ?c = "sys_running sys ! n" and ?p = "nd_verify (sys_node sys)"
  let ?c' = "?c\<lparr>run_stage := Stage_First now ?p f\<rparr>"
  note req = authorize_first_request [where from_slice = from_slice and lib = lib and ops = ops and
    peer = "run_peer ?c" and p = ?p and now = now and f = f]
  have "run_rule from_slice lib ops ?c = None" by (simp add: run_rule_def stage)
  moreover have "run_rule from_slice lib ops ?c' =
      granted_rule (fst (authorize_first from_slice lib ops (run_peer ?c) ?p now (Some f)))"
    using gate by (simp add: run_rule_def callee_rule_def)
  ultimately have "token_running from_slice lib ops i ((sys_running sys)[n := ?c']) =
      token_running from_slice lib ops i (sys_running sys) +
      token_verified lib ops ?p i (first_request from_slice (run_peer ?c) now f)" for i
    using token_running_update [OF n, where from_slice = from_slice and lib = lib and ops = ops and i = i and c = ?c'] req(2) [of i] by simp
  then show ?thesis
    using inv n stage gate req(1)
    by (simp add: audit_inv_def Let_def incoming_submit_def verify_end_append add.assoc)
qed

lemma audit_inv_call_end:
  assumes inv: "audit_inv from_slice lib ops p0 sys" and n: "n < length (sys_running sys)" and r: "r \<noteq> Waiting"
    and call: "call_finish from_slice lib ops behavior (stage_env (run_stage (sys_running sys ! n)) env)
      (run_peer (sys_running sys ! n)) (run_permit (sys_running sys ! n))
      (stage_policy (run_stage (sys_running sys ! n)) (nd_verify (sys_node sys))) = ((r, acts), effs)"
  shows "audit_inv from_slice lib ops p0 (sys\<lparr>sys_running := take n (sys_running sys) @ drop (Suc n) (sys_running sys),
    sys_ending := sys_ending sys @ [effs]\<rparr>)"
proof -
  obtain rec notices where effs: "effs = Eff_Record rec # map Eff_Notify notices @ [Eff_Release (run_permit (sys_running sys ! n))]"
    and auth: "auth_explained (run_rule from_slice lib ops (sys_running sys ! n)) (cr_authorization rec)"
    by (rule call_finish_effects [OF call r]) (simp add: callee_rule_stage)
  have "remaining effect_records (sys_ending sys @ [effs]) = unrecorded sys @ [rec]"
    by (simp add: effs comp_def)
  then show ?thesis
    using inv auth_explained_token [OF auth]
      token_running_split [OF n, where from_slice = from_slice and lib = lib and ops = ops]
    by (simp add: audit_inv_def add.assoc add.commute add.left_commute)
qed

lemma audit_inv_effect:
  assumes inv: "audit_inv from_slice lib ops p0 sys" and n: "n < length (sys_ending sys)"
    and effs: "sys_ending sys ! n = eff # effs"
  shows "audit_inv from_slice lib ops p0 (sys\<lparr>sys_node := perform_effect emit eff (sys_node sys),
    sys_ending := (sys_ending sys)[n := effs]\<rparr>)"
proof -
  obtain before behind where "unrecorded sys = before @ effect_records eff @ behind"
    "remaining effect_records ((sys_ending sys)[n := effs]) = before @ behind" by (rule remaining_split [OF n effs])
  with inv show ?thesis by (cases eff) (simp_all add: audit_inv_def seen_emit ac_simps)
qed

lemma audit_inv_dial:
  assumes inv: "audit_inv from_slice lib ops p0 sys"
  shows "audit_inv from_slice lib ops p0 (node_step emit from_slice lib ops (NE_Dial env submit) sys)"
proof (cases "de_connect env")
  case (Inl e)
  with inv show ?thesis by (simp add: audit_inv_def Node_dial_def Let_def)
next
  case (Inr kc)
  obtain key conn where kc: "kc = (key, conn)" by (cases kc)
  let ?nd = "sys_node sys"
  obtain call acts sink where run: "run_caller emit (de_view env) (de_end env) (nd_records ?nd)
      (de_started env) (de_start env) (public_key_to_node_id key) submit (de_opened env) (de_write env)
      (de_close_reason env) (de_selects env) = (call, acts, sink)" by (metis surj_pair)
  note one = caller_one_record [OF run [unfolded run_caller_def]]
  show ?thesis
  proof (cases "call = Waiting")
    case True
    with Inr kc run inv show ?thesis by (simp add: audit_inv_def Node_dial_def)
  next
    case False
    with one have "token_records i (seen sink) = token_records i (seen (nd_records ?nd))" for i by auto
    with Inr kc run inv False show ?thesis
      by (cases call) (auto simp: audit_inv_def Node_dial_def Let_def split: sum.splits)
  qed
qed

lemma audit_inv_step:
  assumes "audit_inv from_slice lib ops p0 sys" and "node_inv c n0 sys"
  shows "audit_inv from_slice lib ops p0 (node_step emit from_slice lib ops ev sys)"
proof (cases rule: step_cases [where ev = ev and sys = sys and emit = emit and from_slice = from_slice
      and lib = lib and ops = ops])
  case (gate ge)
  with audit_inv_incoming [OF assms(1)] show ?thesis by simp
next
  case (start n now)
  then have "token_running from_slice lib ops i
      ((sys_running sys)[n := (sys_running sys ! n)\<lparr>run_stage := Stage_Started now\<rparr>]) =
    token_running from_slice lib ops i (sys_running sys)" for i
    using token_running_update [OF start(2), where from_slice = from_slice and lib = lib and ops = ops and i = i] by (simp add: run_rule_def)
  with start assms(1) show ?thesis by (simp add: audit_inv_def)
next
  case (first n f now)
  from assms(2) nth_mem [OF first(2)]
  have "verify_peer (nd_verify (sys_node sys)) (run_peer (sys_running sys ! n))" by (simp add: node_inv_def)
  with audit_inv_first [OF assms(1) first(2,3)] first(1) show ?thesis by blast
next
  case (call_end n env r acts effs)
  with audit_inv_call_end [OF assms(1) call_end(2-4)] show ?thesis by (simp add: Let_def)
next
  case (effect n eff effs)
  with audit_inv_effect [OF assms(1) effect(2,3)] show ?thesis by simp
next
  case (dial env submit)
  with audit_inv_dial [OF assms(1)] show ?thesis by simp
qed (use assms in simp)

lemma node_reach_audit:
  assumes "Node_bind_with_opts bind_endpoint identity verify behavior records opts = Ok nd"
    and "seen records = []" and "node_reach emit from_slice lib ops nd sys"
  shows "audit_inv from_slice lib ops verify sys"
  using assms(3)
proof (induction rule: node_reach.induct)
  case bound
  show ?case using assms(1,2)
    by (auto simp: audit_inv_def sys_init_def Node_bind_with_opts_def and_then_Ok_iff)
next
  case (event sys ev)
  with audit_inv_step node_reach_inv [OF assms(1)] show ?case by blast
qed

end

text \<open>
  C6: What a token is worth on a running node, in whatever order connections arrive, calls send their
  Submit, end and are recorded. The audit records that name a token's id, emitted or about to be, and the
  running calls it admitted are, one for one, the Submits the policy granted under that id. And when the
  token is one-shot, they are at most one in all, as long as no verified Submit read the clock at or after
  its expiry.
\<close>

theorem one_shot_token_admits_one_call:
  assumes "Node_bind_with_opts bind_endpoint identity verify behavior MemoryCallRecordSink_new opts = Ok nd"
    and "node_reach MemoryCallRecordSink_emit from_slice lib memory_ops nd sys"
  shows "token_records i (mem_records (nd_records (sys_node sys)) @ unrecorded sys) +
      token_running from_slice lib memory_ops i (sys_running sys) =
    length (filter (\<lambda>r. accepted_by_token r i) (verify_all lib memory_ops verify (sys_verified sys))) \<and>
    ((\<forall>(m, peer, now)\<in>set (sys_verified sys). now < e \<and>
        (\<forall>c dl ct t e' os. message_credential m = Some c \<and> token_grants lib verify c dl ct t i e' os \<longrightarrow> os \<and> e' = e)) \<longrightarrow>
      token_records i (mem_records (nd_records (sys_node sys)) @ unrecorded sys) +
        token_running from_slice lib memory_ops i (sys_running sys) \<le> 1)"
proof -
  have "memory_sink.audit_inv from_slice lib memory_ops verify sys"
    using memory_sink.node_reach_audit [OF assms(1) _ assms(2)] by (simp add: MemoryCallRecordSink_new_def)
  then have "token_records i (mem_records (nd_records (sys_node sys)) @ unrecorded sys) +
      token_running from_slice lib memory_ops i (sys_running sys) =
    length (filter (\<lambda>r. accepted_by_token r i) (verify_all lib memory_ops verify (sys_verified sys)))"
    by (simp add: memory_sink.audit_inv_def token_verified_def)
  with memory.one_call_before_expiry [of "sys_verified sys" e lib verify i] show ?thesis
    by (simp add: memory_my_ops)
qed

text \<open>Two peers present the same one-shot token: one call of the node is admitted by it.\<close>

definition replayed_events :: "node_event list" where
  "replayed_events =
     [NE_Incoming (sample_gate_env 1), NE_Incoming (sample_gate_env 2), NE_Start 0 0, NE_Start 1 1,
      NE_First 1 (FSel_Frame (Some (Ok [0, 0, 0, 3, 0, 1, 1]))),
      NE_First 0 (FSel_Frame (Some (Ok [0, 0, 0, 3, 0, 1, 1])))]"

definition token_node :: "(nat, memory_spent_set, unit, memory_sink) node" where
  "token_node = sample_node\<lparr>nd_verify := sample_policy\<rparr>"

lemma token_node_bound:
  "Node_bind_with_opts (\<lambda>_ _ _ _. Ok ()) (nd_identity sample_node) sample_policy StubComplete
     MemoryCallRecordSink_new NodeBindOpts_default = Ok token_node"
  by (simp add: Node_bind_with_opts_def sample_node_def token_node_def map_err_def NodeBindOpts_default_def)

lemma node_reach_events:
  "node_reach emit from_slice lib ops nd (foldl (\<lambda>s ev. node_step emit from_slice lib ops ev s) (sys_init nd) evs)"
  by (induction evs rule: rev_induct) (simp_all add: node_reach.intros)

lemma sample_frame_parts:
  "split_frame (\<lambda>_. Some (sample_header c)) [0, 0, 0, 3, 0, 1, 1] = Ok (sample_header c, [])"
  by (simp add: split_frame_def decode_parts_def frame_parts_eq Let_def)

lemma sample_first_request:
  "first_request (\<lambda>_. Some (sample_header c)) peer now (FSel_Frame (Some (Ok [0, 0, 0, 3, 0, 1, 1]))) =
     [(sample_header c, peer, now)]"
  by (simp add: first_request_def sample_frame_parts) (simp add: UnverifiedSubmit_from_header_def sample_header_def)

lemma replayed_events_verified:
  "sys_verified (foldl (\<lambda>s ev. node_step MemoryCallRecordSink_emit (\<lambda>_. Some (sample_header c)) sample_lib memory_ops ev s)
     (sys_init token_node) replayed_events) =
   [(sample_header c, NodeId [2], 1), (sample_header c, NodeId [1], 0)]"
proof -
  obtain lim lim' where adm: "try_admit_at (nd_rate_limiter sample_node) (NodeId [1]) 0 =
      (Ok \<lparr>permit_peer = NodeId [1], permit_released = False\<rparr>, lim)"
    "try_admit_at lim (NodeId [2]) 0 = (Ok \<lparr>permit_peer = NodeId [2], permit_released = False\<rparr>, lim')"
    using sample_node_admits by blast
  have gate: "verify_peer sample_policy p" for p
    by (simp add: verify_peer_def has_biscuit_roots_def)
  show ?thesis
    by (simp add: replayed_events_def sys_init_def token_node_def gate_decision_def sample_gate_env_def gate adm
        public_key_to_node_id_def NodeId_from_bytes_def sample_first_request Let_def)
qed

theorem one_shot_token_admits_one_call_witness:
  "\<exists>sys. node_reach MemoryCallRecordSink_emit (\<lambda>_. Some (sample_header ''A'')) sample_lib memory_ops token_node sys \<and>
     length (sys_verified sys) = 2 \<and>
     token_records sample_id (mem_records (nd_records (sys_node sys)) @ unrecorded sys) +
       token_running (\<lambda>_. Some (sample_header ''A'')) sample_lib memory_ops sample_id (sys_running sys) = 1"
proof -
  let ?fs = "\<lambda>_ :: bytes. Some (sample_header ''A'')"
  define sys where "sys = foldl (\<lambda>s ev. node_step MemoryCallRecordSink_emit ?fs sample_lib memory_ops ev s)
    (sys_init token_node) replayed_events"
  have reach: "node_reach MemoryCallRecordSink_emit ?fs sample_lib memory_ops token_node sys"
    unfolding sys_def by (rule node_reach_events)
  have verified: "sys_verified sys = [(sample_header ''A'', NodeId [2], 1), (sample_header ''A'', NodeId [1], 0)]"
    unfolding sys_def by (rule replayed_events_verified)
  note all = one_shot_token_admits_one_call [OF token_node_bound reach, of sample_id "100 * 10 ^ 9"]
  note unique = token_grants_unique [OF sample_grants(1) [where now = 0 and p = sample_policy]]
  have "\<forall>(m, peer, now)\<in>set (sys_verified sys). now < 100 * 10 ^ 9 \<and>
      (\<forall>c dl ct t e' os. message_credential m = Some c \<and>
        token_grants sample_lib sample_policy c dl ct t sample_id e' os \<longrightarrow> os \<and> e' = 100 * 10 ^ 9)"
    by (auto simp: verified sample_credential dest: unique [rotated -2])
  with all have "token_records sample_id (mem_records (nd_records (sys_node sys)) @ unrecorded sys) +
       token_running ?fs sample_lib memory_ops sample_id (sys_running sys) \<le> 1"
    by blast
  moreover have "accepted_by_token (verify_all sample_lib memory_ops sample_policy (sys_verified sys) ! 0) sample_id"
    unfolding verified by (rule sample_first_accepted) (rule sample_grants(1); simp)
  with all have "token_records sample_id (mem_records (nd_records (sys_node sys)) @ unrecorded sys) +
       token_running ?fs sample_lib memory_ops sample_id (sys_running sys) \<ge> 1"
    by (auto simp: verified split: prod.splits)
  ultimately show ?thesis using reach verified by (intro exI [of _ sys]) simp
qed

text \<open>
  Without the bound on the readings the same node admits two calls by the token: the third connection
  reads the clock before the token expires and sends it after the second one's Submit, whose reading is
  past the expiry, made the spent set forget it.
\<close>

definition two_headers :: "bytes \<Rightarrow> message option" where
  "two_headers h = (if h = [1] then Some (sample_header ''A'') else if h = [2] then Some (sample_header ''D'') else None)"

definition stale_events :: "node_event list" where
  "stale_events =
     [NE_Incoming (sample_gate_env 1), NE_Incoming (sample_gate_env 2), NE_Incoming (sample_gate_env 3),
      NE_Start 0 0, NE_First 0 (FSel_Frame (Some (Ok [0, 0, 0, 3, 0, 1, 1]))),
      NE_Start 2 1,
      NE_Start 1 (150 * 10 ^ 9), NE_First 1 (FSel_Frame (Some (Ok [0, 0, 0, 3, 0, 1, 2]))),
      NE_First 2 (FSel_Frame (Some (Ok [0, 0, 0, 3, 0, 1, 1])))]"

lemma two_headers_request:
  "first_request two_headers peer now (FSel_Frame (Some (Ok [0, 0, 0, 3, 0, 1, 1]))) = [(sample_header ''A'', peer, now)]"
  "first_request two_headers peer now (FSel_Frame (Some (Ok [0, 0, 0, 3, 0, 1, 2]))) = [(sample_header ''D'', peer, now)]"
proof -
  have "split_frame two_headers [0, 0, 0, 3, 0, 1, 1] = Ok (sample_header ''A'', [])"
    "split_frame two_headers [0, 0, 0, 3, 0, 1, 2] = Ok (sample_header ''D'', [])"
    by (simp_all add: split_frame_def decode_parts_def frame_parts_eq two_headers_def Let_def)
  then show "first_request two_headers peer now (FSel_Frame (Some (Ok [0, 0, 0, 3, 0, 1, 1]))) =
      [(sample_header ''A'', peer, now)]"
    and "first_request two_headers peer now (FSel_Frame (Some (Ok [0, 0, 0, 3, 0, 1, 2]))) =
      [(sample_header ''D'', peer, now)]"
    by (simp_all add: first_request_def) (simp_all add: UnverifiedSubmit_from_header_def sample_header_def)
qed

lemma stale_events_verified:
  "sys_verified (foldl (\<lambda>s ev. node_step MemoryCallRecordSink_emit two_headers sample_lib memory_ops ev s)
     (sys_init token_node) stale_events) =
   [(sample_header ''A'', NodeId [1], 0), (sample_header ''D'', NodeId [2], 150 * 10 ^ 9),
    (sample_header ''A'', NodeId [3], 1)]"
proof -
  obtain lim lim' lim'' where adm: "try_admit_at (nd_rate_limiter sample_node) (NodeId [1]) 0 =
      (Ok \<lparr>permit_peer = NodeId [1], permit_released = False\<rparr>, lim)"
    "try_admit_at lim (NodeId [2]) 0 = (Ok \<lparr>permit_peer = NodeId [2], permit_released = False\<rparr>, lim')"
    "try_admit_at lim' (NodeId [3]) 0 = (Ok \<lparr>permit_peer = NodeId [3], permit_released = False\<rparr>, lim'')"
    using sample_node_admits by blast
  have gate: "verify_peer sample_policy p" for p
    by (simp add: verify_peer_def has_biscuit_roots_def)
  show ?thesis
    by (simp add: stale_events_def sys_init_def token_node_def gate_decision_def sample_gate_env_def gate adm
        public_key_to_node_id_def NodeId_from_bytes_def two_headers_request Let_def)
qed

lemma stale_reading_admits_two_calls:
  "\<exists>sys. node_reach MemoryCallRecordSink_emit two_headers sample_lib memory_ops token_node sys \<and>
     token_records sample_id (mem_records (nd_records (sys_node sys)) @ unrecorded sys) +
       token_running two_headers sample_lib memory_ops sample_id (sys_running sys) = 2"
proof -
  define sys where "sys = foldl (\<lambda>s ev. node_step MemoryCallRecordSink_emit two_headers sample_lib memory_ops ev s)
    (sys_init token_node) stale_events"
  have reach: "node_reach MemoryCallRecordSink_emit two_headers sample_lib memory_ops token_node sys"
    unfolding sys_def by (rule node_reach_events)
  have "memory_sink.audit_inv two_headers sample_lib memory_ops sample_policy sys"
    using memory_sink.node_reach_audit [OF token_node_bound _ reach] by (simp add: MemoryCallRecordSink_new_def)
  then have "token_records sample_id (mem_records (nd_records (sys_node sys)) @ unrecorded sys) +
      token_running two_headers sample_lib memory_ops sample_id (sys_running sys) =
    token_verified sample_lib memory_ops sample_policy sample_id (sys_verified sys)"
    by (simp add: memory_sink.audit_inv_def)
  moreover have "token_verified sample_lib memory_ops sample_policy sample_id (sys_verified sys) = 2"
    using memory.stale_reading_readmits [OF sample_stale_unspent(1) sample_stale_unspent(1) sample_stale_unspent(1)
        sample_header_def sample_header_def sample_header_def sample_stale_grants(1,3,2)
        sample_stale_unspent(2,2,3), unfolded memory_my_ops, of "NodeId [1]" "NodeId [2]" "NodeId [3]"]
      sample_stale_unspent(3)
    by (auto simp: sys_def stale_events_verified token_verified_def accepted_by_token_def)
  ultimately show ?thesis using reach by (intro exI [of _ sys]) simp
qed

end
