(* ===== verification/Daemon_System.thy ===== *)
theory Daemon_System
  imports Node_Audit Local_Socket
begin

text \<open>
  A running daemon: the node of \<open>Node_System\<close> together with the tasks of its local socket
  (\<open>spawn_local_accept_loop\<close> in src/crates/uat-node/src/local.rs): the forwarder, which moves inbox events
  from the node's channel into one slot, and the sessions of local clients, which make outbound calls and
  take the event of the slot.
\<close>

section \<open>The daemon in use\<close>

text \<open>
  The events: something happens to the node; the forwarder receives an event, or is cancelled; the
  session of a client reaches the answer to its request, with the environment of the call that a \<open>Dial\<close>
  makes. As ghost state the daemon keeps the answers it computed.
\<close>

datatype daemon_event =
    DM_Node node_event
  | DM_Forward
  | DM_Forward_Cancelled
  | DM_Request local_request caller_env

record ('pk, 's, 'sk, 'snk) daemon_sys =
  dm_sys :: "('pk, 's, 'sk, 'snk) node_sys"
  dm_slot :: "inbox_event option"
  dm_forwarding :: bool
  dm_answers :: "local_response list"

definition take_inbox :: "inbox_event list \<Rightarrow> ('pk, 's, 'sk, 'snk) node_sys \<Rightarrow> ('pk, 's, 'sk, 'snk) node_sys" where
  "take_inbox evs sys = sys\<lparr>sys_node := (sys_node sys)\<lparr>nd_inbox := (nd_inbox (sys_node sys))\<lparr>ch_queue := evs\<rparr>\<rparr>\<rparr>"

definition request_dials :: "'a addr_lib \<Rightarrow> local_request \<Rightarrow> caller_env \<Rightarrow> nat" where
  "request_dials alib req env =
     (case req of
        LocalRequest_Dial peer addrs task deadline content_type credential body \<Rightarrow>
          (if is_ok (build_dial alib peer addrs task deadline content_type credential body) \<and> is_ok (de_connect env)
           then 1 else 0)
      | _ \<Rightarrow> 0)"

fun daemon_step ::
  "('snk \<Rightarrow> call_record \<Rightarrow> 'snk) \<Rightarrow> (bytes \<Rightarrow> message option) \<Rightarrow> ('pk, 'tok, 'az) biscuit_lib
     \<Rightarrow> 's spent_ops \<Rightarrow> 'a addr_lib \<Rightarrow> daemon_event \<Rightarrow> ('pk, 's, 'sk, 'snk) daemon_sys
     \<Rightarrow> ('pk, 's, 'sk, 'snk) daemon_sys" where
  "daemon_step emit from_slice lib ops alib (DM_Node ev) d =
     d\<lparr>dm_sys := node_step emit from_slice lib ops ev (dm_sys d)\<rparr>"
| "daemon_step emit from_slice lib ops alib DM_Forward d =
     (case (dm_forwarding d, ch_queue (nd_inbox (sys_node (dm_sys d)))) of
        (True, ev # evs) \<Rightarrow>
          (case inbox_forward [Fwd_Received (Some ev)] (dm_slot d) of
             (slot, ended) \<Rightarrow>
               d\<lparr>dm_sys := take_inbox evs (dm_sys d), dm_slot := slot, dm_forwarding := \<not> ended\<rparr>)
      | _ \<Rightarrow> d)"
| "daemon_step emit from_slice lib ops alib DM_Forward_Cancelled d =
     (case inbox_forward [Fwd_Cancelled] (dm_slot d) of
        (slot, ended) \<Rightarrow> d\<lparr>dm_slot := slot, dm_forwarding := dm_forwarding d \<and> \<not> ended\<rparr>)"
| "daemon_step emit from_slice lib ops alib (DM_Request req env) d =
     (case client_response emit alib (\<lambda>_ _. env) req (sys_node (dm_sys d)) (dm_slot d) of
        (r, nd, slot) \<Rightarrow>
          if r = Waiting then d
          else d\<lparr>dm_sys := (dm_sys d)\<lparr>sys_node := nd,
                   sys_dialed := sys_dialed (dm_sys d) + request_dials alib req env\<rparr>,
                 dm_slot := slot,
                 dm_answers := dm_answers d @ (case r of Done resp \<Rightarrow> [resp] | _ \<Rightarrow> [])\<rparr>)"

definition daemon_init :: "('pk, 's, 'sk, 'snk) node \<Rightarrow> ('pk, 's, 'sk, 'snk) daemon_sys" where
  "daemon_init nd = \<lparr>dm_sys = sys_init nd, dm_slot = None, dm_forwarding = True, dm_answers = []\<rparr>"

inductive daemon_reach ::
  "('snk \<Rightarrow> call_record \<Rightarrow> 'snk) \<Rightarrow> (bytes \<Rightarrow> message option) \<Rightarrow> ('pk, 'tok, 'az) biscuit_lib
     \<Rightarrow> 's spent_ops \<Rightarrow> 'a addr_lib \<Rightarrow> ('pk, 's, 'sk, 'snk) node \<Rightarrow> ('pk, 's, 'sk, 'snk) daemon_sys \<Rightarrow> bool"
  for emit from_slice lib ops alib nd where
  started: "daemon_reach emit from_slice lib ops alib nd (daemon_init nd)"
| event: "daemon_reach emit from_slice lib ops alib nd d \<Longrightarrow>
    daemon_reach emit from_slice lib ops alib nd (daemon_step emit from_slice lib ops alib ev d)"

section \<open>The daemon's node\<close>

text \<open>
  To the node, a step of the daemon is a step of the node, or an event taken out of its inbox, or
  nothing: a client's \<open>Dial\<close> is the event \<open>NE_Dial\<close> of the running node.
\<close>

lemma client_dial_is_node_step:
  assumes "client_response emit alib (\<lambda>_ _. env)
      (LocalRequest_Dial peer addrs task dl ct cr body) (sys_node sys) slot = (r, nd, slot')" and "r \<noteq> Waiting"
    and "is_ok (build_dial alib peer addrs task dl ct cr body)"
  shows "sys\<lparr>sys_node := nd, sys_dialed := sys_dialed sys +
      request_dials alib (LocalRequest_Dial peer addrs task dl ct cr body) env\<rparr> =
    node_step emit from_slice lib ops (NE_Dial env (Message_Submit task dl ct cr body)) sys" and "slot' = slot"
proof -
  from assms(3) obtain a where a: "build_dial alib peer addrs task dl ct cr body =
      Ok (a, Message_Submit task dl ct cr body)"
    by (auto simp: build_dial_def and_then_def split: sum.splits if_splits)
  with assms show "sys\<lparr>sys_node := nd, sys_dialed := sys_dialed sys +
      request_dials alib (LocalRequest_Dial peer addrs task dl ct cr body) env\<rparr> =
    node_step emit from_slice lib ops (NE_Dial env (Message_Submit task dl ct cr body)) sys"
    by (auto simp: client_response_def request_dials_def split: prod.splits progress.splits sum.splits)
  from a assms(1) show "slot' = slot"
    by (auto simp: client_response_def split: prod.splits progress.splits sum.splits)
qed

lemma daemon_step_cases:
  obtains (node) ev' where "dm_sys (daemon_step emit from_slice lib ops alib ev d) =
      node_step emit from_slice lib ops ev' (dm_sys d)"
  | (taken) e evs where "ch_queue (nd_inbox (sys_node (dm_sys d))) = e # evs"
      "dm_sys (daemon_step emit from_slice lib ops alib ev d) = take_inbox evs (dm_sys d)"
  | (same) "dm_sys (daemon_step emit from_slice lib ops alib ev d) = dm_sys d"
proof (cases ev)
  case (DM_Node ev')
  then show ?thesis by (intro node) simp
next
  case DM_Forward
  then show ?thesis
    by (cases "dm_forwarding d"; cases "ch_queue (nd_inbox (sys_node (dm_sys d)))")
      (auto intro: same taken)
next
  case DM_Forward_Cancelled
  then show ?thesis by (intro same) simp
next
  case (DM_Request req env)
  obtain r nd slot where run: "client_response emit alib (\<lambda>_ _. env) req (sys_node (dm_sys d)) (dm_slot d) =
      (r, nd, slot)" using prod_cases3 by blast
  show ?thesis
  proof (cases "\<exists>p as t dl ct c b. req = LocalRequest_Dial p as t dl ct c b \<and> is_ok (build_dial alib p as t dl ct c b)")
    case True
    then obtain p as t dl ct c b where req: "req = LocalRequest_Dial p as t dl ct c b"
      "is_ok (build_dial alib p as t dl ct c b)" by blast
    show ?thesis
    proof (cases "r = Waiting")
      case True
      with run show ?thesis by (intro same) (simp add: DM_Request)
    next
      case False
      note dial = client_dial_is_node_step(1) [OF run [unfolded req(1)] False req(2), where from_slice = from_slice
          and lib = lib and ops = ops]
      from run False dial show ?thesis
        by (intro node [of "NE_Dial env (Message_Submit t dl ct c b)"]) (simp add: DM_Request req(1))
    qed
  next
    case False
    with run have "nd = sys_node (dm_sys d)" "request_dials alib req env = 0"
      by (auto simp: client_response_def request_dials_def split: local_request.splits sum.splits option.splits)
    with run show ?thesis by (intro same) (simp add: DM_Request)
  qed
qed

lemma take_inbox_simps [simp]:
  "sys_running (take_inbox evs sys) = sys_running sys" "sys_ending (take_inbox evs sys) = sys_ending sys"
  "sys_arrived (take_inbox evs sys) = sys_arrived sys"
  "sys_dialed (take_inbox evs sys) = sys_dialed sys" "sys_verified (take_inbox evs sys) = sys_verified sys"
  "nd_rate_limiter (sys_node (take_inbox evs sys)) = nd_rate_limiter (sys_node sys)"
  "nd_records (sys_node (take_inbox evs sys)) = nd_records (sys_node sys)"
  "nd_verify (sys_node (take_inbox evs sys)) = nd_verify (sys_node sys)"
  "ch_queue (nd_inbox (sys_node (take_inbox evs sys))) = evs"
  "ch_capacity (nd_inbox (sys_node (take_inbox evs sys))) = ch_capacity (nd_inbox (sys_node sys))"
  by (simp_all add: take_inbox_def)

section \<open>What the inbox reports\<close>

lemma mset_bound_step:
  assumes "A' + B \<subseteq># A + B'" and "A \<subseteq># B"
  shows "A' \<subseteq># (B' :: 'a multiset)"
proof -
  from assms(2) have "A + B' \<subseteq># B + B'" by simp
  with assms(1) have "A' + B \<subseteq># B + B'" by (rule subset_mset.order_trans)
  then show ?thesis by (simp add: add.commute [of B])
qed

definition inbound_events :: "call_record list \<Rightarrow> inbox_event multiset" where
  "inbound_events rs = mset (map event_of_record (filter (\<lambda>r. cr_direction r = Direction_Inbound) rs))"

lemma inbound_events_simps [simp]:
  "inbound_events [] = {#}"
  "inbound_events (rs @ [r]) =
     inbound_events rs + (if cr_direction r = Direction_Inbound then {#event_of_record r#} else {#})"
  by (simp_all add: inbound_events_def)

fun reported_event :: "local_response \<Rightarrow> inbox_event list" where
  "reported_event (LocalResponse_InboxEvent peer outcome) = [\<lparr>ev_peer = peer, ev_outcome = outcome\<rparr>]"
| "reported_event _ = []"

definition reported :: "local_response list \<Rightarrow> inbox_event multiset" where
  "reported rs = mset (concat (map reported_event rs))"

lemma reported_simps [simp]:
  "reported [] = {#}" "reported (rs @ rs') = reported rs + reported rs'"
  "reported [r] = mset (reported_event r)"
  by (simp_all add: reported_def)

text \<open>
  What a handler still puts in the inbox without having a record left to account for it: nothing when it
  starts, its notice once its record is emitted.
\<close>

fun owed :: "node_effect list \<Rightarrow> inbox_event multiset" where
  "owed [] = {#}"
| "owed (Eff_Record r # effs) = owed effs - inbound_events [r]"
| "owed (Eff_Notify ev # effs) = add_mset ev (owed effs)"
| "owed (Eff_Release k # effs) = owed effs"

definition all_owed :: "node_effect list list \<Rightarrow> inbox_event multiset" where
  "all_owed ends = sum_list (map owed ends)"

lemma all_owed_simps [simp]:
  "all_owed [] = {#}" "all_owed (ends @ [effs]) = all_owed ends + owed effs"
  by (simp_all add: all_owed_def)

lemma all_owed_split:
  assumes "n < length ends" and "ends ! n = effs"
  obtains rest where "all_owed ends = owed effs + rest" "\<And>effs'. all_owed (ends[n := effs']) = owed effs' + rest"
proof
  let ?rest = "all_owed (take n ends) + all_owed (drop (Suc n) ends)"
  show "all_owed ends = owed effs + ?rest"
    using assms(2) by (subst id_take_nth_drop [OF assms(1)]) (simp add: all_owed_def ac_simps)
  show "all_owed (ends[n := effs']) = owed effs' + ?rest" for effs'
    by (simp add: all_owed_def upd_conv_take_nth_drop [OF assms(1)] ac_simps)
qed

text \<open>The events that were reported or still may be.\<close>

definition channel_events :: "('pk, 's, 'sk, 'snk) node_sys \<Rightarrow> inbox_event multiset" where
  "channel_events sys = mset (ch_queue (nd_inbox (sys_node sys))) + all_owed (sys_ending sys)"

definition inbox_events :: "('pk, 's, 'sk, 'snk) daemon_sys \<Rightarrow> inbox_event multiset" where
  "inbox_events d =
     reported (dm_answers d) + mset (case dm_slot d of Some ev \<Rightarrow> [ev] | None \<Rightarrow> []) +
     channel_events (dm_sys d)"

context call_record_sink
begin

text \<open>The events of the channel and those that handlers owe are, one for one, records that were emitted.\<close>

lemma effect_inbox:
  "mset (ch_queue (nd_inbox (perform_effect emit eff nd))) + owed effs + inbound_events (seen (nd_records nd)) \<subseteq>#
   mset (ch_queue (nd_inbox nd)) + owed (eff # effs) + inbound_events (seen (nd_records (perform_effect emit eff nd)))"
proof (cases eff)
  case (Eff_Record r)
  have "owed effs \<subseteq># owed effs - inbound_events [r] + inbound_events [r]"
    by (rule mset_subset_eqI) (simp only: count_union count_diff; arith)
  then show ?thesis by (simp add: Eff_Record seen_emit inbound_events_def ac_simps)
next
  case (Eff_Notify ev)
  then show ?thesis by (simp add: inbox_try_send_def)
qed simp

lemma run_caller_inbound:
  assumes "run_caller emit view t sink started start peer submit opened w reason sels = (r, acts, sink')"
  shows "inbound_events (seen sink') = inbound_events (seen sink)"
  using caller_one_record [OF assms [unfolded run_caller_def]] by (cases "r = Waiting") auto

lemma node_step_inbox:
  "channel_events (node_step emit from_slice lib ops ev sys) + inbound_events (seen (nd_records (sys_node sys))) \<subseteq>#
   channel_events sys + inbound_events (seen (nd_records (sys_node (node_step emit from_slice lib ops ev sys))))"
proof (cases rule: step_cases [where ev = ev and sys = sys and emit = emit and from_slice = from_slice
      and lib = lib and ops = ops])
  case (gate ge)
  then show ?thesis by (auto simp: channel_events_def gate_decision_def Let_def split: sum.split prod.split)
next
  case (first n f now)
  then show ?thesis by (simp add: channel_events_def Let_def incoming_submit_def)
next
  case (call_end n env r acts effs)
  obtain rec notices where effs: "effs = Eff_Record rec # map Eff_Notify notices @ [Eff_Release (run_permit (sys_running sys ! n))]"
    and notices: "notices = [] \<or> notices = [event_of_record rec]" and "cr_direction rec = Direction_Inbound"
    by (rule call_finish_effects [OF call_end(4,3)])
  then have "owed effs = {#}" by (auto simp: inbound_events_def)
  with call_end show ?thesis by (simp add: channel_events_def Let_def)
next
  case (effect n eff effs)
  obtain rest where rest: "all_owed (sys_ending sys) = owed (eff # effs) + rest"
    "\<And>effs'. all_owed ((sys_ending sys)[n := effs']) = owed effs' + rest"
    by (rule all_owed_split [OF effect(2,3)]) blast
  from effect_inbox [of eff "sys_node sys" effs] effect show ?thesis
    by (simp add: channel_events_def rest ac_simps)
next
  case (dial env submit)
  then show ?thesis
    by (auto simp: channel_events_def Node_dial_def Let_def dest: run_caller_inbound
        split: sum.splits prod.splits progress.splits)
qed (simp_all add: channel_events_def)

lemma client_response_inbox:
  assumes "client_response emit alib (\<lambda>_ _. env) req nd slot = (r, nd', slot')" and "r \<noteq> Waiting"
  shows "inbound_events (seen (nd_records nd')) = inbound_events (seen (nd_records nd))"
    and "ch_queue (nd_inbox nd') = ch_queue (nd_inbox nd)"
    and "mset (case slot' of Some ev \<Rightarrow> [ev] | None \<Rightarrow> []) + reported (case r of Done resp \<Rightarrow> [resp] | _ \<Rightarrow> []) =
      mset (case slot of Some ev \<Rightarrow> [ev] | None \<Rightarrow> [])"
  using assms
  by (auto simp: client_response_def Node_dial_def Let_def dest: run_caller_inbound
      split: local_request.splits sum.splits prod.splits progress.splits option.splits)

lemma daemon_step_inbox:
  "inbox_events (daemon_step emit from_slice lib ops alib ev d) + inbound_events (seen (nd_records (sys_node (dm_sys d)))) \<subseteq>#
   inbox_events d + inbound_events (seen (nd_records (sys_node (dm_sys (daemon_step emit from_slice lib ops alib ev d)))))"
proof (cases ev)
  case (DM_Node ev')
  then show ?thesis
    using node_step_inbox [where from_slice = from_slice and lib = lib and ops = ops and ev = ev' and sys = "dm_sys d"]
    by (simp add: inbox_events_def add.assoc)
next
  case DM_Forward
  show ?thesis
  proof (cases "ch_queue (nd_inbox (sys_node (dm_sys d)))")
    case (Cons e evs)
    with DM_Forward show ?thesis
      by (cases "dm_forwarding d") (simp_all add: inbox_events_def channel_events_def split: option.split)
  qed (simp add: DM_Forward split: bool.split)
next
  case DM_Forward_Cancelled
  then show ?thesis by (simp add: inbox_events_def)
next
  case (DM_Request req env)
  obtain r nd slot where run: "client_response emit alib (\<lambda>_ _. env) req (sys_node (dm_sys d)) (dm_slot d) =
      (r, nd, slot)" using prod_cases3 by blast
  show ?thesis
  proof (cases "r = Waiting")
    case False
    note client_response_inbox [OF run this]
    with run False show ?thesis
      by (simp add: DM_Request inbox_events_def channel_events_def flip: add.assoc) (simp add: add.assoc add.commute)
  qed (simp add: DM_Request run)
qed

text \<open>The invariants of the node hold of the daemon's node, in whatever order its clients come.\<close>

lemma daemon_reach_node:
  assumes "Node_bind_with_opts bind_endpoint identity verify behavior records opts = Ok nd"
    and "seen records = []" and "daemon_reach emit from_slice lib ops alib nd d"
  shows "node_inv (limiter_cap (nbo_rate_limits opts)) 0 (dm_sys d)"
    and "audit_inv from_slice lib ops verify (dm_sys d)"
    and "inbox_events d \<subseteq># inbound_events (seen (nd_records (sys_node (dm_sys d))))"
proof -
  from assms(3) have "node_inv (limiter_cap (nbo_rate_limits opts)) 0 (dm_sys d) \<and>
    audit_inv from_slice lib ops verify (dm_sys d) \<and>
    inbox_events d \<subseteq># inbound_events (seen (nd_records (sys_node (dm_sys d))))"
  proof (induction rule: daemon_reach.induct)
    case started
    from node_inv_init [OF assms(1)] assms(2) node_reach_audit [OF assms(1,2) node_reach.bound] assms(1)
    show ?case
      by (auto simp: daemon_init_def inbox_events_def channel_events_def sys_init_def Node_bind_with_opts_def and_then_Ok_iff)
  next
    case (event d ev)
    then have inv: "node_inv (limiter_cap (nbo_rate_limits opts)) 0 (dm_sys d)"
      and audit: "audit_inv from_slice lib ops verify (dm_sys d)"
      and inbox: "inbox_events d \<subseteq># inbound_events (seen (nd_records (sys_node (dm_sys d))))" by simp_all
    let ?d = "daemon_step emit from_slice lib ops alib ev d"
    have "node_inv (limiter_cap (nbo_rate_limits opts)) 0 (dm_sys ?d) \<and>
        audit_inv from_slice lib ops verify (dm_sys ?d)"
    proof (cases rule: daemon_step_cases [where emit = emit and from_slice = from_slice and lib = lib and ops = ops
          and alib = alib and ev = ev and d = d])
      case (node ev')
      with node_inv_step [OF inv] audit_inv_step [OF audit inv] show ?thesis by simp
    next
      case (taken e evs)
      with inv audit show ?thesis by (simp add: node_inv_def audit_inv_def)
    next
      case same
      with inv audit show ?thesis by simp
    qed
    moreover have "inbox_events ?d \<subseteq># inbound_events (seen (nd_records (sys_node (dm_sys ?d))))"
      by (rule mset_bound_step [OF daemon_step_inbox inbox])
    ultimately show ?case by blast
  qed
  then show "node_inv (limiter_cap (nbo_rate_limits opts)) 0 (dm_sys d)"
    and "audit_inv from_slice lib ops verify (dm_sys d)"
    and "inbox_events d \<subseteq># inbound_events (seen (nd_records (sys_node (dm_sys d))))" by blast+
qed

end

text \<open>
  C33: The inbox of a daemon makes nothing up and repeats nothing. In whatever order connections arrive and
  calls go on, events are forwarded and local clients dial and poll: every answer with an inbox event
  is, one for one, an inbound audit record of the node, with the outcome the record has and the
  \<open>Debug\<close> text of its peer; what still waits in the slot and in the channel is, one for one, further
  records; and at most 32 events wait in the channel.
\<close>

theorem inbox_reports_recorded_calls:
  assumes "Node_bind_with_opts bind_endpoint identity verify behavior MemoryCallRecordSink_new opts = Ok nd"
    and "daemon_reach MemoryCallRecordSink_emit from_slice lib ops alib nd d"
  shows "reported (dm_answers d) + mset (case dm_slot d of Some ev \<Rightarrow> [ev] | None \<Rightarrow> []) +
      mset (ch_queue (nd_inbox (sys_node (dm_sys d)))) \<subseteq>#
    mset (map (\<lambda>r. \<lparr>ev_peer = node_id_debug (cr_peer r), ev_outcome = cr_outcome r\<rparr>)
      (filter (\<lambda>r. cr_direction r = Direction_Inbound) (mem_records (nd_records (sys_node (dm_sys d)))))) \<and>
    length (ch_queue (nd_inbox (sys_node (dm_sys d)))) \<le> 32"
proof -
  have new: "mem_records MemoryCallRecordSink_new = []" by (simp add: MemoryCallRecordSink_new_def)
  note facts = memory_sink.daemon_reach_node [OF assms(1) new assms(2)]
  from facts(1) have "length (ch_queue (nd_inbox (sys_node (dm_sys d)))) \<le> 32"
    by (simp add: memory_sink.node_inv_def)
  moreover have "reported (dm_answers d) + mset (case dm_slot d of Some ev \<Rightarrow> [ev] | None \<Rightarrow> []) +
      mset (ch_queue (nd_inbox (sys_node (dm_sys d)))) \<subseteq># inbox_events d"
    by (simp add: inbox_events_def channel_events_def)
  note subset_mset.order_trans [OF this facts(3)]
  ultimately show ?thesis by (simp add: inbound_events_def event_of_record_def [abs_def])
qed

text \<open>A call that ends, the forwarder, and two polls: the first is answered with the event.\<close>

definition polled_events :: "daemon_event list" where
  "polled_events =
     [DM_Node (NE_Incoming (sample_gate_env 1)), DM_Node (NE_Start 0 0), DM_Node (NE_First 0 FSel_Closed),
      DM_Node (NE_Call_End 0 sample_callee_env), DM_Node (NE_Effect 0), DM_Node (NE_Effect 0), DM_Forward,
      DM_Request LocalRequest_Inbox sample_caller_env, DM_Request LocalRequest_Inbox sample_caller_env]"

lemma daemon_reach_events:
  "daemon_reach emit from_slice lib ops alib nd
     (foldl (\<lambda>d ev. daemon_step emit from_slice lib ops alib ev d) (daemon_init nd) evs)"
  by (induction evs rule: rev_induct) (simp_all add: daemon_reach.intros)

lemma polled_answers:
  "dm_answers (foldl (\<lambda>d ev. daemon_step MemoryCallRecordSink_emit sample_from_slice sample_lib memory_ops sample_addr_lib ev d)
     (daemon_init sample_node) polled_events) =
   [LocalResponse_InboxEvent (node_id_debug (NodeId [1])) Outcome_PeerLost, LocalResponse_InboxIdle]"
proof -
  obtain lim where adm: "try_admit_at (nd_rate_limiter sample_node) (NodeId [1]) 0 =
      (Ok \<lparr>permit_peer = NodeId [1], permit_released = False\<rparr>, lim)"
    using sample_node_admits by blast
  note gate = sample_node_gate
  have node: "ch_capacity (nd_inbox sample_node) = 32" "ch_queue (nd_inbox sample_node) = []"
    "\<not> ch_closed (nd_inbox sample_node)"
    by (simp_all add: sample_node_def)
  show ?thesis
    by (simp add: polled_events_def daemon_init_def sys_init_def gate_decision_def sample_gate_env_def gate adm node
        public_key_to_node_id_def NodeId_from_bytes_def incoming_submit_def authorize_first_def first_request_def
        call_finish_def run_callee_with_def callee_body_def callee_loop_def drop_guard_def
        guard_drop_def emit_now_def guard_simps connection_bytes_def sample_callee_env_def inbox_try_send_def client_response_def Let_def take_inbox_def)
qed

theorem inbox_reports_recorded_calls_witness:
  "\<exists>d. daemon_reach MemoryCallRecordSink_emit sample_from_slice sample_lib memory_ops sample_addr_lib sample_node d \<and>
     dm_answers d = [LocalResponse_InboxEvent (node_id_debug (NodeId [1])) Outcome_PeerLost, LocalResponse_InboxIdle] \<and>
     (\<exists>r\<in>set (mem_records (nd_records (sys_node (dm_sys d)))).
        cr_direction r = Direction_Inbound \<and> cr_outcome r = Outcome_PeerLost)"
proof -
  define d where "d = foldl (\<lambda>d ev. daemon_step MemoryCallRecordSink_emit sample_from_slice sample_lib memory_ops
    sample_addr_lib ev d) (daemon_init sample_node) polled_events"
  have reach: "daemon_reach MemoryCallRecordSink_emit sample_from_slice sample_lib memory_ops sample_addr_lib sample_node d"
    unfolding d_def by (rule daemon_reach_events)
  have answers: "dm_answers d = [LocalResponse_InboxEvent (node_id_debug (NodeId [1])) Outcome_PeerLost,
      LocalResponse_InboxIdle]" unfolding d_def by (rule polled_answers)
  let ?ev = "\<lparr>ev_peer = node_id_debug (NodeId [1]), ev_outcome = Outcome_PeerLost\<rparr>"
  have "?ev \<in># reported (dm_answers d)" by (simp add: answers reported_def)
  with inbox_reports_recorded_calls [OF sample_node_bound reach]
  have "?ev \<in># mset (map (\<lambda>r. \<lparr>ev_peer = node_id_debug (cr_peer r), ev_outcome = cr_outcome r\<rparr>)
      (filter (\<lambda>r. cr_direction r = Direction_Inbound) (mem_records (nd_records (sys_node (dm_sys d))))))"
    by (meson mset_subset_eqD union_iff)
  then have "\<exists>r\<in>set (mem_records (nd_records (sys_node (dm_sys d)))).
      cr_direction r = Direction_Inbound \<and> cr_outcome r = Outcome_PeerLost" by auto
  with reach answers show ?thesis by (intro exI [of _ d]) simp
qed

end
