(* ===== verification/Node_Draining.thy ===== *)
theory Node_Draining
  imports Node_System
begin

text \<open>
  What shutdown waits for: the running calls of a cancelled node come to their end, in any stage, and
  leave the limiter empty and every connection recorded.
\<close>

section \<open>A call that is told to stop\<close>

text \<open>
  The writes of the stub are answered (each within its budget), the loop takes a branch that ends it
  (cancellation, its timer or the loss of the connection), and so does the wait at the end.
\<close>

definition winding_down :: "callee_env \<Rightarrow> bool" where
  "winding_down env \<longleftrightarrow>
     2 \<le> length (ce_writes env) \<and> (\<exists>s\<in>set (ce_selects env). ends_callee s) \<and> ce_linger env \<noteq> None"

lemma emit_stub_ends: "length ms \<le> length ws \<Longrightarrow> fst (emit_stub state ms ws) \<noteq> Waiting"
proof (induction state ms ws rule: emit_stub.induct)
  case (3 state m ms w ws)
  then show ?case by (auto split: prod.split sum.split)
qed simp_all

lemma stub_messages_length: "length (stub_messages behavior) \<le> 2"
  by (cases behavior) (simp_all add: stub_messages_def)

lemma handle_ends:
  assumes "2 \<le> length ws" and "\<exists>s\<in>set sels. ends_callee s" and "lng \<noteq> None"
  shows "fst (handle_authorized_submit behavior ws sels lng submit g) \<noteq> Waiting"
proof -
  have "fst (emit_stub Callee_Offered (stub_messages behavior) ws) \<noteq> Waiting"
    using assms(1) stub_messages_length [of behavior] by (intro emit_stub_ends) linarith
  moreover have "callee_wait_terminal state ign sels \<noteq> (Waiting, acts)" for state ign acts
    using callee_wait_ends [OF assms(2), of state ign] by auto
  ultimately show ?thesis
    using assms(3)
    by (auto simp: handle_authorized_submit_def Let_def
        split: option.split prod.split progress.split sum.split linger.split)
qed

lemma callee_body_ends:
  assumes "winding_down env" and "ce_first env \<noteq> None"
  shows "fst (fst (callee_body from_slice lib ops started start peer p now behavior accepted
    (ce_first env) (ce_writes env) (ce_selects env) (ce_linger env))) \<noteq> Waiting"
proof -
  have "fst (handle_authorized_submit behavior (ce_writes env) (ce_selects env) (ce_linger env) submit g) \<noteq> Waiting"
    for submit g
    using handle_ends [of "ce_writes env" "ce_selects env" "ce_linger env" behavior submit g] assms(1)
    by (auto simp: winding_down_def)
  moreover have "ce_writes env \<noteq> []" using assms(1) by (auto simp: winding_down_def)
  ultimately have "fst (fst (callee_loop from_slice lib ops peer p now behavior (ce_first env) (ce_writes env)
      (ce_selects env) (ce_linger env) g)) \<noteq> Waiting" for g
    using assms(2)
    by (auto simp: callee_loop_def Let_def prod_eq_iff
        split: option.split first_select.split sum.split call_error.split prod.split returns.split)
  then have "callee_loop from_slice lib ops peer p now behavior (ce_first env) (ce_writes env)
      (ce_selects env) (ce_linger env) g \<noteq> ((Waiting, x), q)" for g x q
    by (metis fst_conv)
  then show ?thesis
    by (auto simp: callee_body_def Let_def split: stream_answer.split prod.split progress.split)
qed

lemma call_finish_ends:
  assumes "call_finish from_slice lib ops behavior env peer permit p = ((r, acts), effs)"
    and "winding_down env" and "ce_first env \<noteq> None"
  shows "r \<noteq> Waiting"
proof -
  have "callee_body from_slice lib ops (ce_started env) (ce_start env) peer p (ce_now env)
      behavior (ce_accepted env) (ce_first env) (ce_writes env) (ce_selects env) (ce_linger env) \<noteq>
    ((Waiting, x), q)" for x q
    using callee_body_ends [OF assms(2,3)] by (metis fst_conv)
  with assms(1) show ?thesis
    by (auto simp: call_finish_def run_callee_with_def drop_guard_def Let_def
        split: prod.splits progress.splits sum.splits call_error.splits)
qed

section \<open>A node that is told to stop\<close>

text \<open>
  The events by which one call ends, whatever its stage: those that do not fit it change nothing. The
  calls are taken from the front of the list. Then every handler performs the effects it has left: the
  \<open>n\<close>-th of \<open>ends\<close> has as many events as effects.
\<close>

definition stop_call :: "system_time \<times> callee_env \<Rightarrow> node_event list" where
  "stop_call e = [NE_Start 0 (fst e), NE_First 0 FSel_Cancelled, NE_Call_End 0 (snd e)]"

definition finish_effects :: "node_effect list list \<Rightarrow> node_event list" where
  "finish_effects ends = concat (map (\<lambda>n. replicate (length (ends ! n)) (NE_Effect n)) [0..<length ends])"

abbreviation run_events ::
  "('snk \<Rightarrow> call_record \<Rightarrow> 'snk) \<Rightarrow> (bytes \<Rightarrow> message option) \<Rightarrow> ('pk, 'tok, 'az) biscuit_lib
     \<Rightarrow> 's spent_ops \<Rightarrow> node_event list \<Rightarrow> ('pk, 's, 'sk, 'snk) node_sys \<Rightarrow> ('pk, 's, 'sk, 'snk) node_sys" where
  "run_events emit from_slice lib ops evs sys \<equiv> foldl (\<lambda>s ev. node_step emit from_slice lib ops ev s) sys evs"

definition drained ::
  "('snk \<Rightarrow> call_record \<Rightarrow> 'snk) \<Rightarrow> (bytes \<Rightarrow> message option) \<Rightarrow> ('pk, 'tok, 'az) biscuit_lib
     \<Rightarrow> 's spent_ops \<Rightarrow> (system_time \<times> callee_env) list \<Rightarrow> ('pk, 's, 'sk, 'snk) node_sys
     \<Rightarrow> ('pk, 's, 'sk, 'snk) node_sys" where
  "drained emit from_slice lib ops ends sys =
     (let sys = run_events emit from_slice lib ops (concat (map stop_call ends)) sys in
      run_events emit from_slice lib ops (finish_effects (sys_ending sys)) sys)"

lemma call_end_removes:
  assumes "sys_running sys = c # cs" and "winding_down env" and "run_stage c = Stage_First now p f"
  shows "sys_running (node_step emit from_slice lib ops (NE_Call_End 0 env) sys) = cs"
proof -
  obtain r acts effs where run: "call_finish from_slice lib ops (nd_callee_behavior (sys_node sys))
      (stage_env (run_stage c) env) (run_peer c) (run_permit c) (stage_policy (run_stage c) (nd_verify (sys_node sys))) =
    ((r, acts), effs)" by (metis surj_pair)
  have "winding_down (stage_env (run_stage c) env)" "ce_first (stage_env (run_stage c) env) \<noteq> None"
    using assms(2,3) by (simp_all add: winding_down_def)
  with call_finish_ends [OF run] have "r \<noteq> Waiting" by blast
  with assms(1) run show ?thesis by (simp add: Let_def)
qed

lemma stop_call_removes:
  assumes "sys_running sys = c # cs" and "winding_down (snd e)"
  shows "sys_running (run_events emit from_slice lib ops (stop_call e) sys) = cs"
proof -
  let ?sys = "node_step emit from_slice lib ops (NE_First 0 FSel_Cancelled)
      (node_step emit from_slice lib ops (NE_Start 0 (fst e)) sys)"
  have "\<exists>c' now p f. sys_running ?sys = c' # cs \<and> run_stage c' = Stage_First now p f"
    using assms(1) by (cases "run_stage c") (simp_all add: Let_def)
  with call_end_removes [OF _ assms(2)] have
    "sys_running (node_step emit from_slice lib ops (NE_Call_End 0 (snd e)) ?sys) = cs" by blast
  then show ?thesis by (simp add: stop_call_def del: node_step.simps)
qed

lemma stopped_running:
  assumes "length es = length (sys_running sys)" and "\<forall>e\<in>set es. winding_down (snd e)"
  shows "sys_running (run_events emit from_slice lib ops (concat (map stop_call es)) sys) = []"
  using assms
proof (induction es arbitrary: sys)
  case (Cons e es)
  then obtain c cs where run: "sys_running sys = c # cs" by (cases "sys_running sys") auto
  let ?next = "run_events emit from_slice lib ops (stop_call e) sys"
  have "sys_running ?next = cs" by (rule stop_call_removes [OF run]) (use Cons.prems(2) in simp)
  with Cons.IH [of ?next] Cons.prems run show ?case by (simp del: node_step.simps)
qed simp

text \<open>The effects that are left are performed, those of one handler after the other.\<close>

lemma effect_events:
  assumes "n < length (sys_ending sys)"
  shows "sys_ending (run_events emit from_slice lib ops (replicate (length (sys_ending sys ! n)) (NE_Effect n)) sys) =
    (sys_ending sys)[n := []]"
  using assms
proof (induction "sys_ending sys ! n" arbitrary: sys)
  case Nil
  then show ?case using list_update_id [of "sys_ending sys" n] by simp
next
  case (Cons eff effs)
  let ?next = "node_step emit from_slice lib ops (NE_Effect n) sys"
  from Cons(2) [symmetric] Cons.prems have next_ends: "sys_ending ?next = (sys_ending sys)[n := effs]" by simp
  with Cons.prems have "effs = sys_ending ?next ! n" "n < length (sys_ending ?next)" by simp_all
  from Cons.hyps(1) [OF this] next_ends Cons(2) [symmetric] Cons.prems show ?case
    by (simp del: node_step.simps)
qed

lemma finished_effects:
  "sys_ending (run_events emit from_slice lib ops (finish_effects (sys_ending sys)) sys) =
     replicate (length (sys_ending sys)) []"
proof -
  define ends where "ends = sys_ending sys"
  have "sys_ending (run_events emit from_slice lib ops
      (concat (map (\<lambda>n. replicate (length (ends ! n)) (NE_Effect n)) [0..<m])) sys) =
    replicate m [] @ drop m ends" if "m \<le> length ends" for m
    using that
  proof (induction m)
    case 0
    show ?case by (simp add: ends_def)
  next
    case (Suc m)
    let ?sys = "run_events emit from_slice lib ops
      (concat (map (\<lambda>n. replicate (length (ends ! n)) (NE_Effect n)) [0..<m])) sys"
    from Suc have here: "sys_ending ?sys = replicate m [] @ drop m ends" by simp
    with Suc.prems have "sys_ending ?sys ! m = ends ! m" "m < length (sys_ending ?sys)"
      by (simp_all add: nth_append)
    with effect_events [of m ?sys emit from_slice lib ops] here Suc.prems show ?case
      by (simp add: list_update_append upd_conv_take_nth_drop replicate_append_same [symmetric]
          flip: Cons_nth_drop_Suc del: node_step.simps)
  qed
  from this [of "length ends"] show ?thesis by (simp add: finish_effects_def ends_def)
qed

lemma effect_events_running:
  assumes "ev \<in> set (finish_effects ends)"
  shows "sys_running (node_step emit from_slice lib ops ev sys) = sys_running sys"
  using assms by (auto simp: finish_effects_def split: list.split)

lemma remaining_nothing: "remaining f (replicate k []) = []"
  by (simp add: remaining_def)

lemma foldl_keeps:
  assumes "\<And>s ev. ev \<in> set evs \<Longrightarrow> f (g s ev) = f s"
  shows "f (foldl g s evs) = f s"
  using assms by (induction evs arbitrary: s) simp_all

lemma drained_running:
  assumes "length es = length (sys_running sys)" and "\<forall>e\<in>set es. winding_down (snd e)"
  shows "sys_running (drained emit from_slice lib ops es sys) = []"
    and "sys_ending (drained emit from_slice lib ops es sys) =
      replicate (length (sys_ending (drained emit from_slice lib ops es sys))) []"
proof -
  let ?sys = "run_events emit from_slice lib ops (concat (map stop_call es)) sys"
  have "sys_running (run_events emit from_slice lib ops (finish_effects (sys_ending ?sys)) ?sys) = sys_running ?sys"
    by (rule foldl_keeps) (erule effect_events_running)
  then show "sys_running (drained emit from_slice lib ops es sys) = []"
    by (simp add: drained_def Let_def stopped_running [OF assms] del: node_step.simps)
  show "sys_ending (drained emit from_slice lib ops es sys) =
      replicate (length (sys_ending (drained emit from_slice lib ops es sys))) []"
    by (simp add: drained_def Let_def finished_effects del: node_step.simps)
qed

lemma drained_remaining:
  assumes "length es = length (sys_running sys)" and "\<forall>e\<in>set es. winding_down (snd e)"
  shows "remaining f (sys_ending (drained emit from_slice lib ops es sys)) = []"
  using drained_running(2) [OF assms] remaining_nothing by metis

text \<open>What the events of a node that stops leave alone.\<close>

lemma perform_effect_frame [simp]:
  "nd_sock_home (perform_effect emit eff nd) = nd_sock_home nd"
  "nd_cancelled (perform_effect emit eff nd) = nd_cancelled nd"
  by (cases eff; simp)+

lemma stop_frame:
  assumes "ev \<in> set (concat (map stop_call es)) \<or> ev \<in> set (finish_effects ends)"
  shows "sys_arrived (node_step emit from_slice lib ops ev sys) = sys_arrived sys"
    and "sys_dialed (node_step emit from_slice lib ops ev sys) = sys_dialed sys"
    and "nd_sock_home (sys_node (node_step emit from_slice lib ops ev sys)) = nd_sock_home (sys_node sys)"
    and "nd_cancelled (sys_node (node_step emit from_slice lib ops ev sys)) = nd_cancelled (sys_node sys)"
  using assms
  by (auto simp: stop_call_def finish_effects_def incoming_submit_def Let_def
      split: call_stage.splits prod.splits list.splits if_splits)

lemma drained_keeps:
  assumes "\<And>s ev es ends. ev \<in> set (concat (map stop_call es)) \<or> ev \<in> set (finish_effects ends) \<Longrightarrow>
      f (node_step emit from_slice lib ops ev s) = f s"
  shows "f (drained emit from_slice lib ops es sys) = f sys"
proof -
  have "f (run_events emit from_slice lib ops (concat (map stop_call es)) sys) = f sys"
    by (rule foldl_keeps) (use assms in blast)
  moreover have "f (run_events emit from_slice lib ops (finish_effects ends) s) = f s" for ends s
    by (rule foldl_keeps) (use assms in blast)
  ultimately show ?thesis by (simp add: drained_def Let_def del: node_step.simps)
qed

lemma drained_frame:
  "sys_arrived (drained emit from_slice lib ops es sys) = sys_arrived sys"
  "sys_dialed (drained emit from_slice lib ops es sys) = sys_dialed sys"
  "nd_sock_home (sys_node (drained emit from_slice lib ops es sys)) = nd_sock_home (sys_node sys)"
  "nd_cancelled (sys_node (drained emit from_slice lib ops es sys)) = nd_cancelled (sys_node sys)"
  by (rule drained_keeps, erule stop_frame)+

context call_record_sink
begin

lemma node_inv_foldl:
  "node_inv c n0 sys \<Longrightarrow> node_inv c n0 (foldl (\<lambda>s ev. node_step emit from_slice lib ops ev s) sys evs)"
  by (induction evs arbitrary: sys) (simp_all add: node_inv_step del: node_step.simps)

lemma drained_empty:
  assumes "node_inv c n0 sys" and "length es = length (sys_running sys)" and "\<forall>e\<in>set es. winding_down (snd e)"
  shows "in_flight (nd_rate_limiter (sys_node (drained emit from_slice lib ops es sys))) p = 0"
    and "length (seen (nd_records (sys_node (drained emit from_slice lib ops es sys)))) =
      n0 + sys_arrived sys + sys_dialed sys"
proof -
  let ?sys = "drained emit from_slice lib ops es sys"
  have inv: "node_inv c n0 ?sys"
    unfolding drained_def Let_def by (intro node_inv_foldl assms(1))
  note none = drained_running(1) [OF assms(2,3)]
  note left = drained_remaining [OF assms(2,3)]
  from inv have "limiter.accounts c (nd_rate_limiter (sys_node ?sys)) []"
    by (simp add: node_inv_def none left)
  from limiter.accounts_bound [OF this, of p] show "in_flight (nd_rate_limiter (sys_node ?sys)) p = 0"
    by (simp add: held_by_def unat_eq_0)
  from inv show "length (seen (nd_records (sys_node ?sys))) = n0 + sys_arrived sys + sys_dialed sys"
    by (simp add: node_inv_def none left drained_frame)
qed

end

text \<open>
  C34: Shutdown leaves nothing running and nothing unrecorded. Whatever state a bound node is in when it is
  cancelled, with or without a local socket: once every running call has been told to stop and its
  writes were answered, and every handler has performed what it had left, no peer holds a permit any more and the sink has exactly one record for every
  handshake and every outbound connection that was ever completed; shutdown then removes the socket file
  of the home that was registered, and no other, and closes the endpoint.
\<close>

theorem shutdown_leaves_nothing_running:
  assumes "Node_bind_with_opts bind_endpoint identity verify behavior MemoryCallRecordSink_new opts = Ok nd0"
    and "node_reach MemoryCallRecordSink_emit from_slice lib ops nd0 sys"
    and "length es = length (sys_running sys)" and "\<forall>(now, env)\<in>set es. winding_down env"
    and "Node_shutdown os (\<lambda>(nd, fs). (sys_node (drained MemoryCallRecordSink_emit from_slice lib ops es
        (sys\<lparr>sys_node := nd\<rparr>)), fs))
      ((sys_node sys)\<lparr>nd_sock_home := home, nd_inbox_rx_taken := taken\<rparr>, fs) = (nd, fs')"
  shows "(\<forall>p. in_flight (nd_rate_limiter nd) p = 0) \<and>
    MemoryCallRecordSink_len (nd_records nd) = sys_arrived sys + sys_dialed sys \<and>
    nd_cancelled nd \<and> nd_endpoint_closed nd \<and> nd_sock_home nd = None \<and>
    fs' = (case home of Some h \<Rightarrow> remove_sock_file os fs h | None \<Rightarrow> fs)"
proof -
  let ?sys = "sys\<lparr>sys_node := (sys_node sys)\<lparr>nd_sock_home := home, nd_inbox_rx_taken := taken,
    nd_cancelled := True, nd_tracker_closed := True\<rparr>\<rparr>"
  have "memory_sink.node_inv (limiter_cap (nbo_rate_limits opts)) 0 ?sys"
    using memory_sink.node_reach_inv [OF assms(1,2)] by (simp add: memory_sink.node_inv_def MemoryCallRecordSink_new_def)
  note empty = memory_sink.drained_empty [OF this, of es]
  from assms(3-5) empty show ?thesis
    by (auto simp: Node_shutdown_def Let_def drained_frame MemoryCallRecordSink_len_def case_prod_unfold
        split: option.splits)
qed

text \<open>A node with one admitted call and a socket.\<close>

definition stopping_env :: callee_env where
  "stopping_env = sample_callee_env\<lparr>ce_writes := [Some (Ok ()), Some (Ok ())],
     ce_selects := [ESel_Cancelled], ce_linger := Some Linger_Cancelled\<rparr>"

theorem shutdown_leaves_nothing_running_witness:
  "\<exists>sys nd. node_reach MemoryCallRecordSink_emit sample_from_slice sample_lib memory_ops sample_node sys \<and>
     length (sys_running sys) = 1 \<and>
     Node_shutdown map_sock_os (\<lambda>(nd, fs). (sys_node (drained MemoryCallRecordSink_emit sample_from_slice sample_lib
         memory_ops [(0, stopping_env)] (sys\<lparr>sys_node := nd\<rparr>)), fs))
       ((sys_node sys)\<lparr>nd_sock_home := Some ''h'', nd_inbox_rx_taken := True\<rparr>, [sock_path ''h'' \<mapsto> (384, True)]) =
       (nd, Map.empty) \<and>
     in_flight (nd_rate_limiter nd) (NodeId [1]) = 0 \<and> MemoryCallRecordSink_len (nd_records nd) = 1"
proof -
  let ?sys = "node_step MemoryCallRecordSink_emit sample_from_slice sample_lib memory_ops
    (NE_Incoming (sample_gate_env 1)) (sys_init sample_node)"
  have reach: "node_reach MemoryCallRecordSink_emit sample_from_slice sample_lib memory_ops sample_node ?sys"
    by (intro node_reach.intros)
  have one: "length (sys_running ?sys) = 1" "sys_arrived ?sys = 1" "sys_dialed ?sys = 0"
    using sample_node_admits sample_node_gate
    by (auto simp: gate_decision_def sample_gate_env_def sys_init_def Let_def
        public_key_to_node_id_def NodeId_from_bytes_def)
  obtain nd fs where down: "Node_shutdown map_sock_os (\<lambda>(nd, fs). (sys_node (drained MemoryCallRecordSink_emit
      sample_from_slice sample_lib memory_ops [(0, stopping_env)] (?sys\<lparr>sys_node := nd\<rparr>)), fs))
    ((sys_node ?sys)\<lparr>nd_sock_home := Some ''h'', nd_inbox_rx_taken := True\<rparr>, [sock_path ''h'' \<mapsto> (384, True)]) = (nd, fs)"
    by (metis surj_pair)
  have stop: "winding_down stopping_env" by (simp add: winding_down_def stopping_env_def)
  have "fs = remove_sock_file map_sock_os [sock_path ''h'' \<mapsto> (384, True)] ''h''" and
    "in_flight (nd_rate_limiter nd) (NodeId [1]) = 0 \<and> MemoryCallRecordSink_len (nd_records nd) = 1"
    using shutdown_leaves_nothing_running [OF sample_node_bound reach _ _ down] one stop by (simp_all del: node_step.simps)
  moreover have "remove_sock_file map_sock_os [sock_path ''h'' \<mapsto> (384, True)] ''h'' = Map.empty"
    by (simp add: remove_sock_file_def map_sock_os_def)
  ultimately show ?thesis using reach one down by (intro exI [of _ ?sys] exI [of _ nd]) simp
qed

end
