(* ===== verification/Node_Main.thy ===== *)
theory Node_Main
  imports Cli
begin

text \<open>
  The daemon's binary, src/crates/uat-node/src/main.rs: its arguments and environment, the sinks it
  gives the node, the \<open>listen\<close> and \<open>dial\<close> commands, and the wait for a signal. As in \<open>Cli\<close>, an error
  is the text that \<open>anyhow\<close> shows first, and parsers and texts of iroh are parameters.
\<close>

section \<open>The environment\<close>

text \<open>\<open>str::trim\<close> takes off Unicode white space, here its UTF-8 encodings.\<close>

definition white_space :: "string list" where
  "white_space = map (map char_of)
     ([[9], [10], [11], [12], [13], [32], [194, 133], [194, 160], [225, 154, 128]] @
      map (\<lambda>b. [226, 128, b]) ([128..<139] @ [168, 169, 175]) @
      [[226, 129, 159], [227, 128, 128 :: nat]])"

function strip_front :: "string list \<Rightarrow> string \<Rightarrow> string" where
  "strip_front ws s =
     (case find (\<lambda>w. w \<noteq> [] \<and> take (length w) s = w) ws of
        None \<Rightarrow> s
      | Some w \<Rightarrow> strip_front ws (drop (length w) s))"
  by pat_completeness auto

termination
proof (relation "measure (length \<circ> snd)")
  fix ws s w
  assume "find (\<lambda>w. w \<noteq> [] \<and> take (length w) s = w) ws = Some w"
  then have "w \<noteq> []" and "take (length w) s = w" by (auto simp: find_Some_iff)
  then have "0 < length w" "0 < length s" by auto
  then show "((ws, drop (length w) s), (ws, s)) \<in> measure (length \<circ> snd)" by simp
qed simp

declare strip_front.simps [simp del]

definition str_trim :: "string \<Rightarrow> string" where
  "str_trim s = rev (strip_front (map rev white_space) (rev (strip_front white_space s)))"

definition eq_ignore_ascii_case :: "string \<Rightarrow> string \<Rightarrow> bool" where
  "eq_ignore_ascii_case s t \<longleftrightarrow> map to_ascii_lowercase s = map to_ascii_lowercase t"

definition env_relay_enabled :: "(string \<Rightarrow> string option) \<Rightarrow> bool" where
  "env_relay_enabled var =
     (case var ''UAT_RELAY'' of
        Some v \<Rightarrow>
          (let v = str_trim v in
           v = ''1'' \<or> eq_ignore_ascii_case v ''true'' \<or> eq_ignore_ascii_case v ''yes'')
      | None \<Rightarrow> False)"

definition node_home_dir ::
  "(string \<Rightarrow> string option) \<Rightarrow> (string \<Rightarrow> string option) \<Rightarrow> (string, string) result" where
  "node_home_dir var var_os =
     (case var ''UAT_HOME'' of
        Some path \<Rightarrow> Ok path
      | None \<Rightarrow>
          and_then (ok_or ''HOME unset and UAT_HOME unset'' (var_os ''HOME'')) (\<lambda>home.
            Ok (path_join home ''.uat'')))"

definition records_dir :: "string \<Rightarrow> string" where
  "records_dir home = path_join home ''records''"

section \<open>The sinks\<close>

text \<open>The children of the daemon's fan-out: the log, and the JSON files of a directory.\<close>

datatype 'f child_sink = Child_Tracing "call_record list" | Child_Json string 'f

fun child_emit :: "'f os_ops \<Rightarrow> 'f child_sink \<Rightarrow> call_record \<Rightarrow> 'f child_sink" where
  "child_emit os (Child_Tracing log) r = Child_Tracing (log @ [r])"
| "child_emit os (Child_Json dir files) r = Child_Json dir (JsonDirCallRecordSink_emit os dir files r)"

definition record_sink_for :: "string \<Rightarrow> 'f \<Rightarrow> 'f child_sink list" where
  "record_sink_for home files =
     FanoutCallRecordSink_push
       (FanoutCallRecordSink_push [] (Child_Tracing []))
       (Child_Json (records_dir home) files)"

section \<open>Arguments\<close>

datatype node_command = Node_Cmd_Listen "string list" | Node_Cmd_Dial "string list" | Node_Cmd_Help

definition node_dispatch :: "string list \<Rightarrow> (node_command, string) result" where
  "node_dispatch args =
     (case args of
        [] \<Rightarrow> Err ''missing subcommand''
      | cmd # args \<Rightarrow>
          if cmd = ''listen'' then Ok (Node_Cmd_Listen args)
          else if cmd = ''dial'' then Ok (Node_Cmd_Dial args)
          else if cmd \<in> {''help'', ''-h'', ''--help''} then Ok Node_Cmd_Help
          else Err (''unknown subcommand: '' @ cmd))"

fun listen_options ::
  "(string \<Rightarrow> bytes option) \<Rightarrow> string list \<Rightarrow> ('pk, 's) policy \<Rightarrow> bool
     \<Rightarrow> (('pk, 's) policy \<times> bool, string) result" where
  "listen_options parse_id [] allow relay = Ok (allow, relay)"
| "listen_options parse_id (opt # args) allow relay =
     (if opt = ''--allow'' then
        (case args of
           [] \<Rightarrow> Err ''--allow requires an endpoint id''
         | raw # args \<Rightarrow>
             (case parse_id raw of
                None \<Rightarrow> Err ''parse --allow endpoint id''
              | Some key \<Rightarrow>
                  listen_options parse_id args (Policy_insert allow (public_key_to_node_id key)) relay))
      else if opt = ''--relay'' then listen_options parse_id args allow True
      else Err (''unknown listen arg: '' @ opt))"

fun node_dial_options ::
  "(string \<Rightarrow> 'a option) \<Rightarrow> string list \<Rightarrow> 'a list \<Rightarrow> bool \<Rightarrow> ('a list \<times> bool, string) result" where
  "node_dial_options parse_addr [] addrs relay = Ok (addrs, relay)"
| "node_dial_options parse_addr (opt # args) addrs relay =
     (if opt = ''--addr'' then
        (case args of
           [] \<Rightarrow> Err ''--addr requires ip:port''
         | raw # args \<Rightarrow>
             (case parse_addr raw of
                None \<Rightarrow> Err ''parse --addr''
              | Some a \<Rightarrow> node_dial_options parse_addr args (addrs @ [a]) relay))
      else if opt = ''--relay'' then node_dial_options parse_addr args addrs True
      else Err (''unknown dial arg: '' @ opt))"

definition bind_opts_of :: "bool \<Rightarrow> node_bind_opts" where
  "bind_opts_of relay = (if relay then NodeBindOpts_with_relay else NodeBindOpts_disabled)"

section \<open>Waiting for a signal\<close>

text \<open>
  \<open>wait_sigterm\<close> returns: on a signal, a cancellation or after a year when both handlers could be
  registered, else only on a cancellation. The token is cancelled whenever it returns.
\<close>

datatype signal_answer = Sig_Term | Sig_Int | Sig_Cancelled | Sig_Year_Over

definition wait_sigterm :: "bool \<Rightarrow> bool \<Rightarrow> signal_answer option \<Rightarrow> bool" where
  "wait_sigterm sig_term sig_int answer =
     (if sig_term \<and> sig_int then answer \<noteq> None else answer = Some Sig_Cancelled)"

section \<open>listen\<close>

text \<open>What a command gets from outside: the operating system, iroh, the environment.\<close>

record ('fs, 'h, 'st, 'ln, 'sk, 'a) main_env =
  me_var :: "string \<Rightarrow> string option"
  me_var_os :: "string \<Rightarrow> string option"
  me_id_os :: "('fs, 'h) id_os"
  me_keys :: "'sk key_lib"
  me_secret :: 'sk
  me_sock_os :: "('fs, 'st, 'ln) sock_os"
  me_bind :: "'sk bind_endpoint"
  me_parse_id :: "string \<Rightarrow> bytes option"
  me_parse_addr :: "string \<Rightarrow> 'a option"

text \<open>Up to the first line it prints: the node, the listener of its socket, the home, the relay flag.\<close>

definition listen_start ::
  "('fs, 'h, 'st, 'ln, 'sk, 'a) main_env \<Rightarrow> 'f \<Rightarrow> string list \<Rightarrow> 'fs
     \<Rightarrow> (('pk, memory_spent_set, 'sk, 'f child_sink list) node \<times> 'ln \<times> string \<times> bool, string) result \<times> 'fs"
where
  "listen_start env files args fs =
     (case listen_options (me_parse_id env) args Policy_empty (env_relay_enabled (me_var env)) of
        Err e \<Rightarrow> (Err e, fs)
      | Ok (allow, relay) \<Rightarrow>
          (case node_home_dir (me_var env) (me_var_os env) of
             Err e \<Rightarrow> (Err e, fs)
           | Ok home \<Rightarrow>
               (case Node_bind_at_with_opts (me_id_os env) (me_keys env) (me_secret env) fs (me_bind env)
                       home allow StubComplete (record_sink_for home files) (bind_opts_of relay) of
                  (Err e, fs) \<Rightarrow> (Err (DaemonError_to_string e), fs)
                | (Ok nd, fs) \<Rightarrow>
                    (case spawn_local_socket (me_sock_os env) fs home nd of
                       (Err e, nd, fs) \<Rightarrow> (Err (DaemonError_to_string e), fs)
                     | (Ok listener, nd, fs) \<Rightarrow> (Ok (nd, listener, home, relay), fs)))))"

definition on_off :: "bool \<Rightarrow> string" where
  "on_off relay = (if relay then ''on'' else ''off'')"

text \<open>\<open>show_id\<close> and \<open>ip_addrs\<close> are what the endpoint reports of itself.\<close>

definition listen_lines ::
  "string \<Rightarrow> string list \<Rightarrow> ('pk, 's, 'sk, 'snk) node \<Rightarrow> string \<Rightarrow> bool \<Rightarrow> string list" where
  "listen_lines show_id ip_addrs nd home relay =
     [''node_id='' @ show_id] @ map (\<lambda>a. ''addr='' @ a) ip_addrs @
     (case local_sock_path nd of Some sock \<Rightarrow> [''sock='' @ sock] | None \<Rightarrow> []) @
     [''relay='' @ on_off relay, ''records_dir='' @ records_dir home, ''listening (SIGTERM to stop)'']"

text \<open>
  \<open>running\<close> is what the spawned tasks do until the signal, \<open>wait\<close> what they do while \<open>shutdown\<close> waits
  for them.
\<close>

definition node_cmd_listen ::
  "('fs, 'h, 'st, 'ln, 'sk, 'a) main_env \<Rightarrow> 'f \<Rightarrow> string \<Rightarrow> string list \<Rightarrow> bool \<Rightarrow> bool
     \<Rightarrow> signal_answer option
     \<Rightarrow> (('pk, memory_spent_set, 'sk, 'f child_sink list) node \<times> 'fs
          \<Rightarrow> ('pk, memory_spent_set, 'sk, 'f child_sink list) node \<times> 'fs)
     \<Rightarrow> (('pk, memory_spent_set, 'sk, 'f child_sink list) node \<times> 'fs
          \<Rightarrow> ('pk, memory_spent_set, 'sk, 'f child_sink list) node \<times> 'fs)
     \<Rightarrow> string list \<Rightarrow> 'fs
     \<Rightarrow> (unit, string) result progress \<times> string list
        \<times> ('pk, memory_spent_set, 'sk, 'f child_sink list) node option \<times> 'fs" where
  "node_cmd_listen env files show_id ip_addrs sig_term sig_int answer running wait args fs =
     (case listen_start env files args fs of
        (Err e, fs) \<Rightarrow> (Done (Err e), [], None, fs)
      | (Ok (nd, _, home, relay), fs) \<Rightarrow>
          (let lines = listen_lines show_id ip_addrs nd home relay in
           case running (nd, fs) of (nd, fs) \<Rightarrow>
             if wait_sigterm sig_term sig_int answer
             then (case Node_shutdown (me_sock_os env) wait (nd, fs) of
                     (nd, fs) \<Rightarrow> (Done (Ok ()), lines, Some nd, fs))
             else (Waiting, lines, Some nd, fs)))"

section \<open>dial\<close>

definition dial_start ::
  "('fs, 'h, 'st, 'ln, 'sk, 'a) main_env \<Rightarrow> 'f \<Rightarrow> string list \<Rightarrow> 'fs
     \<Rightarrow> (('pk, memory_spent_set, 'sk, 'f child_sink list) node \<times> 'a endpoint_addr \<times> string \<times> bool, string) result
        \<times> 'fs"
where
  "dial_start env files args fs =
     (case args of
        [] \<Rightarrow> (Err ''dial requires <endpoint-id>'', fs)
      | raw # args \<Rightarrow>
          (case and_then (ok_or ''parse peer endpoint id'' (me_parse_id env raw)) (\<lambda>peer_id.
                and_then (node_dial_options (me_parse_addr env) args [] (env_relay_enabled (me_var env)))
                  (\<lambda>(addrs, relay).
                if addrs = [] then Err ''dial requires at least one --addr''
                else and_then (node_home_dir (me_var env) (me_var_os env)) (\<lambda>home.
                  Ok (\<lparr>ea_id = peer_id, ea_addrs = addrs\<rparr>, home, relay)))) of
             Err e \<Rightarrow> (Err e, fs)
           | Ok (peer, home, relay) \<Rightarrow>
               (case Node_bind_at_with_opts (me_id_os env) (me_keys env) (me_secret env) fs (me_bind env)
                       home Policy_empty StubComplete (record_sink_for home files) (bind_opts_of relay) of
                  (Err e, fs) \<Rightarrow> (Err (DaemonError_to_string e), fs)
                | (Ok nd, fs) \<Rightarrow> (Ok (nd, peer, home, relay), fs))))"

definition stub_submit :: message where
  "stub_submit = Message_Submit (TaskId_from_u128 1) (Deadline 30000)
     (ContentType ''application/octet-stream'') None []"

text \<open>
  Which branch of the \<open>select!\<close> completed: the call, or a signal, before or after the connection was
  made. A signal drops the call, and with it the record's guard, whose clock and view are those of
  the environment; then the node is shut down.
\<close>

datatype dial_race = Race_Call | Race_Signal_Connecting | Race_Signal_In_Call

definition drop_dial ::
  "('snk \<Rightarrow> call_record \<Rightarrow> 'snk) \<Rightarrow> caller_env \<Rightarrow> message \<Rightarrow> ('pk, 's, 'sk, 'snk) node
     \<Rightarrow> ('pk, 's, 'sk, 'snk) node \<times> string list" where
  "drop_dial emit env submit nd =
     (case de_connect env of
        Err _ \<Rightarrow> (nd, [])
      | Ok (key, conn) \<Rightarrow>
          (case caller_body (de_started env) (de_start env) (public_key_to_node_id key) submit
                  (de_opened env) (de_write env) (de_close_reason env) RC_None (de_selects env) of
             (_, g, _) \<Rightarrow>
               (nd\<lparr>nd_records := guard_drop emit (de_view env) (de_end env) g (nd_records nd)\<rparr>,
                [rtt_line (connection_rtt conn)])))"

definition node_cmd_dial ::
  "('fs, 'h, 'st, 'ln, 'sk, 'a) main_env \<Rightarrow> 'f os_ops \<Rightarrow> 'f \<Rightarrow> ('a endpoint_addr \<Rightarrow> caller_env) \<Rightarrow> dial_race
     \<Rightarrow> (('pk, memory_spent_set, 'sk, 'f child_sink list) node \<times> 'fs
          \<Rightarrow> ('pk, memory_spent_set, 'sk, 'f child_sink list) node \<times> 'fs)
     \<Rightarrow> string list \<Rightarrow> 'fs
     \<Rightarrow> (unit, string) result progress \<times> string list
        \<times> ('pk, memory_spent_set, 'sk, 'f child_sink list) node option \<times> 'fs" where
  "node_cmd_dial env os files call race wait args fs =
     (case dial_start env files args fs of
        (Err e, fs) \<Rightarrow> (Done (Err e), [], None, fs)
      | (Ok (nd, peer, home, relay), fs) \<Rightarrow>
          (let lines = [''relay='' @ on_off relay, ''records_dir='' @ records_dir home];
               emit = FanoutCallRecordSink_emit (child_emit os);
               interrupted = (\<lambda>(nd, out).
                 case Node_shutdown (me_sock_os env) wait (nd, fs) of
                   (nd, fs) \<Rightarrow>
                     (Done (Err ''cancelled before call completed''), lines @ out, Some nd, fs)) in
           case race of
             Race_Signal_Connecting \<Rightarrow> interrupted (nd, [])
           | Race_Signal_In_Call \<Rightarrow> interrupted (drop_dial emit (call peer) stub_submit nd)
           | Race_Call \<Rightarrow>
               (case Node_dial emit (call peer) stub_submit nd of
                  ((Waiting, _, out), nd) \<Rightarrow> (Waiting, lines @ out, Some nd, fs)
                | ((Panicked, _, out), nd) \<Rightarrow> (Panicked, lines @ out, Some nd, fs)
                | ((Done (Err e), _, out), nd) \<Rightarrow>
                    (Done (Err (DaemonError_to_string e)), lines @ out, Some nd, fs)
                | ((Done (Ok finish), _, out), nd) \<Rightarrow>
                    (let lines = lines @ out @ [''outcome='' @ outcome_debug (df_outcome finish)] in
                     if df_outcome finish = Outcome_Completed
                     then (case Node_shutdown (me_sock_os env) wait (nd, fs) of
                             (nd, fs) \<Rightarrow> (Done (Ok ()), lines, Some nd, fs))
                     else (Done (Err (''call did not complete: '' @ outcome_debug (df_outcome finish))),
                           lines, Some nd, fs)))))"

section \<open>Who a daemon lets in\<close>

lemma listen_options_allow:
  assumes "\<forall>i\<in>set ids. parse_id (show_id i) = Some i"
  shows "listen_options parse_id (concat (map (\<lambda>i. [''--allow'', show_id i]) ids) @ rest) p r =
    listen_options parse_id rest (foldl (\<lambda>p i. Policy_insert p (public_key_to_node_id i)) p ids) r"
  using assms by (induction ids arbitrary: p) simp_all

lemma policy_insert_many:
  "foldl (\<lambda>p i. Policy_insert p (f i)) p ids = p\<lparr>policy_allowlist := f ` set ids \<union> policy_allowlist p\<rparr>"
  by (induction ids arbitrary: p) (simp_all add: Policy_insert_def)

lemma listen_options_read:
  assumes "\<forall>i\<in>set ids. parse_id (show_id i) = Some i"
  shows "listen_options parse_id
      (concat (map (\<lambda>i. [''--allow'', show_id i]) ids) @ (if flag then [''--relay''] else [])) Policy_empty r =
    Ok (Policy_empty\<lparr>policy_allowlist := public_key_to_node_id ` set ids\<rparr>, flag \<or> r)"
  by (simp add: listen_options_allow [OF assms] policy_insert_many) (simp add: Policy_empty_def)

lemma bind_at_opts_Ok:
  assumes "Node_bind_at_with_opts os keys secret fs bind home verify behavior records opts = (Ok nd, fs')"
  shows "nd_verify nd = verify \<and> nd_callee_behavior nd = behavior \<and> nd_records nd = records \<and>
    nd_rate_limiter nd = RateLimiter_new (nbo_rate_limits opts) \<and> nd_sock_home nd = None \<and>
    \<not> nd_inbox_rx_taken nd \<and> \<not> nd_endpoint_closed nd \<and>
    is_ok (bind (identity_secret (nd_identity nd)) ALPN (relay_mode_of opts) uat_transport_config) \<and>
    load_or_create_at os keys secret fs (path_join home IDENTITY_FILE) = (Ok (nd_identity nd), fs')"
  using assms
  by (auto simp: Node_bind_at_with_opts_def bind_at_then_def Node_bind_with_opts_def and_then_Ok_iff
      split: prod.splits sum.splits)

text \<open>
  C27: \<open>uat-node listen\<close> serves exactly whom it was told to. When it comes up with the \<open>--allow\<close> options of a
  list of endpoint ids, the connection gate lets in a peer if and only if it is one of them (no
  Biscuit root is ever configured, so without \<open>--allow\<close> nobody gets in), relays are on exactly with \<open>--relay\<close> or \<open>UAT_RELAY\<close>, the limits are the default
  ones, the callee is the completing stub, the identity is the one stored under the home, and the
  socket is the one of the home.
\<close>

theorem listen_serves_its_allowlist:
  assumes "listen_start env files (concat (map (\<lambda>i. [''--allow'', show_id i]) ids) @
      (if flag then [''--relay''] else [])) fs = (Ok (nd, ln, home, relay), fs')"
    and "\<forall>i\<in>set ids. me_parse_id env (show_id i) = Some i"
  shows "(verify_peer (nd_verify nd) n \<longleftrightarrow> n \<in> public_key_to_node_id ` set ids) \<and>
    \<not> has_biscuit_roots (nd_verify nd) \<and>
    relay = (flag \<or> env_relay_enabled (me_var env)) \<and>
    nd_rate_limiter nd = RateLimiter_new RateLimitConfig_defaults \<and>
    nd_callee_behavior nd = StubComplete \<and>
    is_ok (me_bind env (identity_secret (nd_identity nd)) ALPN
      (if relay then RelayMode_Default else RelayMode_Disabled) uat_transport_config) \<and>
    (\<exists>fs0. load_or_create_at (me_id_os env) (me_keys env) (me_secret env) fs (path_join home IDENTITY_FILE) =
      (Ok (nd_identity nd), fs0)) \<and>
    local_sock_path nd = Some (sock_path home)"
proof -
  let ?allow = "Policy_empty\<lparr>policy_allowlist := public_key_to_node_id ` set ids\<rparr>"
  note opts = listen_options_read [OF assms(2), of flag "env_relay_enabled (me_var env)"]
  from assms(1) obtain nd0 fs0 where relay: "relay = (flag \<or> env_relay_enabled (me_var env))"
    and bind: "Node_bind_at_with_opts (me_id_os env) (me_keys env) (me_secret env) fs (me_bind env)
      home ?allow StubComplete (record_sink_for home files) (bind_opts_of relay) = (Ok nd0, fs0)"
    and sock: "spawn_local_socket (me_sock_os env) fs0 home nd0 = (Ok ln, nd, fs')"
    by (auto simp: listen_start_def opts split: sum.splits prod.splits)
  from sock have nd: "nd = nd0\<lparr>nd_sock_home := Some home, nd_inbox_rx_taken := True\<rparr>"
    by (auto simp: spawn_local_socket_def Let_def split: prod.splits sum.splits if_splits)
  from bind_at_opts_Ok [OF bind] show ?thesis
    by (auto simp: nd relay local_sock_path_def sock_path_def verify_peer_def Policy_contains_def
        has_biscuit_roots_def Policy_empty_def bind_opts_of_def NodeBindOpts_with_relay_def
        NodeBindOpts_disabled_def relay_mode_of_def)
qed

text \<open>An operating system that accepts everything, for the witnesses.\<close>

definition sample_main_env :: "(unit, unit, unit, unit, bytes, string) main_env" where
  "sample_main_env =
     \<lparr>me_var = (\<lambda>v. if v = ''UAT_HOME'' then Some ''h'' else None), me_var_os = (\<lambda>_. None),
      me_id_os = \<lparr>fs_exists = (\<lambda>_ _. False), fs_mode = (\<lambda>_ _. Ok 384), fs_open = (\<lambda>_ _. Ok ()),
        fs_read = (\<lambda>h n. (Ok [], h)), fs_create_dir_all = (\<lambda>fs _. (Ok (), fs)),
        fs_create_new = (\<lambda>fs _ _. (Ok (), fs)), fs_write_all = (\<lambda>fs _ _. (Ok (), fs)),
        fs_sync_all = (\<lambda>fs _. (Ok (), fs)), fs_set_mode = (\<lambda>fs _ _. (Ok (), fs))\<rparr>,
      me_keys = sample_keys, me_secret = sample_key,
      me_sock_os = \<lparr>so_create_dir_all = (\<lambda>fs _. (Ok (), fs)), so_exists = (\<lambda>_ _. False),
        so_connect = (\<lambda>fs _. (Ok (), fs)), so_remove_file = (\<lambda>fs _. (Ok (), fs)),
        so_bind = (\<lambda>fs _. (Ok (), fs)), so_set_permissions = (\<lambda>fs _ _. (Ok (), fs)),
        so_mode = (\<lambda>_ _. Ok 384)\<rparr>,
      me_bind = (\<lambda>_ _ _ _. Ok ()),
      me_parse_id = (\<lambda>s. if s = ''a'' then Some [7] else None), me_parse_addr = Some\<rparr>"

lemma sample_listen_starts:
  "\<exists>nd home. listen_start sample_main_env () [''--allow'', ''a''] () =
     ((Ok (nd :: (nat, memory_spent_set, bytes, unit child_sink list) node, (), home, False)), ())"
  by (simp add: listen_start_def sample_main_env_def env_relay_enabled_def node_home_dir_def
      Node_bind_at_with_opts_def bind_at_then_def load_or_create_at_def create_at_def write_key_def
      io_then_def permission_bits_def REQUIRED_MODE_def Node_bind_with_opts_def spawn_local_socket_def
      bind_sock_def bind_then_def clear_stale_sock_def Let_def split: option.split)

theorem listen_serves_its_allowlist_witness:
  "\<exists>nd home relay. listen_start sample_main_env () [''--allow'', ''a''] () =
       ((Ok (nd :: (nat, memory_spent_set, bytes, unit child_sink list) node, (), home, relay)), ()) \<and>
     verify_peer (nd_verify nd) (NodeId [7]) \<and> \<not> verify_peer (nd_verify nd) (NodeId [8])"
proof -
  obtain nd home relay where start: "listen_start sample_main_env () [''--allow'', ''a''] () =
      ((Ok (nd :: (nat, memory_spent_set, bytes, unit child_sink list) node, (), home, relay)), ())"
    using sample_listen_starts by blast
  then have "listen_start sample_main_env () (concat (map (\<lambda>i. [''--allow'', (\<lambda>_. ''a'') i]) [[7]]) @
      (if False then [''--relay''] else [])) () = (Ok (nd, (), home, relay), ())" by simp
  moreover have "\<forall>i\<in>set [[7]]. me_parse_id sample_main_env ((\<lambda>_. ''a'') i) = Some i"
    by (simp add: sample_main_env_def)
  ultimately have "verify_peer (nd_verify nd) n \<longleftrightarrow> n \<in> public_key_to_node_id ` set [[7]]" for n
    using listen_serves_its_allowlist [of sample_main_env "()" "\<lambda>_. ''a''" "[[7]]" False "()" nd "()" home relay "()" n]
    by blast
  with start show ?thesis by (auto simp: public_key_to_node_id_def NodeId_from_bytes_def)
qed

section \<open>How dial ends\<close>

lemma dial_start_open: "dial_start env files args fs = (Ok (nd, peer, home, relay), fs') \<Longrightarrow> \<not> nd_endpoint_closed nd"
  by (auto simp: dial_start_def dest: bind_at_opts_Ok split: list.splits sum.splits prod.splits)

lemma node_dial_open:
  "Node_dial emit env submit nd = (r, nd') \<Longrightarrow> nd_endpoint_closed nd' = nd_endpoint_closed nd"
  by (auto simp: Node_dial_def Let_def split: sum.splits prod.splits progress.splits)

lemma stub_submit_constructed:
  "Deadline_new 30000 = Ok (Deadline 30000)"
  "ContentType_new ''application/octet-stream'' = Ok (ContentType ''application/octet-stream'')"
  by (simp_all add: Deadline_new_def MAX_DEADLINE_MS_def ContentType_new_def MAX_CONTENT_TYPE_LEN_def Let_def)

text \<open>
  \<open>uat-node dial\<close> reports its call. Once the node is up, the command succeeds exactly when the call it
  makes ends Completed and no signal came first; an outcome is printed as the last line whatever it
  is; a signal ends the command with an error. The node is shut down when the call completed or was
  interrupted, and only then: a call that ends in any other way leaves the process with the endpoint
  open.
\<close>

theorem node_dial_reports_its_call:
  fixes nd nd1 :: "('pk, memory_spent_set, 'sk, 'f child_sink list) node"
    and nd' :: "('pk, memory_spent_set, 'sk, 'f child_sink list) node option"
  assumes "dial_start env files args fs = (Ok (nd, peer, home, relay), fs')"
    and "node_cmd_dial env os files call race wait args fs = (r, lines, nd', fs'')"
    and "Node_dial (FanoutCallRecordSink_emit (child_emit os)) (call peer) stub_submit nd = ((res, acts, out), nd1)"
  shows "(r = Done (Ok ()) \<longleftrightarrow>
      race = Race_Call \<and> (\<exists>finish. res = Done (Ok finish) \<and> df_outcome finish = Outcome_Completed)) \<and>
    (race = Race_Call \<and> res = Done (Ok finish) \<longrightarrow> last lines = ''outcome='' @ outcome_debug (df_outcome finish)) \<and>
    (race \<noteq> Race_Call \<longrightarrow> r = Done (Err ''cancelled before call completed'') \<and> nd_endpoint_closed (the nd')) \<and>
    (race = Race_Call \<longrightarrow> (nd_endpoint_closed (the nd') \<longleftrightarrow> r = Done (Ok ())))"
proof -
  note run = assms(2) [unfolded node_cmd_dial_def assms(1) Let_def]
  have closed: "nd_endpoint_closed x" if "Node_shutdown (me_sock_os env) wait st = (x, y)" for st x y
    using that by (cases st) (auto simp: Node_shutdown_def Let_def split: prod.splits)
  have "\<not> nd_endpoint_closed nd1"
    using dial_start_open [OF assms(1)] node_dial_open [OF assms(3)] by simp
  show ?thesis
  proof (cases "race = Race_Call")
    case True
    show ?thesis
    proof (cases res)
      case (Done v)
      with True run assms(3) \<open>\<not> nd_endpoint_closed nd1\<close> show ?thesis
        by (cases v) (auto dest: closed split: prod.splits if_splits)
    qed (use True run assms(3) \<open>\<not> nd_endpoint_closed nd1\<close> in auto)
  next
    case False
    with run show ?thesis
      by (cases race) (auto dest: closed split: prod.splits)
  qed
qed

lemma sample_dial_starts:
  "\<exists>nd home. dial_start sample_main_env () [''a'', ''--addr'', ''x''] () =
     ((Ok (nd :: (nat, memory_spent_set, bytes, unit child_sink list) node,
       \<lparr>ea_id = [7], ea_addrs = [''x'']\<rparr>, home, False)), ())"
  by (simp add: dial_start_def sample_main_env_def env_relay_enabled_def node_home_dir_def
      Node_bind_at_with_opts_def bind_at_then_def load_or_create_at_def create_at_def write_key_def
      io_then_def permission_bits_def REQUIRED_MODE_def Node_bind_with_opts_def Let_def split: option.split)

definition sample_os :: "unit os_ops" where
  "sample_os = \<lparr>os_create_dir_all = (\<lambda>fs _. (True, fs)), os_create_new = (\<lambda>fs _. (Opened, fs)),
     os_write_all = (\<lambda>fs _ _. (True, fs)), os_to_vec_pretty = (\<lambda>_. None)\<rparr>"

theorem node_dial_reports_its_call_witness:
  "\<exists>(nd' :: (nat, memory_spent_set, bytes, unit child_sink list) node option) lines fs.
     node_cmd_dial sample_main_env sample_os () (\<lambda>_. sample_caller_env) Race_Signal_Connecting (\<lambda>st. st)
       [''a'', ''--addr'', ''x''] () = (Done (Err ''cancelled before call completed''), lines, nd', fs) \<and>
     nd_endpoint_closed (the nd')"
proof -
  obtain nd :: "(nat, memory_spent_set, bytes, unit child_sink list) node" and home where
    start: "dial_start sample_main_env () [''a'', ''--addr'', ''x''] () =
      (Ok (nd, \<lparr>ea_id = [7], ea_addrs = [''x'']\<rparr>, home, False), ())" using sample_dial_starts by blast
  obtain r lines and nd' :: "(nat, memory_spent_set, bytes, unit child_sink list) node option" and fs where
    run: "node_cmd_dial sample_main_env sample_os () (\<lambda>_. sample_caller_env) Race_Signal_Connecting (\<lambda>st. st)
      [''a'', ''--addr'', ''x''] () = (r, lines, nd', fs)" by (metis prod_cases4)
  obtain res acts out nd1 where
    dial: "Node_dial (FanoutCallRecordSink_emit (child_emit sample_os)) sample_caller_env stub_submit nd =
      ((res, acts, out), nd1)" by (metis surj_pair)
  from node_dial_reports_its_call [OF start run dial] run show ?thesis by auto
qed

end
