(* ===== verification/Spec2Isabelle.thy ===== *)
theory Spec2Isabelle
  imports Chan_Harness End_To_End Refused_Dials Daemon_System Node_Draining Node_Main
begin

text \<open>
  Universal Agent Telephony: a verification development for the Rust workspace under src/.

  The program. Two nodes hold a call over one QUIC connection with one bidirectional stream: the
  caller sends a \<open>Submit\<close> (task, deadline, content type, optional credential, body), the callee
  accepts or fails it, may report progress or ask for input, and ends it; either side can lose the
  connection, time out or, for the caller, cancel. A node answers calls for the peers its policy
  admits, within per-peer limits, and leaves one audit record per connection. Local programs talk to a
  running node over a Unix socket; \<open>uat\<close> is the command line client of that socket and \<open>uat-node\<close>
  the daemon.

  The parts, in the order of the theories, each with the code it models.

  \<^item> \<open>Uat_Prelude\<close>: machine integers as words, \<open>Result\<close> as a sum, big-endian bytes, paths, I/O errors.
  \<^item> \<open>Core_Types\<close>: crates/uat-core (types.rs, codes.rs, outcome.rs, message.rs, error.rs, node_id.rs):
    the newtypes with their bounds, parsers and renderers, messages, codes and outcomes.
  \<^item> \<open>Call_State\<close>: crates/uat-core/src/state.rs: the caller and callee tables, arm by arm.
    \<open>Call_Protocol\<close> composes them over two queues (\<open>call_step\<close>, \<open>call_reachable\<close>).
  \<^item> \<open>Framing\<close> is the interface of a length-prefixed header/body frame (a locale); \<open>Frame_Codec\<close>
    (crates/uat-core/src/codec.rs) and \<open>Local_Codec\<close> (the copies in crates/uat-node/src/local.rs) are
    its two interpretations. \<open>Frame_Io\<close>: crates/uat-node/src/frame_io.rs over a stream.
  \<^item> \<open>Spent_Set\<close> and \<open>Policy\<close>: crates/uat-policy/src/lib.rs: the trait \<open>SpentSet\<close> as a locale, the
    in-memory one as its interpretation (and of \<open>evicting_spent_set\<close>, a set that stores no expired
    entry), the allowlist and the Biscuit checks in source order. \<open>One_Shot\<close>: what the two promise of
    one-shot tokens over a sequence of submits whose clock readings need not be in order.
    \<open>Rate_Limit\<close>: crates/uat-policy/src/rate_limit.rs: the limiter and its permits; the locale
    \<open>call_limiter\<close> is what the node relies on.
  \<^item> \<open>Node_Auth\<close> (auth.rs), \<open>Timing\<close> (timing.rs), \<open>Call_Record\<close> (record.rs; the trait
    \<open>CallRecordSink\<close> as a locale) of crates/uat-node/src.
  \<^item> \<open>Call_Driver\<close>: the tasks of crates/uat-node/src/call.rs; \<open>Call_Tasks\<close> and \<open>Callee_Tasks\<close> hold what
    is proved of them, \<open>Two_Nodes\<close> what of a caller and its callee together; \<open>Chan_Harness\<close> is the file's
    in-memory composition \<open>drive_chan_call\<close>.
  \<^item> \<open>Identity\<close> (identity.rs and the key conversions of lib.rs), \<open>Sock_File\<close> and \<open>Local_Socket\<close>
    (local.rs), \<open>Node\<close> (node.rs). \<open>Node_Connection\<close> holds what is proved of one inbound connection,
    \<open>Node_System\<close> the running node, \<open>Node_Audit\<close> its tokens and audit records,
    \<open>Daemon_System\<close> the node together with the tasks of its local socket, \<open>Node_Draining\<close> its shutdown,
    \<open>Refused_Dials\<close> a dial that the other node's limiter refuses, seen from both nodes.
  \<^item> \<open>Cli\<close>: crates/uat-cli/src/main.rs; \<open>Node_Main\<close>: crates/uat-node/src/main.rs. \<open>End_To_End\<close> runs one
    \<open>uat dial\<close> through all of it: command line, local socket, daemon, remote node and back.

  How the parts interact. \<open>Call_Driver\<close> steps the tables of \<open>Call_State\<close> and writes messages;
  \<open>Callee_Tasks\<close> asks \<open>Node_Auth\<close>, hence \<open>Policy\<close> and \<open>Spent_Set\<close>, before the first answer; both
  hold a guard of \<open>Call_Record\<close>. A call touches the shared policy once, when its first frame is there
  (\<open>incoming_submit\<close>), with the clock reading it made before it waited: in \<open>Node_System\<close> a running call
  goes through three stages (admitted, started, first frame read). A handler is given as its decision
  (\<open>gate_decision\<close>, \<open>call_finish\<close>) and the effects on shared objects it leads to (\<open>node_effect\<close>: a record, a
  notice, a released permit); each effect is a step of its own, and calls interleave at each. \<open>Node\<close>
  puts \<open>Rate_Limit\<close> and the gate in front of the callee task, makes outbound calls with the caller
  task, and owns the shared state (policy, limiter, sink, inbox).
  \<open>Local_Socket\<close> turns requests into \<open>Node_dial\<close> and hands out inbox events. The commands bind nodes
  or speak to the socket.

  How code becomes definitions. A struct is a record, an enum a datatype with the source's
  constructors (\<open>Type_Constructor\<close>), a method \<open>Type::name\<close> is \<open>Type_name\<close> or \<open>name\<close>, \<open>Result\<close> is a sum
  with \<open>Ok\<close> and \<open>Err\<close>, a panic is a value of its own (\<open>Panics\<close>, \<open>Panicked\<close>). Integers keep their
  width where arithmetic can wrap or saturate; lengths are \<open>nat\<close> with \<open>usize\<close> checks written out. A
  mutated object is passed in and returned. An asynchronous task is a function of the answers its
  environment gives, in the order it asks for them (the branch a \<open>select!\<close> takes, the result of a
  write): a task that has used up its answers is \<open>Waiting\<close>. The elapsed budget of a timeout is an
  answer, so both of its branches are covered. Where tasks share state or run together, a step function
  over events gives all their interleavings (\<open>Rate_Limit\<close>, \<open>Call_Protocol\<close>, \<open>Node_System\<close>,
  \<open>Daemon_System\<close>, \<open>Chan_Harness\<close>); a lock makes what it guards one step.

  Parameters are the code outside src/: serde_json and base64, biscuit-auth (parsing, signatures, the
  Datalog queries), iroh (endpoint, connection, streams, keys), the operating system and the clock.
  What is relied on is stated as named hypotheses (\<open>serde_header\<close>, \<open>local_serde\<close>, \<open>os_sound\<close>, \<open>fs_sound\<close>,
  \<open>sock_sound\<close>, \<open>reads_from\<close>, \<open>writes_to\<close>, \<open>duplex\<close>), each instantiated by a concrete function in a witness.

  What is proved.
  \<^item> Protocol: no message is illegal where it is received and the two sides agree on the outcome, for
    all interleavings (\<open>Call_Protocol\<close>, by an invariant that links the queue to the callee with the
    caller's future view); the tasks over QUIC make only runs of the tables (the caller's over exactly
    the events it was answered, \<open>select_events\<close>) and end by their timers (\<open>Call_Tasks\<close>, \<open>Callee_Tasks\<close>), and the audit records both nodes keep of a call agree on its outcome
    and task (\<open>Two_Nodes\<close>), also for a dial the limiter refused (\<open>Refused_Dials\<close>); what \<open>uat dial\<close> prints is
    the outcome in the records of both nodes (\<open>End_To_End\<close>); the in-memory call simulates the protocol, returns by the callee's
    deadline and never needs the caller's grace (\<open>Chan_Harness\<close>).
  \<^item> Wire: both codecs accept exactly the frames they write, messages and requests come back unchanged,
    sizes are bounded before anything is read (\<open>Frame_Codec\<close>, \<open>Frame_Io\<close>, \<open>Local_Codec\<close>), a session
    on the local socket gives the client the daemon's answer to its own request (\<open>Local_Socket\<close>).
  \<^item> Admission: the decision of the policy as one equivalence, and when verifying panics; one-shot tokens
    admit once while no reading of the clock is past their expiry; nothing is written before
    authorization, and a refusal of the policy is answered by exactly one message; the limiter refines a
    history of attempts and admissions for peers whose clock readings reach it in order, and bounds the
    admissions of a peer in a minute less the time by which its readings overtake each other (the code reads
    the clock before it takes the lock).
  \<^item> Node: every reachable state counts the calls that hold a permit within both caps and has one record
    for every finished connection, in the sink or about to be emitted; the records and running calls of a token are the submits granted under
    its id, one for one, hence at most one for a one-shot token; what
    \<open>uat inbox\<close> is told are such records, none twice; shutdown
    leaves no permit held and no connection unrecorded; each connection is closed, recorded and released
    as its gate decided;
    a start leaves the key file as it is and loads the same identity or reports an error, a socket file is
    replaced exactly when no listener answers the connection that is tried, files are not overwritten, a daemon lets in exactly its \<open>--allow\<close> list.
  \<^item> Some theorems state what the code does where that is not what its documentation says: attenuated
    one-shot tokens, one-shot tokens and a stale clock reading (\<open>stale_reading_admits_two_calls\<close> for a
    whole node), clock readings that reach the limiter late (\<open>late_reading_exceeds_limit\<close>), far expiry dates, a dropped cancel handle, the records of rate-limited and of
    unsubmitted calls, the name of a peer in the inbox, the first poll of \<open>uat listen\<close>.

  Bounds. \<open>write_attempts\<close> ends after the 33 names the code tries. No loop has fuel: the task loops
  recur on the list of answers, \<open>octal\<close> and \<open>decimal\<close> on the number, \<open>strip_front\<close> on the length; the
  in-memory call has a measure (\<open>chan_left\<close>) that bounds its events by the deadline in milliseconds plus
  sixty.

  Not modelled. Log lines and usage texts (they decide nothing); accessors that clone a handle, and
  trait implementations that forward through \<open>Arc\<close> or a reference; the text of derived \<open>Debug\<close>
  beyond the cases that reach a user; what happens inside the parameters above. The clock
  is a value at each place the code reads it, so nothing is said of how long a computation takes; the
  verification of one Submit is one step, although the code takes the spent set's lock twice in it
  (\<open>contains\<close>, then \<open>try_spend\<close>, which looks again: \<open>memory_consume_is_spend\<close>); the
  paused clock of \<open>Chan_Harness\<close> advances only when every task waits, as tokio's does. A write refused to a
  callee is not bounded by a budget in the code, and the model says so (the task stays \<open>Waiting\<close>).
  crates/uat-mcp is a stub that prints one line; the tests and the fuzz target are left out.
\<close>

end
